(* ===== verification/Prelude.thy ===== *)
theory Prelude
  imports
    Main
    "HOL-Library.Word"
    "HOL-Library.Monad_Syntax"
begin

text \<open>
  Shared vocabulary of the development: the machine integers of
  \<^verbatim>\<open>src/src/Core/globals.hpp\<close>, the theorem collections the component theories
  add to, and the generic facts on association lists, sorted lists, option binds and
  64-bit words that their proofs share.

  Fallible code is a value of an \<open>option\<close> type: \<open>None\<close> stands for \<^emph>\<open>no defined
  result\<close> of the C++ program (a read through a dangling iterator or pointer, the front of an
  empty list, a write past the end of an array, a loop that does not return). An error the
  program reports is an ordinary value (an \<^verbatim>\<open>ErrorCode\<close>), never \<open>None\<close>.
\<close>

subsection \<open>Machine integers\<close>

text \<open>The aliases of \<^verbatim>\<open>namespace Hermes::core\<close>. Signed and unsigned types of one
  width are the same word type; a signed value is read with \<open>sint\<close> and compared with
  \<open><s\<close>.\<close>

type_synonym u8 = "8 word"
type_synonym u16 = "16 word"
type_synonym u32 = "32 word"
type_synonym u64 = "64 word"
type_synonym i32 = "32 word"
type_synonym i64 = "64 word"

type_synonym ClientID = u64
type_synonym OrderID = u64
type_synonym AccountID = u64
type_synonym ClientOrderID = u64
type_synonym TradeID = u64
type_synonym MatchID = u64
type_synonym Price = i64
type_synonym Quantity = u64
type_synonym TimeNs = i64

subsection \<open>Theorem collections\<close>

named_theorems book_frame \<open>what an operation of the order book leaves unchanged\<close>
named_theorems deref_simps \<open>reads through order pointers after a write\<close>
named_theorems queue_simps \<open>the priority queue of a side after a write\<close>
named_theorems codec_simps \<open>lengths and inverses of the byte encodings\<close>

subsection \<open>Association lists used as ordered maps\<close>

text \<open>Overwriting the value of a key in place, without moving the entry.\<close>

fun assoc_set :: "'k \<Rightarrow> 'v \<Rightarrow> ('k \<times> 'v) list \<Rightarrow> ('k \<times> 'v) list" where
  "assoc_set k v [] = []"
| "assoc_set k v ((k', v') # xs) =
     (if k' = k then (k, v) # xs else (k', v') # assoc_set k v xs)"

fun assoc_erase :: "'k \<Rightarrow> ('k \<times> 'v) list \<Rightarrow> ('k \<times> 'v) list" where
  "assoc_erase k [] = []"
| "assoc_erase k ((k', v') # xs) = (if k' = k then xs else (k', v') # assoc_erase k xs)"

lemma map_fst_assoc_set [simp]: "map fst (assoc_set k v xs) = map fst xs"
  by (induction k v xs rule: assoc_set.induct) auto

lemma assoc_set_eq_Nil [simp]: "assoc_set k v xs = [] \<longleftrightarrow> xs = []"
  by (induction k v xs rule: assoc_set.induct) auto

lemma map_of_assoc_set:
  "map_of (assoc_set k v xs) k' = (if k' = k \<and> map_of xs k \<noteq> None then Some v else map_of xs k')"
  by (induction k v xs rule: assoc_set.induct) auto

lemma map_of_assoc_set_same [simp]:
  "map_of xs k = Some w \<Longrightarrow> map_of (assoc_set k v xs) k = Some v"
  by (simp add: map_of_assoc_set)

lemma map_of_assoc_set_other [simp]:
  "k' \<noteq> k \<Longrightarrow> map_of (assoc_set k v xs) k' = map_of xs k'"
  by (simp add: map_of_assoc_set)

lemma assoc_set_id: "map_of xs k = Some v \<Longrightarrow> assoc_set k v xs = xs"
  by (induction k v xs rule: assoc_set.induct) (auto split: if_splits)

lemma assoc_set_twice [simp]: "assoc_set k v (assoc_set k w xs) = assoc_set k v xs"
  by (induction k w xs rule: assoc_set.induct) auto

lemma set_assoc_set_subset:
  "set (assoc_set k v xs) \<subseteq> insert (k, v) (set xs)"
  by (induction k v xs rule: assoc_set.induct) auto

lemma set_map_fst_assoc_erase:
  "distinct (map fst xs) \<Longrightarrow> fst ` set (assoc_erase k xs) = fst ` set xs - {k}"
  by (induction k xs rule: assoc_erase.induct) (auto simp: image_iff)

lemma set_assoc_erase_subset: "set (assoc_erase k xs) \<subseteq> set xs"
  by (induction k xs rule: assoc_erase.induct) auto

lemma map_of_assoc_erase:
  "distinct (map fst xs) \<Longrightarrow> map_of (assoc_erase k xs) = (map_of xs)(k := None)"
proof (induction k xs rule: assoc_erase.induct)
  case (2 k k' v' xs)
  then show ?case
    by (auto simp: fun_eq_iff map_of_eq_None_iff)
qed (simp add: fun_eq_iff)

lemma distinct_assoc_erase:
  "distinct (map fst xs) \<Longrightarrow> distinct (map fst (assoc_erase k xs))"
proof (induction k xs rule: assoc_erase.induct)
  case (2 k k' v' xs)
  then show ?case using set_assoc_erase_subset [of k xs] by auto
qed simp

lemma sorted_wrt_assoc_erase:
  "sorted_wrt P (map f xs) \<Longrightarrow> sorted_wrt P (map f (assoc_erase k xs))"
proof (induction k xs rule: assoc_erase.induct)
  case (2 k k' v' xs)
  then show ?case using set_assoc_erase_subset [of k xs] by auto
qed simp

lemma assoc_erase_split:
  assumes "distinct (map fst xs)" and "map_of xs k = Some v"
  obtains ys zs where "xs = ys @ (k, v) # zs" and "assoc_erase k xs = ys @ zs"
    and "k \<notin> fst ` set ys" and "k \<notin> fst ` set zs"
proof -
  have "\<exists>ys zs. xs = ys @ (k, v) # zs \<and> assoc_erase k xs = ys @ zs
      \<and> k \<notin> fst ` set ys \<and> k \<notin> fst ` set zs"
    using assms
  proof (induction k xs rule: assoc_erase.induct)
    case (2 k k' v' xs)
    show ?case
    proof (cases "k' = k")
      case True
      with 2 show ?thesis by (intro exI [of _ "[]"] exI [of _ xs]) auto
    next
      case False
      with 2 obtain ys zs where "xs = ys @ (k, v) # zs" "assoc_erase k xs = ys @ zs"
        "k \<notin> fst ` set ys" "k \<notin> fst ` set zs" by auto
      with False show ?thesis by (intro exI [of _ "(k', v') # ys"] exI [of _ zs]) auto
    qed
  qed simp
  then show thesis using that by blast
qed

lemma assoc_set_split:
  "k \<notin> fst ` set ys \<Longrightarrow> assoc_set k v (ys @ (k, w) # zs) = ys @ (k, v) # zs"
  by (induction ys) auto

lemma assoc_erase_append:
  "k \<notin> fst ` set ys \<Longrightarrow> assoc_erase k (ys @ (k, w) # zs) = ys @ zs"
  by (induction ys) auto

subsection \<open>Words\<close>

lemma unat_plus_one: "x \<noteq> (- 1 :: 'a::len word) \<Longrightarrow> unat (x + 1) = Suc (unat x)"
  by (metis add.commute add_eq_0_iff unatSuc)

lemma word_less_plus_one: "x \<noteq> (- 1 :: 'a::len word) \<Longrightarrow> y < x + 1 \<longleftrightarrow> y \<le> x"
  by (auto simp: word_less_nat_alt word_le_nat_alt unat_plus_one)

lemma unat_minus_le: "y \<le> (x :: 'a::len word) \<Longrightarrow> unat (x - y) = unat x - unat y"
  by (simp add: unat_sub)

lemma unat_add_bounded:
  "unat (a :: 'a::len word) + unat b < 2 ^ LENGTH('a) \<Longrightarrow> unat (a + b) = unat a + unat b"
  by (simp add: unat_word_ariths)

lemma takeWhile_concat_const:
  assumes "\<And>x y. x \<in> set xs \<Longrightarrow> y \<in> set (f x) \<Longrightarrow> P y = Q x" and "\<And>x. x \<in> set xs \<Longrightarrow> f x \<noteq> []"
  shows "takeWhile P (concat (map f xs)) = concat (map f (takeWhile Q xs))"
  using assms
proof (induction xs)
  case (Cons x xs)
  then have ih: "takeWhile P (concat (map f xs)) = concat (map f (takeWhile Q xs))" by simp
  from Cons.prems(1) [of x] have c: "\<forall>y\<in>set (f x). P y = Q x" by simp
  show ?case
  proof (cases "Q x")
    case True
    with c ih show ?thesis by (simp add: takeWhile_append)
  next
    case False
    with c Cons.prems(2) [of x] show ?thesis by (cases "f x") auto
  qed
qed simp

end
