(* ===== verification/Globals.thy ===== *)
theory Globals
  imports Prelude
begin

text \<open>
  \<^verbatim>\<open>src/src/Core/globals.hpp\<close>: the enumerations, the bit operations on
  \<^verbatim>\<open>Flags\<close> and the textual forms of the enumerators. Enumerators whose C++ scope
  (\<^verbatim>\<open>enum class\<close>) the model cannot keep carry a prefix (\<open>Peg_Market\<close>,
  \<open>Flags_None\<close>). \<^verbatim>\<open>format_quantity\<close> and \<^verbatim>\<open>format_price\<close> are in the
  theories on decimal and price text; \<^verbatim>\<open>GetCurrentTime\<close> reads the clock, which the model
  passes in.
\<close>

subsection \<open>Enumerations\<close>

datatype Side = Buy | Sell

datatype OrderType =
    Limit | Market | Complex | Stop | StopLimit | MarketIfTouched | LimitIfTouched | Pegged

datatype TimeInForce = GTC | Day | IOC | FOK | GTD | ATO | ATC

datatype PegScope = Peg_None | Peg_Primary | Peg_Market | Peg_Midpoint

datatype MatchType = Standard | Midpoint | HiddenLiquidity | Auction

fun opposite :: "Side \<Rightarrow> Side" where
  "opposite Buy = Sell"
| "opposite Sell = Buy"

lemma opposite_opposite [simp]: "opposite (opposite s) = s"
  by (cases s) simp_all

lemma opposite_neq [simp]: "opposite s \<noteq> s" "s \<noteq> opposite s"
  by (cases s; simp)+

lemma opposite_eq_iff: "opposite s = t \<longleftrightarrow> s = opposite t"
  by (cases s; cases t) simp_all

lemma neq_opposite: "s \<noteq> t \<longleftrightarrow> s = opposite t"
  by (cases s; cases t) simp_all

subsection \<open>Flags\<close>

text \<open>\<^verbatim>\<open>enum class Flags : u16\<close> admits every 16-bit value. The operators cast
  both operands to \<^verbatim>\<open>uint8_t\<close> first, so they drop the upper byte; \<^verbatim>\<open>HasFlag\<close>
  works at the full width.\<close>

type_synonym Flags = u16

definition Flags_None :: Flags where "Flags_None = 0"
definition Hidden :: Flags where "Hidden = 1"
definition Iceberg :: Flags where "Iceberg = 2"
definition PostOnly :: Flags where "PostOnly = 4"

lemmas flag_defs = Flags_None_def Hidden_def Iceberg_def PostOnly_def

text \<open>\<^verbatim>\<open>enum class ExecutionInstructions : u16\<close>, a bit set as well, has no operators.\<close>

type_synonym ExecutionInstructions = u16

definition ExecInst_None :: ExecutionInstructions where "ExecInst_None = 0"
definition ParticipateDoNotInitiate :: ExecutionInstructions where "ParticipateDoNotInitiate = 1"
definition AllOrNone :: ExecutionInstructions where "AllOrNone = 2"
definition ReduceOnly :: ExecutionInstructions where "ReduceOnly = 4"
definition IntermarketSwap :: ExecutionInstructions where "IntermarketSwap = 8"

unbundle bit_operations_syntax

definition flags_or :: "Flags \<Rightarrow> Flags \<Rightarrow> Flags" where
  "flags_or a b = ucast ((ucast a :: u8) OR (ucast b :: u8))"

definition flags_and :: "Flags \<Rightarrow> Flags \<Rightarrow> Flags" where
  "flags_and a b = ucast ((ucast a :: u8) AND (ucast b :: u8))"

text \<open>\<^verbatim>\<open>operator|=\<close> stores the result in its first operand and returns a reference to it;
  both are the value here.\<close>

definition flags_or_assign :: "Flags \<Rightarrow> Flags \<Rightarrow> Flags" where
  "flags_or_assign a b = flags_or a b"

definition HasFlag :: "Flags \<Rightarrow> Flags \<Rightarrow> bool" where
  "HasFlag value flag \<longleftrightarrow> value AND flag \<noteq> 0"

subsection \<open>Textual forms\<close>

fun to_string_side :: "Side \<Rightarrow> string" where
  "to_string_side Buy = ''Buy''"
| "to_string_side Sell = ''Sell''"

fun to_string_order_type :: "OrderType \<Rightarrow> string" where
  "to_string_order_type Limit = ''Limit''"
| "to_string_order_type Market = ''Market''"
| "to_string_order_type Stop = ''Stop''"
| "to_string_order_type StopLimit = ''StopLimit''"
| "to_string_order_type _ = ''''"

fun to_string_tif :: "TimeInForce \<Rightarrow> string" where
  "to_string_tif Day = ''DayOrder''"
| "to_string_tif GTC = ''GoodTillCancelled''"
| "to_string_tif IOC = ''ImmediateOrCancel''"
| "to_string_tif FOK = ''FillOrKill''"
| "to_string_tif GTD = ''GoodTillDate''"
| "to_string_tif _ = ''''"

fun to_string_match_type :: "MatchType \<Rightarrow> string" where
  "to_string_match_type Standard = ''Standard''"
| "to_string_match_type Midpoint = ''Midpoint''"
| "to_string_match_type HiddenLiquidity = ''HiddenLiquidity''"
| "to_string_match_type Auction = ''Auction''"

text \<open>Each flag appends its name and a separator; \<^verbatim>\<open>pop_back\<close> drops the last
  separator of a non-empty result.\<close>

definition to_string_flags :: "Flags \<Rightarrow> string" where
  "to_string_flags flag =
     (if flag = Flags_None then ''None''
      else
        let str = '''';
            str = (if flags_and flag Hidden = Hidden then str @ ''Hidden|'' else str);
            str = (if flags_and flag Iceberg = Iceberg then str @ ''Iceberg|'' else str);
            str = (if flags_and flag PostOnly = PostOnly then str @ ''PostOnly|'' else str)
        in if str \<noteq> [] then butlast str else str)"

subsection \<open>Bit tests\<close>

text \<open>A mask of one low bit survives the truncation to eight bits, so the code's
  mask tests and \<^verbatim>\<open>HasFlag\<close> agree on the three declared flags.\<close>

lemma flags_and_bit:
  assumes "n < 8"
  shows "flags_and f (push_bit n 1) = (if bit f n then push_bit n 1 else 0)"
  unfolding flags_and_def
  by (rule bit_word_eqI)
    (use assms in \<open>auto simp: bit_simps\<close>)

lemma flags_and_Hidden: "flags_and f Hidden = (if bit f 0 then Hidden else 0)"
  using flags_and_bit [of 0 f] by (simp add: Hidden_def)

lemma flags_and_Iceberg: "flags_and f Iceberg = (if bit f 1 then Iceberg else 0)"
  using flags_and_bit [of 1 f] by (simp add: Iceberg_def)

lemma flags_and_PostOnly: "flags_and f PostOnly = (if bit f 2 then PostOnly else 0)"
  using flags_and_bit [of 2 f] by (simp add: PostOnly_def push_bit_eq_mult)

lemma HasFlag_bit: "HasFlag f (2 ^ n) = bit f n"
  by (simp add: HasFlag_def and_exp_eq_0_iff_not_bit)

lemma HasFlag_Hidden: "HasFlag f Hidden = bit f 0"
  using HasFlag_bit [of f 0] by (simp add: Hidden_def)

lemma HasFlag_PostOnly: "HasFlag f PostOnly = bit f 2"
  using HasFlag_bit [of f 2] by (simp add: PostOnly_def)

text \<open>The test the order book makes on every volume update:
  \<^verbatim>\<open>(flags & Flags::Hidden) == Flags::None\<close>.\<close>

lemma not_hidden_iff: "flags_and f Hidden = Flags_None \<longleftrightarrow> \<not> HasFlag f Hidden"
  unfolding flags_and_Hidden HasFlag_Hidden by (simp add: flag_defs)

lemma post_only_iff: "flags_and f PostOnly = PostOnly \<longleftrightarrow> HasFlag f PostOnly"
  unfolding flags_and_PostOnly HasFlag_PostOnly by (simp add: flag_defs)

end
