(* ===== verification/Std_Map.thy ===== *)
theory Std_Map
  imports Globals
begin

text \<open>
  The part of \<^verbatim>\<open>std::map<Price, T, Compare>\<close> the order book uses, as an association
  list in iteration order: \<^verbatim>\<open>begin()\<close> is the head, \<^verbatim>\<open>find\<close> is \<open>map_of\<close>,
  \<^verbatim>\<open>try_emplace\<close> inserts a missing key in front of the first key it must precede, and
  \<^verbatim>\<open>erase\<close> removes an entry. A map node is identified by its key, so
  an iterator is a key.

  The locale \<open>ordered_map\<close> states what \<^verbatim>\<open>Compare\<close> must satisfy (the named
  requirement of the C++ standard, for keys whose equivalence is equality) and proves what
  the container then promises. Both comparators of the order book interpret it.
\<close>

subsection \<open>Insertion\<close>

fun try_emplace :: "('k \<Rightarrow> 'k \<Rightarrow> bool) \<Rightarrow> 'k \<Rightarrow> 'v \<Rightarrow> ('k \<times> 'v) list \<Rightarrow> ('k \<times> 'v) list" where
  "try_emplace lt k v [] = [(k, v)]"
| "try_emplace lt k v ((k', v') # xs) =
     (if k' = k then (k', v') # xs
      else if lt k k' then (k, v) # (k', v') # xs
      else (k', v') # try_emplace lt k v xs)"

lemma set_try_emplace_subset: "set (try_emplace lt k v xs) \<subseteq> insert (k, v) (set xs)"
  by (induction lt k v xs rule: try_emplace.induct) auto

lemma set_fst_try_emplace: "fst ` set (try_emplace lt k v xs) = insert k (fst ` set xs)"
  by (induction lt k v xs rule: try_emplace.induct) auto

locale ordered_map =
  fixes lt :: "'k \<Rightarrow> 'k \<Rightarrow> bool"
  assumes irrefl: "\<not> lt a a"
    and trans: "lt a b \<Longrightarrow> lt b c \<Longrightarrow> lt a c"
    and total: "lt a b \<or> a = b \<or> lt b a"
begin

lemma asym: "lt a b \<Longrightarrow> \<not> lt b a"
  using irrefl trans by blast

lemma sorted_distinct: "sorted_wrt lt (map fst xs) \<Longrightarrow> distinct (map fst xs)"
  using irrefl by (induction xs) force+

lemma sorted_try_emplace:
  assumes "sorted_wrt lt (map fst xs)"
  shows "sorted_wrt lt (map fst (try_emplace lt k v xs))"
  using assms
proof (induction xs)
  case (Cons a xs)
  obtain k' v' where a: "a = (k', v')" by force
  show ?case
  proof (cases "k' = k \<or> lt k k'")
    case True
    with Cons.prems show ?thesis by (auto simp: a intro: trans)
  next
    case False
    with total have "lt k' k" by blast
    with Cons False show ?thesis
      using set_fst_try_emplace [of lt k v xs] by (auto simp: a)
  qed
qed simp

lemma try_emplace_present:
  assumes "sorted_wrt lt (map fst xs)" and "map_of xs k = Some w"
  shows "try_emplace lt k v xs = xs"
  using assms
proof (induction xs)
  case (Cons a xs)
  obtain k' v' where a: "a = (k', v')" by force
  show ?case
  proof (cases "k' = k")
    case False
    with Cons.prems have "(k, w) \<in> set xs" by (auto simp: a dest: map_of_SomeD)
    with Cons.prems have "lt k' k" by (force simp: a)
    with False Cons show ?thesis by (auto simp: a dest: asym)
  qed (simp add: a)
qed simp

lemma try_emplace_absent:
  assumes "sorted_wrt lt (map fst xs)" and "map_of xs k = None"
  shows "\<exists>ys zs. xs = ys @ zs \<and> try_emplace lt k v xs = ys @ (k, v) # zs
      \<and> (\<forall>k'\<in>fst ` set ys. lt k' k) \<and> (\<forall>k'\<in>fst ` set zs. lt k k')"
  using assms
proof (induction xs)
  case (Cons a xs)
  obtain k' v' where a: "a = (k', v')" by force
  show ?case
  proof (cases "lt k k'")
    case True
    with Cons.prems have "\<forall>q\<in>fst ` set (a # xs). lt k q" by (auto simp: a intro: trans)
    moreover from True Cons.prems have "try_emplace lt k v (a # xs) = (k, v) # a # xs"
      by (auto simp: a split: if_splits)
    ultimately show ?thesis by (metis append_Nil empty_iff image_empty list.set(1))
  next
    case False
    with Cons.prems total have *: "lt k' k" "k' \<noteq> k" by (auto simp: a split: if_splits)
    with Cons.prems have "sorted_wrt lt (map fst xs)" "map_of xs k = None"
      by (auto simp: a split: if_splits)
    with Cons.IH obtain ys zs where "xs = ys @ zs" "try_emplace lt k v xs = ys @ (k, v) # zs"
      "\<forall>q\<in>fst ` set ys. lt q k" "\<forall>q\<in>fst ` set zs. lt k q"
      by blast
    with * False show ?thesis
      by (intro exI [of _ "a # ys"] exI [of _ zs]) (simp add: a)
  qed
qed simp

lemma map_of_try_emplace_absent:
  "map_of xs k = None \<Longrightarrow> map_of (try_emplace lt k v xs) = (map_of xs)(k \<mapsto> v)"
  by (induction xs) (auto simp: fun_eq_iff split: if_splits)

lemma map_of_try_emplace:
  assumes "sorted_wrt lt (map fst xs)"
  shows "map_of (try_emplace lt k v xs) = (if map_of xs k = None then (map_of xs)(k \<mapsto> v) else map_of xs)"
  using map_of_try_emplace_absent try_emplace_present [OF assms] by (cases "map_of xs k") auto

lemma begin_least:
  "sorted_wrt lt (map fst ((k, v) # xs)) \<Longrightarrow> (k', v') \<in> set xs \<Longrightarrow> lt k k'"
  by force

end

subsection \<open>The two comparators of the book\<close>

text \<open>\<^verbatim>\<open>m_Bids\<close> is ordered by \<^verbatim>\<open>std::greater<Price>\<close>, \<^verbatim>\<open>m_Asks\<close> by
  \<^verbatim>\<open>std::less<Price>\<close>; prices are signed. \<open>side_lt s p q\<close>: on side \<open>s\<close> the price \<open>p\<close> is
  matched before \<open>q\<close>.\<close>

fun side_lt :: "Side \<Rightarrow> Price \<Rightarrow> Price \<Rightarrow> bool" where
  "side_lt Buy p q \<longleftrightarrow> q <s p"
| "side_lt Sell p q \<longleftrightarrow> p <s q"

interpretation side_map: ordered_map "side_lt s" for s
proof unfold_locales
  show "\<not> side_lt s a a" for a
    by (cases s) simp_all
  show "side_lt s a b \<Longrightarrow> side_lt s b c \<Longrightarrow> side_lt s a c" for a b c
    by (cases s) (simp_all add: signed.less_trans)
  show "side_lt s a b \<or> a = b \<or> side_lt s b a" for a b
    using signed.less_linear [of a b] by (cases s) auto
qed

lemma side_lt_opposite: "side_lt (opposite s) p q = side_lt s q p"
  by (cases s) simp_all

end
