(* ===== verification/Orders.thy ===== *)
theory Orders
  imports Globals
begin

text \<open>
  \<^verbatim>\<open>src/src/Core/Order.hpp\<close> and \<^verbatim>\<open>src/src/Core/Trade.hpp\<close>: a resting or
  incoming order and the operations on it, and the record of one execution.

  Record fields carry the C++ member names, and a field selector plays the part of the
  getter of the same name. A member that no constructor initialises holds an indeterminate
  value; it is an \<open>option\<close> field that stays \<open>None\<close> (\<open>m_ExecInst\<close> of an order, the time
  stamp of a trade). The padding bytes are left to the byte encodings. The clock reading of
  \<^verbatim>\<open>core::GetCurrentTime()\<close> is the argument \<open>now\<close>.
\<close>

subsection \<open>Orders\<close>

record Order =
  m_OrderID :: OrderID
  m_ClientID :: ClientID
  m_Price :: Price
  m_IntialQuantity :: Quantity
  m_RemainingQuantity :: Quantity
  m_Timestamp :: TimeNs
  m_Flags :: Flags
  m_ExecInst :: "ExecutionInstructions option"
  m_Side :: Side
  m_OrderType :: OrderType
  m_TimeInForce :: TimeInForce
  m_MatchType :: MatchType

definition mk_Order ::
  "TimeNs \<Rightarrow> OrderID \<Rightarrow> ClientID \<Rightarrow> Price \<Rightarrow> Quantity \<Rightarrow> Side \<Rightarrow> OrderType \<Rightarrow> TimeInForce
    \<Rightarrow> MatchType \<Rightarrow> Flags \<Rightarrow> Order" where
  "mk_Order now orderID clientID price quantity side order_type tif match_type flag =
     \<lparr>m_OrderID = orderID, m_ClientID = clientID, m_Price = price,
      m_IntialQuantity = quantity, m_RemainingQuantity = quantity, m_Timestamp = now,
      m_Flags = flag, m_ExecInst = None, m_Side = side, m_OrderType = order_type,
      m_TimeInForce = tif, m_MatchType = match_type\<rparr>"

definition GetFilledQuantity :: "Order \<Rightarrow> Quantity" where
  "GetFilledQuantity od = m_IntialQuantity od - m_RemainingQuantity od"

definition isFilled :: "Order \<Rightarrow> bool" where
  "isFilled od \<longleftrightarrow> m_RemainingQuantity od = 0"

definition ModifyOrder :: "TimeNs \<Rightarrow> Price \<Rightarrow> Quantity \<Rightarrow> Order \<Rightarrow> Order" where
  "ModifyOrder now new_price new_quantity od =
     (let filled = GetFilledQuantity od in
      if new_quantity < filled then od
      else
        let o1 = (if new_price \<noteq> m_Price od \<or> m_IntialQuantity od < new_quantity
                  then od\<lparr>m_Timestamp := now\<rparr> else od)
        in o1\<lparr>m_Price := new_price, m_RemainingQuantity := new_quantity - filled,
              m_IntialQuantity := new_quantity\<rparr>)"

definition Fill :: "Quantity \<Rightarrow> Order \<Rightarrow> Order" where
  "Fill quantity od =
     (if m_RemainingQuantity od < quantity then od
      else od\<lparr>m_RemainingQuantity := m_RemainingQuantity od - quantity\<rparr>)"

text \<open>Overwrites the remaining quantity and returns the (wrapping) difference.\<close>

definition UpdateQuantity :: "Quantity \<Rightarrow> Order \<Rightarrow> Quantity \<times> Order" where
  "UpdateQuantity new_quantity od =
     (new_quantity - m_RemainingQuantity od, od\<lparr>m_RemainingQuantity := new_quantity\<rparr>)"

subsection \<open>Trades\<close>

record Trade =
  t_TradeID :: TradeID
  t_MakerOrderID :: OrderID
  t_TakerOrderID :: OrderID
  t_Price :: Price
  t_Quantity :: Quantity
  t_Timestamp :: "TimeNs option"
  t_TakerSide :: Side
  t_MatchType :: MatchType

definition mk_Trade ::
  "TradeID \<Rightarrow> OrderID \<Rightarrow> OrderID \<Rightarrow> Price \<Rightarrow> Quantity \<Rightarrow> Side \<Rightarrow> MatchType \<Rightarrow> Trade" where
  "mk_Trade tradeID makerOrderID takerOrderID price quantity takerSide matchType =
     \<lparr>t_TradeID = tradeID, t_MakerOrderID = makerOrderID, t_TakerOrderID = takerOrderID,
      t_Price = price, t_Quantity = quantity, t_Timestamp = None, t_TakerSide = takerSide,
      t_MatchType = matchType\<rparr>"

subsection \<open>An order never reports more filled than asked\<close>

text \<open>The well-formedness of a single order: what remains does not exceed what was
  asked, so the wrapping subtraction of \<^verbatim>\<open>GetFilledQuantity\<close> is the true one.\<close>

definition order_ok :: "Order \<Rightarrow> bool" where
  "order_ok od \<longleftrightarrow> m_RemainingQuantity od \<le> m_IntialQuantity od"

lemma order_ok_mk_Order [simp]: "order_ok (mk_Order now i c p q s ot tif mt f)"
  by (simp add: order_ok_def mk_Order_def)

lemma mk_Order_sel [simp]:
  "m_OrderID (mk_Order now i c p q s ot tif mt f) = i"
  "m_ClientID (mk_Order now i c p q s ot tif mt f) = c"
  "m_Price (mk_Order now i c p q s ot tif mt f) = p"
  "m_IntialQuantity (mk_Order now i c p q s ot tif mt f) = q"
  "m_RemainingQuantity (mk_Order now i c p q s ot tif mt f) = q"
  "m_Timestamp (mk_Order now i c p q s ot tif mt f) = now"
  "m_Flags (mk_Order now i c p q s ot tif mt f) = f"
  "m_Side (mk_Order now i c p q s ot tif mt f) = s"
  "m_OrderType (mk_Order now i c p q s ot tif mt f) = ot"
  "m_TimeInForce (mk_Order now i c p q s ot tif mt f) = tif"
  "m_MatchType (mk_Order now i c p q s ot tif mt f) = mt"
  by (simp_all add: mk_Order_def)

lemma Fill_sel [simp]:
  "m_OrderID (Fill q od) = m_OrderID od"
  "m_ClientID (Fill q od) = m_ClientID od"
  "m_Price (Fill q od) = m_Price od"
  "m_IntialQuantity (Fill q od) = m_IntialQuantity od"
  "m_Timestamp (Fill q od) = m_Timestamp od"
  "m_Flags (Fill q od) = m_Flags od"
  "m_ExecInst (Fill q od) = m_ExecInst od"
  "m_Side (Fill q od) = m_Side od"
  "m_OrderType (Fill q od) = m_OrderType od"
  "m_TimeInForce (Fill q od) = m_TimeInForce od"
  "m_MatchType (Fill q od) = m_MatchType od"
  by (simp_all add: Fill_def)

lemma Fill_min:
  "q \<le> m_RemainingQuantity od \<Longrightarrow> Fill q od = od\<lparr>m_RemainingQuantity := m_RemainingQuantity od - q\<rparr>"
  by (auto simp: Fill_def not_less)

lemma unat_GetFilledQuantity:
  "order_ok od \<Longrightarrow> unat (GetFilledQuantity od) = unat (m_IntialQuantity od) - unat (m_RemainingQuantity od)"
  by (simp add: order_ok_def GetFilledQuantity_def unat_minus_le)

lemma order_ok_Fill: "order_ok od \<Longrightarrow> order_ok (Fill q od)"
  by (auto simp: order_ok_def Fill_def word_le_nat_alt unat_minus_le not_less)

lemma order_ok_ModifyOrder: "order_ok od \<Longrightarrow> order_ok (ModifyOrder now p q od)"
  by (auto simp: order_ok_def ModifyOrder_def Let_def word_le_nat_alt unat_minus_le not_less)

lemma GetFilledQuantity_ModifyOrder:
  "order_ok od \<Longrightarrow> GetFilledQuantity (ModifyOrder now p q od) = GetFilledQuantity od"
  by (simp add: GetFilledQuantity_def ModifyOrder_def Let_def)

lemma GetFilledQuantity_Fill:
  "GetFilledQuantity (Fill q od) =
     (if q \<le> m_RemainingQuantity od then GetFilledQuantity od + q else GetFilledQuantity od)"
  by (auto simp: GetFilledQuantity_def Fill_def dest: leD)

end
