(* ===== verification/Payloads.thy ===== *)
theory Payloads
  imports Orders
begin

text \<open>
  \<^verbatim>\<open>src/src/Core/Commands.hpp\<close> and \<^verbatim>\<open>src/src/Core/Events.hpp\<close>: the tagged
  unions that go into and come out of the order book. A payload is a record of its tag and
  of the active union member, as in the code; only the factories build payloads, and the
  class comment's invariant, that the tag always names the active member, is proved for each
  of them. The \<open>assert\<close> of an accessor such as \<^verbatim>\<open>AsAdd\<close> is a branch that yields
  \<open>None\<close>: reading an inactive member of the union is undefined.
\<close>

subsection \<open>Commands\<close>

datatype CommandType = Cmd_None | Cmd_Add | Cmd_Modify | Cmd_Cancel

record AddCmd =
  add_clientID :: ClientID
  add_price :: Price
  add_quantity :: Quantity
  add_flags :: Flags
  add_side :: Side
  add_order_type :: OrderType
  add_tif :: TimeInForce
  add_match_type :: MatchType

record ModifyCmd =
  mod_clientID :: ClientID
  mod_orderID :: OrderID
  mod_new_price :: Price
  mod_new_quantity :: Quantity

record CancelCmd =
  can_clientID :: ClientID
  can_orderID :: OrderID

datatype CommandUnion = U_Add AddCmd | U_Modify ModifyCmd | U_Cancel CancelCmd

record CommandPayload =
  m_CommandType :: CommandType
  m_CommandData :: CommandUnion

text \<open>The default constructor zero-initialises the union through its first member.\<close>

definition zero_AddCmd :: AddCmd where
  "zero_AddCmd = \<lparr>add_clientID = 0, add_price = 0, add_quantity = 0, add_flags = 0,
     add_side = Buy, add_order_type = Limit, add_tif = GTC, add_match_type = Standard\<rparr>"

definition CommandPayload_default :: CommandPayload where
  "CommandPayload_default = \<lparr>m_CommandType = Cmd_None, m_CommandData = U_Add zero_AddCmd\<rparr>"

definition MakeAdd ::
  "ClientID \<Rightarrow> Price \<Rightarrow> Quantity \<Rightarrow> Side \<Rightarrow> OrderType \<Rightarrow> TimeInForce \<Rightarrow> MatchType \<Rightarrow> Flags
    \<Rightarrow> CommandPayload" where
  "MakeAdd clientID price quantity side order_type tif match_type flags =
     CommandPayload_default\<lparr>m_CommandType := Cmd_Add,
       m_CommandData := U_Add \<lparr>add_clientID = clientID, add_price = price,
         add_quantity = quantity, add_flags = flags, add_side = side,
         add_order_type = order_type, add_tif = tif, add_match_type = match_type\<rparr>\<rparr>"

definition MakeModify :: "ClientID \<Rightarrow> OrderID \<Rightarrow> Price \<Rightarrow> Quantity \<Rightarrow> CommandPayload" where
  "MakeModify clientID orderID new_price new_quantity =
     CommandPayload_default\<lparr>m_CommandType := Cmd_Modify,
       m_CommandData := U_Modify \<lparr>mod_clientID = clientID, mod_orderID = orderID,
         mod_new_price = new_price, mod_new_quantity = new_quantity\<rparr>\<rparr>"

definition MakeCancel :: "ClientID \<Rightarrow> OrderID \<Rightarrow> CommandPayload" where
  "MakeCancel clientID orderID =
     CommandPayload_default\<lparr>m_CommandType := Cmd_Cancel,
       m_CommandData := U_Cancel \<lparr>can_clientID = clientID, can_orderID = orderID\<rparr>\<rparr>"

definition AsAdd :: "CommandPayload \<Rightarrow> AddCmd option" where
  "AsAdd cmd = (if m_CommandType cmd = Cmd_Add
     then (case m_CommandData cmd of U_Add c \<Rightarrow> Some c | _ \<Rightarrow> None) else None)"

definition AsModify :: "CommandPayload \<Rightarrow> ModifyCmd option" where
  "AsModify cmd = (if m_CommandType cmd = Cmd_Modify
     then (case m_CommandData cmd of U_Modify c \<Rightarrow> Some c | _ \<Rightarrow> None) else None)"

definition AsCancel :: "CommandPayload \<Rightarrow> CancelCmd option" where
  "AsCancel cmd = (if m_CommandType cmd = Cmd_Cancel
     then (case m_CommandData cmd of U_Cancel c \<Rightarrow> Some c | _ \<Rightarrow> None) else None)"

fun command_tag_ok :: "CommandType \<Rightarrow> CommandUnion \<Rightarrow> bool" where
  "command_tag_ok Cmd_None (U_Add c) \<longleftrightarrow> c = zero_AddCmd"
| "command_tag_ok Cmd_Add (U_Add _) \<longleftrightarrow> True"
| "command_tag_ok Cmd_Modify (U_Modify _) \<longleftrightarrow> True"
| "command_tag_ok Cmd_Cancel (U_Cancel _) \<longleftrightarrow> True"
| "command_tag_ok _ _ \<longleftrightarrow> False"

definition command_ok :: "CommandPayload \<Rightarrow> bool" where
  "command_ok cmd \<longleftrightarrow> command_tag_ok (m_CommandType cmd) (m_CommandData cmd)"

lemmas command_defs = CommandPayload_default_def MakeAdd_def MakeModify_def MakeCancel_def

lemma command_ok_make [simp]:
  "command_ok CommandPayload_default"
  "command_ok (MakeAdd cid p q s ot tif mt f)"
  "command_ok (MakeModify cid oid p q)"
  "command_ok (MakeCancel cid oid)"
  by (simp_all add: command_ok_def command_defs)

lemma command_ok_cases:
  assumes "command_ok cmd"
  obtains (none) "cmd = CommandPayload_default"
    | (add) cid p q s ot tif mt f where "cmd = MakeAdd cid p q s ot tif mt f"
    | (modify) cid oid p q where "cmd = MakeModify cid oid p q"
    | (cancel) cid oid where "cmd = MakeCancel cid oid"
proof -
  obtain t u where cmd: "cmd = \<lparr>m_CommandType = t, m_CommandData = u\<rparr>"
    by (cases cmd) auto
  show thesis
  proof (cases u)
    case (U_Add c)
    with assms cmd none add show thesis
      by (cases c; cases t) (auto simp: command_ok_def command_defs)
  next
    case (U_Modify c)
    with assms cmd modify show thesis
      by (cases c; cases t) (auto simp: command_ok_def command_defs)
  next
    case (U_Cancel c)
    with assms cmd cancel show thesis
      by (cases c; cases t) (auto simp: command_ok_def command_defs)
  qed
qed

subsection \<open>Events\<close>

datatype EventType =
    Ev_None | Ev_OrderAccepted | Ev_OrderRejected | Ev_ModifyAccepted | Ev_ModifyRejected
  | Ev_CancelAccepted | Ev_CancelRejected | Ev_Trade

datatype ErrorCode =
    Err_None | Success | InvalidRequest | InvalidModify | InvalidCancel
  | InsufficientLiquidity | PostOnlyViolation | InvalidOrderCombination | NotImplemented
  | UnsupportedTimeInForce | Unauthorized

datatype EventUnion =
    U_OrderAccepted ClientID OrderID
  | U_OrderRejected ClientID ErrorCode
  | U_ModifyAccepted ClientID OrderID OrderID
  | U_ModifyRejected ClientID OrderID ErrorCode
  | U_CancelAccepted ClientID OrderID
  | U_CancelRejected ClientID OrderID ErrorCode
  | U_Trade Trade

record EventPayload =
  m_EventType :: EventType
  m_EventData :: EventUnion

definition EventPayload_default :: EventPayload where
  "EventPayload_default = \<lparr>m_EventType = Ev_None, m_EventData = U_OrderAccepted 0 0\<rparr>"

definition MakeOrderAccepted :: "ClientID \<Rightarrow> OrderID \<Rightarrow> EventPayload" where
  "MakeOrderAccepted clientID orderID = EventPayload_default
     \<lparr>m_EventType := Ev_OrderAccepted, m_EventData := U_OrderAccepted clientID orderID\<rparr>"

definition MakeOrderRejected :: "ClientID \<Rightarrow> ErrorCode \<Rightarrow> EventPayload" where
  "MakeOrderRejected clientID error_code = EventPayload_default
     \<lparr>m_EventType := Ev_OrderRejected, m_EventData := U_OrderRejected clientID error_code\<rparr>"

definition MakeModifyAccepted :: "ClientID \<Rightarrow> OrderID \<Rightarrow> OrderID \<Rightarrow> EventPayload" where
  "MakeModifyAccepted cid old_oid new_oid = EventPayload_default
     \<lparr>m_EventType := Ev_ModifyAccepted, m_EventData := U_ModifyAccepted cid old_oid new_oid\<rparr>"

definition MakeModifyRejected :: "ClientID \<Rightarrow> OrderID \<Rightarrow> ErrorCode \<Rightarrow> EventPayload" where
  "MakeModifyRejected cid oid ec = EventPayload_default
     \<lparr>m_EventType := Ev_ModifyRejected, m_EventData := U_ModifyRejected cid oid ec\<rparr>"

definition MakeCancelAccepted :: "ClientID \<Rightarrow> OrderID \<Rightarrow> EventPayload" where
  "MakeCancelAccepted cid oid = EventPayload_default
     \<lparr>m_EventType := Ev_CancelAccepted, m_EventData := U_CancelAccepted cid oid\<rparr>"

definition MakeCancelRejected :: "ClientID \<Rightarrow> OrderID \<Rightarrow> ErrorCode \<Rightarrow> EventPayload" where
  "MakeCancelRejected cid oid ec = EventPayload_default
     \<lparr>m_EventType := Ev_CancelRejected, m_EventData := U_CancelRejected cid oid ec\<rparr>"

definition MakeTrade :: "Trade \<Rightarrow> EventPayload" where
  "MakeTrade t = EventPayload_default\<lparr>m_EventType := Ev_Trade, m_EventData := U_Trade t\<rparr>"

definition IsNone :: "EventPayload \<Rightarrow> bool" where
  "IsNone ev \<longleftrightarrow> m_EventType ev = Ev_None"

fun event_tag :: "EventUnion \<Rightarrow> EventType" where
  "event_tag (U_OrderAccepted _ _) = Ev_OrderAccepted"
| "event_tag (U_OrderRejected _ _) = Ev_OrderRejected"
| "event_tag (U_ModifyAccepted _ _ _) = Ev_ModifyAccepted"
| "event_tag (U_ModifyRejected _ _ _) = Ev_ModifyRejected"
| "event_tag (U_CancelAccepted _ _) = Ev_CancelAccepted"
| "event_tag (U_CancelRejected _ _ _) = Ev_CancelRejected"
| "event_tag (U_Trade _) = Ev_Trade"

text \<open>The invariant stated in the comment of the class: the tag names the active member,
  the one exception being the default payload.\<close>

definition event_ok :: "EventPayload \<Rightarrow> bool" where
  "event_ok ev \<longleftrightarrow> m_EventType ev = event_tag (m_EventData ev) \<or> ev = EventPayload_default"

lemmas event_defs = EventPayload_default_def MakeOrderAccepted_def MakeOrderRejected_def
  MakeModifyAccepted_def MakeModifyRejected_def MakeCancelAccepted_def MakeCancelRejected_def
  MakeTrade_def

lemma event_ok_make [simp]:
  "event_ok EventPayload_default"
  "event_ok (MakeOrderAccepted cid oid)"
  "event_ok (MakeOrderRejected cid ec)"
  "event_ok (MakeModifyAccepted cid oid oid')"
  "event_ok (MakeModifyRejected cid oid ec)"
  "event_ok (MakeCancelAccepted cid oid)"
  "event_ok (MakeCancelRejected cid oid ec)"
  "event_ok (MakeTrade t)"
  by (simp_all add: event_ok_def event_defs)

lemma IsNone_make [simp]:
  "IsNone EventPayload_default"
  "\<not> IsNone (MakeOrderAccepted cid oid)"
  "\<not> IsNone (MakeOrderRejected cid ec)"
  "\<not> IsNone (MakeModifyAccepted cid oid oid')"
  "\<not> IsNone (MakeModifyRejected cid oid ec)"
  "\<not> IsNone (MakeCancelAccepted cid oid)"
  "\<not> IsNone (MakeCancelRejected cid oid ec)"
  "\<not> IsNone (MakeTrade t)"
  by (simp_all add: IsNone_def event_defs)

lemma m_EventType_make [simp]:
  "m_EventType EventPayload_default = Ev_None"
  "m_EventType (MakeOrderAccepted cid oid) = Ev_OrderAccepted"
  "m_EventType (MakeOrderRejected cid ec) = Ev_OrderRejected"
  "m_EventType (MakeModifyAccepted cid oid oid') = Ev_ModifyAccepted"
  "m_EventType (MakeModifyRejected cid oid ec) = Ev_ModifyRejected"
  "m_EventType (MakeCancelAccepted cid oid) = Ev_CancelAccepted"
  "m_EventType (MakeCancelRejected cid oid ec) = Ev_CancelRejected"
  "m_EventType (MakeTrade t) = Ev_Trade"
  by (simp_all add: event_defs)

lemma m_CommandType_make [simp]:
  "m_CommandType CommandPayload_default = Cmd_None"
  "m_CommandType (MakeAdd cid p q s ot tif mt f) = Cmd_Add"
  "m_CommandType (MakeModify cid oid p q) = Cmd_Modify"
  "m_CommandType (MakeCancel cid oid) = Cmd_Cancel"
  by (simp_all add: command_defs)

subsection \<open>Requests and responses\<close>

text \<open>\<^verbatim>\<open>src/src/Networking/Networking.hpp\<close>: the two structs meant for a network front end. No code
  uses them yet.\<close>

type_synonym RequestID = u64

record Request =
  rq_requestID :: RequestID
  rq_payload :: CommandPayload

record Response =
  rs_requestID :: RequestID
  rs_ok :: bool
  rs_orderID :: OrderID
  rs_error :: ErrorCode

end
