(* ===== verification/Order_Book.thy ===== *)
theory Order_Book
  imports Std_Map Payloads
begin

text \<open>
  \<^verbatim>\<open>src/src/Engine/OrderBook.hpp\<close> and the part of
  \<^verbatim>\<open>src/src/Engine/OrderBook.inl\<close> that does not match orders: the state of the book,
  the pointers and iterators into it, the queries, \<^verbatim>\<open>RecordFill\<close> and
  \<^verbatim>\<open>InternalCancelOrder\<close>.

  Orders live in the nodes of the \<^verbatim>\<open>std::list\<close> of a price level, and both
  \<^verbatim>\<open>m_Orders\<close> and the matching loop hold on to them by address, so the model keeps
  addresses: a list is a list of (node, order) pairs, a node is a number no other node ever
  had (\<open>m_NextNode\<close> stands for the allocator), and a pointer or iterator to an order is an
  \<open>OrderEntry\<close>, the node together with the level it is in. A read or write through an
  \<open>OrderEntry\<close> whose node is gone is undefined (\<open>None\<close>).
\<close>

subsection \<open>State\<close>

type_synonym ListNode = nat
type_synonym LevelIt = "Side \<times> Price"

record LevelData =
  volume :: Quantity
  orders :: "(ListNode \<times> Order) list"

record OrderEntry =
  list_it :: ListNode
  level_it :: LevelIt

datatype MarketState = State_Closed | State_PreOpen | State_Auction | State_Continuous

definition MaxEventsPerCommand :: nat where
  "MaxEventsPerCommand = 128"

text \<open>\<open>t_EventScratch\<close> is the thread-local array of \<open>MaxEventsPerCommand\<close> events, as
  a function of the index that is read and written below \<open>MaxEventsPerCommand\<close> only;
  \<open>m_ScratchCounter\<close> is a 32-bit counter that never leaves \<open>0..128\<close> (part of the invariant
  proved later), kept as a number because it indexes the array.\<close>

record OrderBook =
  m_Bids :: "(Price \<times> LevelData) list"
  m_Asks :: "(Price \<times> LevelData) list"
  m_Orders :: "OrderID \<Rightarrow> OrderEntry option"
  m_ExpiryWatchlist :: "(TimeNs \<times> OrderID) list"
  m_MarketState :: MarketState
  m_ScratchCounter :: nat
  m_OrderCounter :: OrderID
  m_TradeCounter :: TradeID
  t_EventScratch :: "nat \<Rightarrow> EventPayload"
  m_NextNode :: ListNode

definition OrderBook_init :: OrderBook where
  "OrderBook_init = \<lparr>m_Bids = [], m_Asks = [], m_Orders = (\<lambda>_. None), m_ExpiryWatchlist = [],
     m_MarketState = State_Closed, m_ScratchCounter = 0, m_OrderCounter = 1,
     m_TradeCounter = 1,
     t_EventScratch = (\<lambda>_. EventPayload_default),
     m_NextNode = 0\<rparr>"

definition GetMarketState :: "OrderBook \<Rightarrow> MarketState" where
  "GetMarketState b = m_MarketState b"

subsection \<open>The two sides and pointers into them\<close>

fun levels :: "Side \<Rightarrow> OrderBook \<Rightarrow> (Price \<times> LevelData) list" where
  "levels Buy b = m_Bids b"
| "levels Sell b = m_Asks b"

fun set_levels :: "Side \<Rightarrow> (Price \<times> LevelData) list \<Rightarrow> OrderBook \<Rightarrow> OrderBook" where
  "set_levels Buy ls b = b\<lparr>m_Bids := ls\<rparr>"
| "set_levels Sell ls b = b\<lparr>m_Asks := ls\<rparr>"

definition get_level :: "LevelIt \<Rightarrow> OrderBook \<Rightarrow> LevelData option" where
  "get_level it b = map_of (levels (fst it) b) (snd it)"

definition put_level :: "LevelIt \<Rightarrow> LevelData \<Rightarrow> OrderBook \<Rightarrow> OrderBook" where
  "put_level it lvl b =
     set_levels (fst it) (assoc_set (snd it) lvl (levels (fst it) b)) b"

definition erase_level :: "LevelIt \<Rightarrow> OrderBook \<Rightarrow> OrderBook" where
  "erase_level it b = set_levels (fst it) (assoc_erase (snd it) (levels (fst it) b)) b"

definition deref :: "OrderEntry \<Rightarrow> OrderBook \<Rightarrow> Order option" where
  "deref e b = do {
     lvl \<leftarrow> get_level (level_it e) b;
     map_of (orders lvl) (list_it e) }"

definition store :: "OrderEntry \<Rightarrow> Order \<Rightarrow> OrderBook \<Rightarrow> OrderBook option" where
  "store e od b = do {
     _ \<leftarrow> deref e b;
     lvl \<leftarrow> get_level (level_it e) b;
     Some (put_level (level_it e) (lvl\<lparr>orders := assoc_set (list_it e) od (orders lvl)\<rparr>) b) }"

subsection \<open>Queries\<close>

text \<open>\<^verbatim>\<open>FindOrder\<close> returns a pointer or \<^verbatim>\<open>nullptr\<close>; the outer option is
  definedness, as everywhere.\<close>

definition FindOrder :: "OrderID \<Rightarrow> OrderBook \<Rightarrow> Order option option" where
  "FindOrder orderID b =
     (case m_Orders b orderID of
        None \<Rightarrow> Some None
      | Some e \<Rightarrow> map_option Some (deref e b))"

text \<open>\<^verbatim>\<open>&(m_Bids.begin()->second.orders.front())\<close>: \<^verbatim>\<open>front()\<close> of an empty
  list is undefined.\<close>

definition front_of :: "Side \<Rightarrow> OrderBook \<Rightarrow> OrderEntry option option" where
  "front_of s b =
     (case levels s b of
        [] \<Rightarrow> Some None
      | (p, lvl) # _ \<Rightarrow>
          (case orders lvl of
             [] \<Rightarrow> None
           | (n, _) # _ \<Rightarrow> Some (Some \<lparr>list_it = n, level_it = (s, p)\<rparr>)))"

definition GetBestBid :: "OrderBook \<Rightarrow> OrderEntry option option" where
  "GetBestBid b = front_of Buy b"

definition GetBestAsk :: "OrderBook \<Rightarrow> OrderEntry option option" where
  "GetBestAsk b = front_of Sell b"

definition GetBidVolumeAtPrice :: "Price \<Rightarrow> OrderBook \<Rightarrow> Quantity" where
  "GetBidVolumeAtPrice price b =
     (case map_of (m_Bids b) price of Some lvl \<Rightarrow> volume lvl | None \<Rightarrow> 0)"

definition GetAskVolumeAtPrice :: "Price \<Rightarrow> OrderBook \<Rightarrow> Quantity" where
  "GetAskVolumeAtPrice price b =
     (case map_of (m_Asks b) price of Some lvl \<Rightarrow> volume lvl | None \<Rightarrow> 0)"

subsection \<open>Snapshots\<close>

text \<open>\<^verbatim>\<open>src/src/Core/OrderBookSnapshot.hpp\<close> and \<^verbatim>\<open>GetSnapshot\<close>. The loop
  counter \<^verbatim>\<open>curr\<close> is 32 bits wide and incremented before it is compared.\<close>

record SnapshotLevel =
  s_price :: Price
  s_quantity :: Quantity

record OrderBookSnapshot =
  s_bids :: "SnapshotLevel list"
  s_asks :: "SnapshotLevel list"
  s_trades :: "Trade list"

fun snapshot_side :: "u32 \<Rightarrow> u32 \<Rightarrow> (Price \<times> LevelData) list \<Rightarrow> SnapshotLevel list" where
  "snapshot_side cur depth [] = []"
| "snapshot_side cur depth ((price, level) # ls) =
     (if depth < cur + 1 then []
      else \<lparr>s_price = price, s_quantity = volume level\<rparr> # snapshot_side (cur + 1) depth ls)"

definition GetSnapshot :: "u32 \<Rightarrow> OrderBook \<Rightarrow> OrderBookSnapshot" where
  "GetSnapshot depth b =
     \<lparr>s_bids = snapshot_side 0 depth (m_Bids b), s_asks = snapshot_side 0 depth (m_Asks b),
      s_trades = []\<rparr>"

subsection \<open>Events\<close>

text \<open>\<^verbatim>\<open>t_EventScratch[m_ScratchCounter++] = ev\<close>: a write past the end of the
  array is undefined.\<close>

definition put_event :: "EventPayload \<Rightarrow> OrderBook \<Rightarrow> OrderBook option" where
  "put_event ev b =
     (if m_ScratchCounter b < MaxEventsPerCommand
      then Some (b\<lparr>t_EventScratch := (t_EventScratch b)(m_ScratchCounter b := ev),
                   m_ScratchCounter := m_ScratchCounter b + 1\<rparr>)
      else None)"

text \<open>The span \<^verbatim>\<open>Apply\<close> returns.\<close>

definition scratch :: "OrderBook \<Rightarrow> EventPayload list" where
  "scratch b = map (t_EventScratch b) [0..<m_ScratchCounter b]"

subsection \<open>RecordFill\<close>

definition RecordFill ::
  "OrderID \<Rightarrow> OrderID \<Rightarrow> Price \<Rightarrow> Quantity \<Rightarrow> Side \<Rightarrow> MatchType \<Rightarrow> OrderBook \<Rightarrow> OrderBook option"
where
  "RecordFill makerOrderID takerOrderID price quantity takerSide match_type b =
     (let b1 =
        (case get_level (takerSide, price) b of
           Some lvl \<Rightarrow>
             let lvl1 = lvl\<lparr>volume := volume lvl - quantity\<rparr> in
             if volume lvl1 = 0 \<and> orders lvl1 = []
             then erase_level (takerSide, price) b
             else put_level (takerSide, price) lvl1 b
         | None \<Rightarrow> b)
      in
        if m_ScratchCounter b1 < MaxEventsPerCommand then do {
          b2 \<leftarrow> put_event (MakeTrade (mk_Trade (m_TradeCounter b1) makerOrderID takerOrderID
                  price quantity takerSide match_type)) b1;
          Some (b2\<lparr>m_TradeCounter := m_TradeCounter b1 + 1\<rparr>) }
        else Some b1)"

subsection \<open>InternalCancelOrder\<close>

text \<open>The level is erased from the map the order's side names; erasing an iterator of
  the other map would be undefined.\<close>

definition InternalCancelOrder ::
  "ClientID \<Rightarrow> OrderID \<Rightarrow> OrderBook \<Rightarrow> (ErrorCode \<times> OrderBook) option" where
  "InternalCancelOrder clientID orderID b =
     (case m_Orders b orderID of
        None \<Rightarrow> Some (InvalidCancel, b)
      | Some entry \<Rightarrow> do {
          od \<leftarrow> deref entry b;
          lvl \<leftarrow> get_level (level_it entry) b;
          if m_ClientID od \<noteq> clientID then Some (Unauthorized, b)
          else do {
            let lvl1 = (if flags_and (m_Flags od) Hidden = Flags_None
                        then lvl\<lparr>volume := volume lvl - m_RemainingQuantity od\<rparr> else lvl);
            let lvl2 = lvl1\<lparr>orders := assoc_erase (list_it entry) (orders lvl1)\<rparr>;
            let b1 = put_level (level_it entry) lvl2 b;
            let b2 = b1\<lparr>m_Orders := (m_Orders b1)(orderID := None)\<rparr>;
            if orders lvl2 = [] then
              (if fst (level_it entry) = m_Side od
               then Some (Success, erase_level (level_it entry) b2) else None)
            else Some (Success, b2) } })"

end
