(* ===== verification/Matching.thy ===== *)
theory Matching
  imports Order_Book
begin

text \<open>
  \<^verbatim>\<open>src/src/Matching/Matching.cpp\<close>: the price-time priority strategy. The two loops
  of \<^verbatim>\<open>PriceTimePriority::Match\<close> differ in the side they take the top of the book from
  and in the direction of the price test only; \<open>match_step\<close> is one iteration, with the
  side as a parameter, and says whether the loop goes on. The loop may, for all the code
  knows, run forever (a filled order that cannot be cancelled stays on top), so it is a
  \<open>partial_function (option)\<close>; that it returns on every well-formed book is proved later.
\<close>

text \<open>\<^verbatim>\<open>order.GetOrderType() != Market && order.GetPrice() < top->GetPrice()\<close> for
  a buy, with \<^verbatim>\<open>>\<close> for a sell. The pre-check of fill-or-kill orders makes the same
  test on the price of a level.\<close>

definition price_blocked :: "Side \<Rightarrow> OrderType \<Rightarrow> Price \<Rightarrow> Price \<Rightarrow> bool" where
  "price_blocked side order_type price level_price \<longleftrightarrow>
     order_type \<noteq> Market \<and>
     (case side of Buy \<Rightarrow> price <s level_price | Sell \<Rightarrow> level_price <s price)"

definition match_step :: "Order \<Rightarrow> OrderBook \<Rightarrow> (bool \<times> Order \<times> OrderBook) option" where
  "match_step order b =
     (if \<not> 0 < m_RemainingQuantity order then Some (False, order, b)
      else do {
        top_ptr \<leftarrow> (case m_Side order of Buy \<Rightarrow> GetBestAsk b | Sell \<Rightarrow> GetBestBid b);
        case top_ptr of
          None \<Rightarrow> Some (False, order, b)
        | Some ptr \<Rightarrow> do {
            top \<leftarrow> deref ptr b;
            if price_blocked (m_Side order) (m_OrderType order) (m_Price order) (m_Price top)
            then Some (False, order, b)
            else do {
              let quantity = min (m_RemainingQuantity order) (m_RemainingQuantity top);
              let order1 = Fill quantity order;
              let top1 = Fill quantity top;
              b1 \<leftarrow> store ptr top1 b;
              b2 \<leftarrow> RecordFill (m_ClientID order1) (m_ClientID top1) (m_Price top1) quantity
                      (m_Side top1) (m_MatchType order1) b1;
              top2 \<leftarrow> deref ptr b2;
              if isFilled top2 then do {
                (code, b3) \<leftarrow> InternalCancelOrder (m_ClientID top2) (m_OrderID top2) b2;
                Some (True, order1, b3) }
              else Some (True, order1, b2) } } })"

partial_function (option) Match :: "Order \<Rightarrow> OrderBook \<Rightarrow> (Order \<times> OrderBook) option" where
  "Match order b = do {
     (go_on, order', b') \<leftarrow> match_step order b;
     if go_on then Match order' b' else Some (order', b') }"

declare Match.simps [code]

end
