(* ===== verification/Book_Ops.thy ===== *)
theory Book_Ops
  imports Matching
begin

text \<open>
  The operations of \<^verbatim>\<open>src/src/Engine/OrderBook.inl\<close> that add and modify orders, the
  three handlers that turn an error code into the closing event of a command, and
  \<^verbatim>\<open>OrderBook::Apply\<close>. The clock reading of the one \<^verbatim>\<open>Order\<close> a command may
  construct is the argument \<open>now\<close>.
\<close>

subsection \<open>InternalAddOrder\<close>

text \<open>The liquidity scan of a fill-or-kill order: it stops at the first level whose price
  is out of reach, or once enough volume was seen. The sum is a wrapping 64-bit sum of level
  volumes.\<close>

fun fok_scan :: "(Price \<Rightarrow> bool) \<Rightarrow> Quantity \<Rightarrow> Quantity \<Rightarrow> (Price \<times> LevelData) list \<Rightarrow> Quantity"
where
  "fok_scan blocked quantity available [] = available"
| "fok_scan blocked quantity available ((level_price, level_data) # ls) =
     (if blocked level_price then available
      else
        let available1 = available + volume level_data in
        if quantity \<le> available1 then available1
        else fok_scan blocked quantity available1 ls)"

definition fok_rejected :: "Price \<Rightarrow> Quantity \<Rightarrow> Side \<Rightarrow> OrderType \<Rightarrow> OrderBook \<Rightarrow> bool" where
  "fok_rejected price quantity side order_type b \<longleftrightarrow>
     fok_scan (price_blocked side order_type price) quantity 0 (levels (opposite side) b) < quantity"

definition post_only_match :: "Price \<Rightarrow> Side \<Rightarrow> OrderBook \<Rightarrow> bool" where
  "post_only_match price side b \<longleftrightarrow>
     (side = Buy \<and> m_Asks b \<noteq> [] \<and> fst (hd (m_Asks b)) \<le>s price) \<or>
     (side = Sell \<and> m_Bids b \<noteq> [] \<and> price \<le>s fst (hd (m_Bids b)))"

text \<open>\<^verbatim>\<open>unordered_map::emplace\<close> keeps an existing entry.\<close>

definition emplace :: "'k \<Rightarrow> 'v \<Rightarrow> ('k \<Rightarrow> 'v option) \<Rightarrow> ('k \<Rightarrow> 'v option)" where
  "emplace k v m = (case m k of None \<Rightarrow> m(k \<mapsto> v) | Some _ \<Rightarrow> m)"

text \<open>The two branches at the end of \<^verbatim>\<open>InternalAddOrder\<close>: the level is created when
  missing, the order goes to the back of its list, and the index learns its address.\<close>

definition rest_on_book ::
  "OrderID \<Rightarrow> Order \<Rightarrow> Price \<Rightarrow> Side \<Rightarrow> Flags \<Rightarrow> OrderBook \<Rightarrow> OrderBook option" where
  "rest_on_book new_id order price side flags b = do {
     let ls = try_emplace (side_lt side) price \<lparr>volume = 0, orders = []\<rparr> (levels side b);
     let b1 = set_levels side ls b;
     lvl \<leftarrow> get_level (side, price) b1;
     let remaining = m_RemainingQuantity order;
     let lvl1 = (if flags_and flags Hidden = Flags_None
                 then lvl\<lparr>volume := volume lvl + remaining\<rparr> else lvl);
     let node = m_NextNode b1;
     let lvl2 = lvl1\<lparr>orders := orders lvl1 @ [(node, order)]\<rparr>;
     let b2 = put_level (side, price) lvl2 (b1\<lparr>m_NextNode := node + 1\<rparr>);
     Some (b2\<lparr>m_Orders := emplace new_id \<lparr>list_it = node, level_it = (side, price)\<rparr> (m_Orders b2)\<rparr>) }"

text \<open>The matching strategy is a template argument of the class: \<open>add_order\<close> has it as a parameter,
  \<open>InternalAddOrder\<close> is the instance with price-time priority.\<close>

definition add_order ::
  "(Order \<Rightarrow> OrderBook \<Rightarrow> (Order \<times> OrderBook) option) \<Rightarrow> TimeNs \<Rightarrow> ClientID \<Rightarrow> Price \<Rightarrow> Quantity \<Rightarrow> Side \<Rightarrow> OrderType \<Rightarrow> TimeInForce \<Rightarrow> MatchType \<Rightarrow> Flags
    \<Rightarrow> OrderBook \<Rightarrow> (ErrorCode \<times> OrderBook) option" where
  "add_order matching now clientID price quantity side order_type tif match_type flags b =
     (if match_type \<noteq> Standard then Some (InvalidRequest, b)
      else if tif = FOK \<and> fok_rejected price quantity side order_type b
        then Some (InsufficientLiquidity, b)
      else if order_type = Limit \<and> flags_and flags PostOnly = PostOnly
              \<and> post_only_match price side b
        then Some (PostOnlyViolation, b)
      else do {
        let new_id = m_OrderCounter b;
        let b1 = b\<lparr>m_OrderCounter := m_OrderCounter b + 1\<rparr>;
        let order = mk_Order now new_id clientID price quantity side order_type tif match_type flags;
        (order1, b2) \<leftarrow> matching order b1;
        if m_RemainingQuantity order1 = 0 then Some (Success, b2)
        else
          (case tif of
             IOC \<Rightarrow> Some (Success, b2)
           | FOK \<Rightarrow> Some (Success, b2)
           | Day \<Rightarrow>
               if order_type = Market then Some (InvalidOrderCombination, b2)
               else do { b3 \<leftarrow> rest_on_book new_id order1 price side flags b2; Some (Success, b3) }
           | GTC \<Rightarrow>
               if order_type = Market then Some (InvalidOrderCombination, b2)
               else do { b3 \<leftarrow> rest_on_book new_id order1 price side flags b2; Some (Success, b3) }
           | GTD \<Rightarrow> Some (NotImplemented, b2)
           | ATO \<Rightarrow> Some (NotImplemented, b2)
           | _ \<Rightarrow> Some (UnsupportedTimeInForce, b2)) })"

definition InternalAddOrder ::
  "TimeNs \<Rightarrow> ClientID \<Rightarrow> Price \<Rightarrow> Quantity \<Rightarrow> Side \<Rightarrow> OrderType \<Rightarrow> TimeInForce \<Rightarrow> MatchType \<Rightarrow> Flags
    \<Rightarrow> OrderBook \<Rightarrow> (ErrorCode \<times> OrderBook) option" where
  "InternalAddOrder = add_order Match"

lemmas InternalAddOrder_unfold = InternalAddOrder_def add_order_def

subsection \<open>InternalModifyOrder\<close>

definition InternalModifyOrder ::
  "TimeNs \<Rightarrow> ClientID \<Rightarrow> OrderID \<Rightarrow> Price \<Rightarrow> Quantity \<Rightarrow> OrderBook
    \<Rightarrow> (ErrorCode \<times> OrderBook) option" where
  "InternalModifyOrder now clientID orderID new_price new_quantity b =
     (case m_Orders b orderID of
        None \<Rightarrow> Some (InvalidModify, b)
      | Some entry \<Rightarrow> do {
          od \<leftarrow> deref entry b;
          let old_price = m_Price od;
          let old_quantity = m_RemainingQuantity od;
          if m_ClientID od \<noteq> clientID then Some (Unauthorized, b)
          else if new_price \<noteq> old_price \<or> old_quantity < new_quantity then do {
            (code, b1) \<leftarrow> InternalCancelOrder clientID orderID b;
            if code \<noteq> Success then Some (InvalidModify, b1)
            else do {
              (code, b2) \<leftarrow> InternalAddOrder now clientID new_price new_quantity (m_Side od)
                 (m_OrderType od) (m_TimeInForce od) (m_MatchType od) (m_Flags od) b1;
              Some (if code \<noteq> Success then InvalidModify else Success, b2) } }
          else if new_quantity < old_quantity then do {
            let (diff, od1) = UpdateQuantity new_quantity od;
            b1 \<leftarrow> store entry od1 b;
            if flags_and (m_Flags od) Hidden = Flags_None then do {
              lvl \<leftarrow> get_level (level_it entry) b1;
              Some (Success, put_level (level_it entry) (lvl\<lparr>volume := volume lvl - diff\<rparr>) b1) }
            else Some (Success, b1) }
          else Some (Success, b) })"

subsection \<open>Handlers\<close>

definition Handle_Add :: "TimeNs \<Rightarrow> AddCmd \<Rightarrow> OrderBook \<Rightarrow> OrderBook option" where
  "Handle_Add now cmd b = do {
     (code, b1) \<leftarrow> InternalAddOrder now (add_clientID cmd) (add_price cmd) (add_quantity cmd)
        (add_side cmd) (add_order_type cmd) (add_tif cmd) (add_match_type cmd) (add_flags cmd) b;
     if code = Success
     then put_event (MakeOrderAccepted (add_clientID cmd) (m_OrderCounter b1 - 1)) b1
     else put_event (MakeOrderRejected (add_clientID cmd) code) b1 }"

definition Handle_Modify :: "TimeNs \<Rightarrow> ModifyCmd \<Rightarrow> OrderBook \<Rightarrow> OrderBook option" where
  "Handle_Modify now cmd b = do {
     (code, b1) \<leftarrow> InternalModifyOrder now (mod_clientID cmd) (mod_orderID cmd)
        (mod_new_price cmd) (mod_new_quantity cmd) b;
     if code = Success
     then put_event (MakeModifyAccepted (mod_clientID cmd) (mod_orderID cmd) (mod_orderID cmd)) b1
     else put_event (MakeModifyRejected (mod_clientID cmd) (mod_orderID cmd) code) b1 }"

definition Handle_Cancel :: "CancelCmd \<Rightarrow> OrderBook \<Rightarrow> OrderBook option" where
  "Handle_Cancel cmd b = do {
     (code, b1) \<leftarrow> InternalCancelOrder (can_clientID cmd) (can_orderID cmd) b;
     if code = Success
     then put_event (MakeCancelAccepted (can_clientID cmd) (can_orderID cmd)) b1
     else put_event (MakeCancelRejected (can_clientID cmd) (can_orderID cmd) code) b1 }"

subsection \<open>Apply\<close>

definition Apply ::
  "TimeNs \<Rightarrow> CommandPayload \<Rightarrow> OrderBook \<Rightarrow> (EventPayload list \<times> OrderBook) option" where
  "Apply now cmd b =
     (let b0 = b\<lparr>m_ScratchCounter := 0\<rparr> in
      case m_CommandType cmd of
        Cmd_Add \<Rightarrow> do {
          c \<leftarrow> AsAdd cmd; b1 \<leftarrow> Handle_Add now c b0; Some (scratch b1, b1) }
      | Cmd_Modify \<Rightarrow> do {
          c \<leftarrow> AsModify cmd; b1 \<leftarrow> Handle_Modify now c b0; Some (scratch b1, b1) }
      | Cmd_Cancel \<Rightarrow> do {
          c \<leftarrow> AsCancel cmd; b1 \<leftarrow> Handle_Cancel c b0; Some (scratch b1, b1) }
      | Cmd_None \<Rightarrow> Some ([], b0))"

end
