(* ===== verification/Book_Inv.thy ===== *)
theory Book_Inv
  imports Book_Ops
begin

text \<open>
  The invariant of the order book and the effect of its primitive updates.

  \<open>book_wf\<close> says what the iterators held in \<^verbatim>\<open>m_Orders\<close> rely on: the levels of each side
  are strictly ordered by price, no level is empty, ids increase along a level, every order in
  a level is the one its index entry points to, and every index entry points to an order. The
  lemmas give, for each primitive, what it leaves unchanged (\<open>book_frame\<close>), what a read
  through a pointer sees after it (\<open>deref_simps\<close>), what becomes of the priority queue of a
  side, and that \<open>book_wf\<close> is kept. \<open>queue s b\<close> lists the resting orders of side \<open>s\<close> in the
  order in which they are matched; it is the view of the book the later specifications use.
\<close>

subsection \<open>Frames\<close>

lemma set_levels_sel [book_frame]:
  "levels s (set_levels s' ls b) = (if s = s' then ls else levels s b)"
  "m_Orders (set_levels s' ls b) = m_Orders b"
  "m_ExpiryWatchlist (set_levels s' ls b) = m_ExpiryWatchlist b"
  "m_MarketState (set_levels s' ls b) = m_MarketState b"
  "m_ScratchCounter (set_levels s' ls b) = m_ScratchCounter b"
  "m_OrderCounter (set_levels s' ls b) = m_OrderCounter b"
  "m_TradeCounter (set_levels s' ls b) = m_TradeCounter b"
  "t_EventScratch (set_levels s' ls b) = t_EventScratch b"
  "m_NextNode (set_levels s' ls b) = m_NextNode b"
  by (cases s'; cases s; simp)+

lemma put_level_frame [book_frame]:
  "m_Orders (put_level it lvl b) = m_Orders b"
  "m_ExpiryWatchlist (put_level it lvl b) = m_ExpiryWatchlist b"
  "m_MarketState (put_level it lvl b) = m_MarketState b"
  "m_ScratchCounter (put_level it lvl b) = m_ScratchCounter b"
  "m_OrderCounter (put_level it lvl b) = m_OrderCounter b"
  "m_TradeCounter (put_level it lvl b) = m_TradeCounter b"
  "t_EventScratch (put_level it lvl b) = t_EventScratch b"
  "m_NextNode (put_level it lvl b) = m_NextNode b"
  by (simp_all add: put_level_def book_frame)

lemma erase_level_frame [book_frame]:
  "m_Orders (erase_level it b) = m_Orders b"
  "m_ExpiryWatchlist (erase_level it b) = m_ExpiryWatchlist b"
  "m_MarketState (erase_level it b) = m_MarketState b"
  "m_ScratchCounter (erase_level it b) = m_ScratchCounter b"
  "m_OrderCounter (erase_level it b) = m_OrderCounter b"
  "m_TradeCounter (erase_level it b) = m_TradeCounter b"
  "t_EventScratch (erase_level it b) = t_EventScratch b"
  "m_NextNode (erase_level it b) = m_NextNode b"
  by (simp_all add: erase_level_def book_frame)

lemma levels_update [simp]:
  "levels s (m_Orders_update f b) = levels s b"
  "levels s (m_ScratchCounter_update g b) = levels s b"
  "levels s (m_OrderCounter_update h b) = levels s b"
  "levels s (m_TradeCounter_update h b) = levels s b"
  "levels s (t_EventScratch_update i b) = levels s b"
  "levels s (m_NextNode_update g b) = levels s b"
  by (cases s; simp)+

lemma get_level_update [simp]:
  "get_level it (m_Orders_update f b) = get_level it b"
  "get_level it (m_ScratchCounter_update g b) = get_level it b"
  "get_level it (m_OrderCounter_update h b) = get_level it b"
  "get_level it (m_TradeCounter_update h b) = get_level it b"
  "get_level it (t_EventScratch_update i b) = get_level it b"
  "get_level it (m_NextNode_update g b) = get_level it b"
  by (simp_all add: get_level_def)

lemma deref_update [simp]:
  "deref e (m_Orders_update f b) = deref e b"
  "deref e (m_ScratchCounter_update g b) = deref e b"
  "deref e (m_OrderCounter_update h b) = deref e b"
  "deref e (m_TradeCounter_update h b) = deref e b"
  "deref e (t_EventScratch_update i b) = deref e b"
  "deref e (m_NextNode_update g b) = deref e b"
  by (simp_all add: deref_def)

lemma levels_put_level [book_frame]:
  "levels s (put_level it lvl b) =
     (if s = fst it then assoc_set (snd it) lvl (levels s b) else levels s b)"
  by (simp add: put_level_def book_frame)

lemma levels_erase_level [book_frame]:
  "levels s (erase_level it b) =
     (if s = fst it then assoc_erase (snd it) (levels s b) else levels s b)"
  by (simp add: erase_level_def book_frame)

definition keys_sorted :: "OrderBook \<Rightarrow> bool" where
  "keys_sorted b \<longleftrightarrow> (\<forall>s. sorted_wrt (side_lt s) (map fst (levels s b)))"

lemma keys_sorted_distinct: "keys_sorted b \<Longrightarrow> distinct (map fst (levels s b))"
  unfolding keys_sorted_def by (blast intro: side_map.sorted_distinct)

lemma keys_sorted_put_level [simp]: "keys_sorted (put_level it lvl b) = keys_sorted b"
  by (auto simp: keys_sorted_def levels_put_level)

lemma keys_sorted_erase_level: "keys_sorted b \<Longrightarrow> keys_sorted (erase_level it b)"
  by (simp add: keys_sorted_def levels_erase_level sorted_wrt_assoc_erase)

lemma get_level_put_level [deref_simps]:
  "get_level it b = Some l0 \<Longrightarrow>
   get_level it' (put_level it lvl b) = (if it' = it then Some lvl else get_level it' b)"
  by (auto simp: get_level_def levels_put_level map_of_assoc_set prod_eq_iff)

lemma get_level_erase_level [deref_simps]:
  "keys_sorted b \<Longrightarrow>
   get_level it' (erase_level it b) = (if it' = it then None else get_level it' b)"
  by (auto simp: get_level_def levels_erase_level map_of_assoc_erase keys_sorted_distinct prod_eq_iff)

lemma deref_Some_iff:
  "deref e b = Some od \<longleftrightarrow>
     (\<exists>lvl. get_level (level_it e) b = Some lvl \<and> map_of (orders lvl) (list_it e) = Some od)"
  by (simp add: deref_def bind_eq_Some_conv)

lemma deref_put_level [deref_simps]:
  "get_level it b = Some l0 \<Longrightarrow>
   deref e (put_level it lvl b) =
     (if level_it e = it then map_of (orders lvl) (list_it e) else deref e b)"
  by (simp add: deref_def get_level_put_level)

lemma deref_erase_level [deref_simps]:
  "keys_sorted b \<Longrightarrow> deref e (erase_level it b) = (if level_it e = it then None else deref e b)"
  by (simp add: deref_def get_level_erase_level)


subsection \<open>Well-formed books\<close>

definition level_wf :: "LevelData \<Rightarrow> bool" where
  "level_wf lvl \<longleftrightarrow>
     orders lvl \<noteq> [] \<and> distinct (map fst (orders lvl)) \<and>
     sorted_wrt (<) (map (m_OrderID \<circ> snd) (orders lvl))"

definition resting_ok :: "OrderEntry \<Rightarrow> Order \<Rightarrow> OrderBook \<Rightarrow> bool" where
  "resting_ok e od b \<longleftrightarrow>
     m_Side od = fst (level_it e) \<and> m_Price od = snd (level_it e) \<and>
     m_OrderID od < m_OrderCounter b \<and> list_it e < m_NextNode b \<and>
     m_OrderType od \<noteq> Market \<and> m_TimeInForce od \<in> {GTC, Day} \<and> m_MatchType od = Standard"

definition book_wf :: "OrderBook \<Rightarrow> bool" where
  "book_wf b \<longleftrightarrow>
     keys_sorted b \<and>
     (\<forall>it lvl. get_level it b = Some lvl \<longrightarrow> level_wf lvl) \<and>
     (\<forall>e od. deref e b = Some od \<longrightarrow> resting_ok e od b \<and> m_Orders b (m_OrderID od) = Some e) \<and>
     (\<forall>oid e. m_Orders b oid = Some e \<longrightarrow> (\<exists>od. deref e b = Some od \<and> m_OrderID od = oid)) \<and>
     m_ScratchCounter b \<le> MaxEventsPerCommand"

lemma book_wfD:
  assumes "book_wf b"
  shows "keys_sorted b"
    and "get_level it b = Some lvl \<Longrightarrow> level_wf lvl"
    and "deref e b = Some od \<Longrightarrow> resting_ok e od b"
    and "deref e b = Some od \<Longrightarrow> m_Orders b (m_OrderID od) = Some e"
    and "m_Orders b oid = Some e \<Longrightarrow> \<exists>od. deref e b = Some od \<and> m_OrderID od = oid"
    and "m_ScratchCounter b \<le> MaxEventsPerCommand"
  using assms unfolding book_wf_def by blast+

lemma book_wf_same_id:
  "book_wf b \<Longrightarrow> deref e b = Some od \<Longrightarrow> deref e' b = Some od' \<Longrightarrow> m_OrderID od' = m_OrderID od \<Longrightarrow> e' = e"
  using book_wfD(4) by (metis option.inject)

lemma book_wf_init: "book_wf OrderBook_init"
proof -
  have "levels s OrderBook_init = []" for s
    by (cases s) (simp_all add: OrderBook_init_def)
  then show ?thesis
    by (simp add: book_wf_def keys_sorted_def get_level_def deref_def)
      (simp add: OrderBook_init_def)
qed

text \<open>Changing a volume touches no order.\<close>

lemma book_wf_put_volume:
  assumes "book_wf b" and "get_level it b = Some lvl"
  shows "book_wf (put_level it (lvl\<lparr>volume := v\<rparr>) b)" and "deref e (put_level it (lvl\<lparr>volume := v\<rparr>) b) = deref e b"
proof -
  let ?b = "put_level it (lvl\<lparr>volume := v\<rparr>) b"
  show d: "deref e ?b = deref e b" for e
    using assms(2) by (auto simp: get_level_put_level deref_def)
  have "level_wf (lvl\<lparr>volume := v\<rparr>)"
    using book_wfD(2) [OF assms] by (simp add: level_wf_def)
  then have "get_level it' ?b = Some l \<Longrightarrow> level_wf l" for it' l
    using book_wfD(2) [OF assms(1)] assms(2) by (auto simp: get_level_put_level split: if_splits)
  then show "book_wf ?b"
    using assms(1) unfolding book_wf_def d keys_sorted_put_level
    by (auto simp: book_frame resting_ok_def)
qed

lemma map_of_distinct_set:
  "distinct (map fst xs) \<Longrightarrow> map_of xs k = Some v \<longleftrightarrow> (k, v) \<in> set xs"
  by simp

text \<open>Overwriting an order with one that differs in its quantities only.\<close>

lemma store_eq:
  assumes "deref e b = Some od0"
  obtains lvl where "get_level (level_it e) b = Some lvl"
    and "store e od b = Some (put_level (level_it e)
           (lvl\<lparr>orders := assoc_set (list_it e) od (orders lvl)\<rparr>) b)"
  using assms by (auto simp: store_def deref_Some_iff)

lemma map_snd_assoc_set_same:
  "map_of xs k = Some w \<Longrightarrow> f v = f w \<Longrightarrow> map (f \<circ> snd) (assoc_set k v xs) = map (f \<circ> snd) xs"
  by (induction k v xs rule: assoc_set.induct) auto

lemma book_wf_store:
  assumes "book_wf b" and "deref e b = Some od0" and "store e od b = Some b'"
    and "m_OrderID od = m_OrderID od0" and "m_Side od = m_Side od0" and "m_Price od = m_Price od0"
    and "m_OrderType od = m_OrderType od0" and "m_TimeInForce od = m_TimeInForce od0"
    and "m_MatchType od = m_MatchType od0"
  shows "book_wf b'" and "deref e' b' = (if e' = e then Some od else deref e' b)"
proof -
  from assms(2) obtain lvl where lvl: "get_level (level_it e) b = Some lvl"
    and st: "store e od b = Some (put_level (level_it e)
           (lvl\<lparr>orders := assoc_set (list_it e) od (orders lvl)\<rparr>) b)"
    by (rule store_eq)
  let ?l = "lvl\<lparr>orders := assoc_set (list_it e) od (orders lvl)\<rparr>"
  have b': "b' = put_level (level_it e) ?l b" using st assms(3) by simp
  have mo: "map_of (orders lvl) (list_it e) = Some od0"
    using assms(2) lvl by (simp add: deref_def)
  show d: "deref e' b' = (if e' = e then Some od else deref e' b)" for e'
    using lvl mo by (cases e; cases e') (auto simp: b' get_level_put_level map_of_assoc_set deref_def)
  have "level_wf lvl" using book_wfD(2) [OF assms(1) lvl] .
  then have "level_wf ?l"
    using map_snd_assoc_set_same [OF mo, of m_OrderID od] assms(4) by (simp add: level_wf_def)
  then have lv: "get_level it' b' = Some l \<Longrightarrow> level_wf l" for it' l
    using book_wfD(2) [OF assms(1)] lvl by (auto simp: b' get_level_put_level split: if_splits)
  have fr: "m_Orders b' = m_Orders b" "m_OrderCounter b' = m_OrderCounter b"
    "m_NextNode b' = m_NextNode b" "m_ScratchCounter b' = m_ScratchCounter b"
    "keys_sorted b' = keys_sorted b"
    by (simp_all add: b' book_frame)
  have ok: "resting_ok e' od' b' \<and> m_Orders b' (m_OrderID od') = Some e'"
    if "deref e' b' = Some od'" for e' od'
    using that book_wfD(3,4) [OF assms(1)] assms(2,4-) unfolding d
    by (auto simp: resting_ok_def fr split: if_splits)
  have ix: "\<exists>od'. deref e' b' = Some od' \<and> m_OrderID od' = oid" if "m_Orders b' oid = Some e'" for e' oid
    using that book_wfD(5) [OF assms(1), of oid e'] assms(2,4) unfolding d fr by (auto split: if_splits)
  show "book_wf b'"
    using book_wfD(1,6) [OF assms(1)] lv ok ix unfolding book_wf_def fr by blast
qed


text \<open>Appending an event.\<close>

lemma put_event_eq:
  "m_ScratchCounter b < MaxEventsPerCommand \<Longrightarrow>
   put_event ev b = Some (b\<lparr>t_EventScratch := (t_EventScratch b)(m_ScratchCounter b := ev),
                             m_ScratchCounter := m_ScratchCounter b + 1\<rparr>)"
  by (simp add: put_event_def)

lemma scratch_put_event:
  "put_event ev b = Some b' \<Longrightarrow> scratch b' = scratch b @ [ev]"
  by (auto simp: put_event_def scratch_def split: if_splits)

lemma book_wf_cong:
  assumes "\<And>s. levels s b' = levels s b" and "m_Orders b' = m_Orders b"
    and "m_OrderCounter b' = m_OrderCounter b" and "m_NextNode b' = m_NextNode b"
    and "m_ScratchCounter b' \<le> MaxEventsPerCommand"
  shows "book_wf b \<Longrightarrow> book_wf b'"
proof -
  have "get_level it b' = get_level it b" for it by (simp add: get_level_def assms(1))
  moreover from this have "deref e b' = deref e b" for e by (simp add: deref_def)
  ultimately show "book_wf b \<Longrightarrow> book_wf b'"
    using assms unfolding book_wf_def keys_sorted_def resting_ok_def by simp
qed

subsection \<open>Cancelling\<close>

definition cancelled_level :: "ListNode \<Rightarrow> Order \<Rightarrow> LevelData \<Rightarrow> LevelData" where
  "cancelled_level n od lvl =
     (if flags_and (m_Flags od) Hidden = Flags_None
      then lvl\<lparr>volume := volume lvl - m_RemainingQuantity od\<rparr> else lvl)
     \<lparr>orders := assoc_erase n (orders lvl)\<rparr>"

definition cancelled :: "OrderEntry \<Rightarrow> Order \<Rightarrow> LevelData \<Rightarrow> OrderBook \<Rightarrow> OrderBook" where
  "cancelled entry od lvl b =
     (let lvl2 = cancelled_level (list_it entry) od lvl;
          b2 = (put_level (level_it entry) lvl2 b)
                 \<lparr>m_Orders := (m_Orders b)(m_OrderID od := None)\<rparr>
      in if orders lvl2 = [] then erase_level (level_it entry) b2 else b2)"

lemma InternalCancelOrder_eq:
  assumes "book_wf b" and "m_Orders b orderID = Some entry" and "deref entry b = Some od"
    and "get_level (level_it entry) b = Some lvl"
  shows "InternalCancelOrder (m_ClientID od) orderID b = Some (Success, cancelled entry od lvl b)"
proof -
  have "m_OrderID od = orderID"
    using book_wfD(5) [OF assms(1,2)] assms(3) by simp
  moreover have "fst (level_it entry) = m_Side od"
    using book_wfD(3) [OF assms(1,3)] by (simp add: resting_ok_def)
  ultimately show ?thesis
    using assms by (simp add: InternalCancelOrder_def cancelled_def cancelled_level_def Let_def
        book_frame)
qed

lemma cancelled_frame [book_frame]:
  "m_Orders (cancelled e od lvl b) = (m_Orders b)(m_OrderID od := None)"
  "m_ExpiryWatchlist (cancelled e od lvl b) = m_ExpiryWatchlist b"
  "m_MarketState (cancelled e od lvl b) = m_MarketState b"
  "m_ScratchCounter (cancelled e od lvl b) = m_ScratchCounter b"
  "m_OrderCounter (cancelled e od lvl b) = m_OrderCounter b"
  "m_TradeCounter (cancelled e od lvl b) = m_TradeCounter b"
  "t_EventScratch (cancelled e od lvl b) = t_EventScratch b"
  "m_NextNode (cancelled e od lvl b) = m_NextNode b"
  by (simp_all add: cancelled_def Let_def book_frame)

lemma get_level_cancelled:
  assumes "keys_sorted b" and "get_level (level_it e) b = Some lvl"
  shows "get_level it (cancelled e od lvl b) =
     (if it = level_it e
      then if orders (cancelled_level (list_it e) od lvl) = [] then None
           else Some (cancelled_level (list_it e) od lvl)
      else get_level it b)"
  using assms by (simp add: cancelled_def Let_def get_level_erase_level get_level_put_level keys_sorted_def levels_put_level)


lemma orders_cancelled_level [simp]:
  "orders (cancelled_level n od lvl) = assoc_erase n (orders lvl)"
  by (simp add: cancelled_level_def)

lemma deref_cancelled:
  assumes "book_wf b" and "deref e b = Some od" and "get_level (level_it e) b = Some lvl"
  shows "deref e' (cancelled e od lvl b) = (if e' = e then None else deref e' b)"
proof -
  have "distinct (map fst (orders lvl))"
    using book_wfD(2) [OF assms(1,3)] by (simp add: level_wf_def)
  then have mo: "map_of (assoc_erase (list_it e) (orders lvl)) n =
      (if n = list_it e then None else map_of (orders lvl) n)" for n
    by (simp add: map_of_assoc_erase)
  show ?thesis
  proof (cases "level_it e' = level_it e")
    case True
    then have "deref e' (cancelled e od lvl b) = map_of (assoc_erase (list_it e) (orders lvl)) (list_it e')"
      using assms by (auto simp: deref_def get_level_cancelled book_wfD(1))
    moreover have "deref e' b = map_of (orders lvl) (list_it e')"
      using True assms(3) by (simp add: deref_def)
    moreover have "e' = e \<longleftrightarrow> list_it e' = list_it e"
      using True by (cases e; cases e') auto
    ultimately show ?thesis
      by (simp add: mo)
  next
    case False
    then show ?thesis
      using assms by (auto simp: deref_def get_level_cancelled book_wfD(1))
  qed
qed

lemma level_wf_cancelled_level:
  assumes "level_wf lvl" and "assoc_erase n (orders lvl) \<noteq> []"
  shows "level_wf (cancelled_level n od lvl)"
proof -
  have "sorted_wrt (<) (map (m_OrderID \<circ> snd) (assoc_erase n (orders lvl)))"
    using assms(1) sorted_wrt_assoc_erase [of "(<)" "m_OrderID \<circ> snd" "orders lvl" n]
    by (simp add: level_wf_def)
  then show ?thesis
    using assms by (simp add: level_wf_def distinct_assoc_erase)
qed

lemma keys_sorted_cancelled: "keys_sorted b \<Longrightarrow> keys_sorted (cancelled e od lvl b)"
  by (simp add: cancelled_def Let_def keys_sorted_def levels_erase_level levels_put_level
      sorted_wrt_assoc_erase)

lemma book_wf_cancelled:
  assumes "book_wf b" and "deref e b = Some od" and "get_level (level_it e) b = Some lvl"
  shows "book_wf (cancelled e od lvl b)"
proof -
  let ?b = "cancelled e od lvl b"
  note d = deref_cancelled [OF assms]
  have lv: "get_level it ?b = Some l \<Longrightarrow> level_wf l" for it l
    using book_wfD(2) [OF assms(1)] level_wf_cancelled_level [OF book_wfD(2) [OF assms(1,3)]] assms(3)
    by (auto simp: get_level_cancelled book_wfD(1) [OF assms(1)] split: if_splits)
  have ok: "resting_ok e' od' ?b \<and> m_Orders ?b (m_OrderID od') = Some e'"
    if "deref e' ?b = Some od'" for e' od'
  proof -
    from that have "e' \<noteq> e" "deref e' b = Some od'" by (auto simp: d split: if_splits)
    with book_wfD(3,4) [OF assms(1)] book_wf_same_id [OF assms(1,2)] show ?thesis
      by (auto simp: resting_ok_def book_frame)
  qed
  have ix: "\<exists>od'. deref e' ?b = Some od' \<and> m_OrderID od' = oid" if "m_Orders ?b oid = Some e'" for e' oid
  proof -
    from that have "oid \<noteq> m_OrderID od" "m_Orders b oid = Some e'" by (auto simp: book_frame split: if_splits)
    with book_wfD(5) [OF assms(1)] assms(2) show ?thesis by (fastforce simp: d)
  qed
  show ?thesis
    using keys_sorted_cancelled [OF book_wfD(1) [OF assms(1)]] lv ok ix book_wfD(6) [OF assms(1)]
    unfolding book_wf_def by (simp add: book_frame)
qed

subsection \<open>The priority queue of a side\<close>

definition queue :: "Side \<Rightarrow> OrderBook \<Rightarrow> Order list" where
  "queue s b = concat (map (\<lambda>(_, lvl). map snd (orders lvl)) (levels s b))"

lemma queue_cong: "levels s b' = levels s b \<Longrightarrow> queue s b' = queue s b"
  by (simp add: queue_def)

lemma in_queue_iff:
  assumes "book_wf b"
  shows "od \<in> set (queue s b) \<longleftrightarrow> (\<exists>e. fst (level_it e) = s \<and> deref e b = Some od)"
proof
  assume "od \<in> set (queue s b)"
  then obtain p lvl n where pl: "(p, lvl) \<in> set (levels s b)" "(n, od) \<in> set (orders lvl)"
    by (auto simp: queue_def)
  then have gl: "get_level (s, p) b = Some lvl"
    using keys_sorted_distinct [OF book_wfD(1) [OF assms]] by (simp add: get_level_def)
  then have "distinct (map fst (orders lvl))"
    using book_wfD(2) [OF assms] by (simp add: level_wf_def)
  with pl gl have "deref \<lparr>list_it = n, level_it = (s, p)\<rparr> b = Some od"
    by (simp add: deref_def)
  then show "\<exists>e. fst (level_it e) = s \<and> deref e b = Some od"
    by (metis OrderEntry.select_convs(2) fst_conv)
next
  assume "\<exists>e. fst (level_it e) = s \<and> deref e b = Some od"
  then obtain e :: OrderEntry and lvl :: LevelData
    where "fst (level_it e) = s" "get_level (level_it e) b = Some lvl"
    "map_of (orders lvl) (list_it e) = Some od"
    by (auto simp: deref_Some_iff)
  then have "(snd (level_it e), lvl) \<in> set (levels s b)" "(list_it e, od) \<in> set (orders lvl)"
    by (auto simp: get_level_def dest: map_of_SomeD)
  then show "od \<in> set (queue s b)" by (force simp: queue_def)
qed

lemma queue_ok:
  assumes "book_wf b" and "od \<in> set (queue s b)"
  shows "m_Side od = s" and "m_OrderID od < m_OrderCounter b" and "m_OrderType od \<noteq> Market"
    and "m_TimeInForce od \<in> {GTC, Day}" and "m_MatchType od = Standard"
  using assms(2) book_wfD(3) [OF assms(1)] unfolding in_queue_iff [OF assms(1)]
  by (auto simp: resting_ok_def)


text \<open>Price priority, then time priority: the order of the queue of a well-formed book.\<close>

definition has_priority :: "Side \<Rightarrow> Order \<Rightarrow> Order \<Rightarrow> bool" where
  "has_priority s x y \<longleftrightarrow>
     side_lt s (m_Price x) (m_Price y) \<or> m_Price x = m_Price y \<and> m_OrderID x < m_OrderID y"

lemma level_orders_ok:
  assumes "book_wf b" and "(p, lvl) \<in> set (levels s b)"
  shows "get_level (s, p) b = Some lvl"
    and "(n, od) \<in> set (orders lvl) \<Longrightarrow> deref \<lparr>list_it = n, level_it = (s, p)\<rparr> b = Some od"
    and "(n, od) \<in> set (orders lvl) \<Longrightarrow> m_Price od = p"
proof -
  show gl: "get_level (s, p) b = Some lvl"
    using assms keys_sorted_distinct [OF book_wfD(1) [OF assms(1)]] by (simp add: get_level_def)
  then have "distinct (map fst (orders lvl))"
    using book_wfD(2) [OF assms(1)] by (simp add: level_wf_def)
  then show d: "(n, od) \<in> set (orders lvl) \<Longrightarrow> deref \<lparr>list_it = n, level_it = (s, p)\<rparr> b = Some od"
    using gl by (simp add: deref_def)
  show "(n, od) \<in> set (orders lvl) \<Longrightarrow> m_Price od = p"
    using book_wfD(3) [OF assms(1) d] by (simp add: resting_ok_def)
qed

lemma level_orders_nonempty:
  "book_wf b \<Longrightarrow> (p, lvl) \<in> set (levels s b) \<Longrightarrow> orders lvl \<noteq> []"
  using book_wfD(2) [OF _ level_orders_ok(1)] by (auto simp: level_wf_def)

lemma sorted_wrt_concat:
  assumes "\<And>x. x \<in> set xs \<Longrightarrow> sorted_wrt P (f x)"
    and "sorted_wrt (\<lambda>x y. \<forall>a\<in>set (f x). \<forall>c\<in>set (f y). P a c) xs"
  shows "sorted_wrt P (concat (map f xs))"
  using assms by (induction xs) (auto simp: sorted_wrt_append)

lemma queue_sorted:
  assumes "book_wf b"
  shows "sorted_wrt (has_priority s) (queue s b)"
  unfolding queue_def
proof (rule sorted_wrt_concat)
  fix x assume "x \<in> set (levels s b)"
  moreover obtain p lvl where x: "x = (p, lvl)" by force
  ultimately have mem: "(p, lvl) \<in> set (levels s b)" by simp
  have "level_wf lvl"
    using book_wfD(2) [OF assms level_orders_ok(1) [OF assms mem]] .
  then have "sorted_wrt (\<lambda>a c. m_OrderID (snd a) < m_OrderID (snd c)) (orders lvl)"
    by (simp add: level_wf_def sorted_wrt_map)
  then have "sorted_wrt (\<lambda>a c. has_priority s (snd a) (snd c)) (orders lvl)"
    by (rule sorted_wrt_mono_rel [rotated])
      (use level_orders_ok(3) [OF assms mem] in \<open>auto simp: has_priority_def\<close>)
  then show "sorted_wrt (has_priority s) (case x of (_, lvl) \<Rightarrow> map snd (orders lvl))"
    by (simp add: x sorted_wrt_map)
next
  have "sorted_wrt (\<lambda>x y. side_lt s (fst x) (fst y)) (levels s b)"
    using book_wfD(1) [OF assms] by (simp add: keys_sorted_def sorted_wrt_map)
  then show "sorted_wrt (\<lambda>x y. \<forall>a\<in>set (case x of (_, lvl) \<Rightarrow> map snd (orders lvl)).
      \<forall>c\<in>set (case y of (_, lvl) \<Rightarrow> map snd (orders lvl)). has_priority s a c) (levels s b)"
  proof (rule sorted_wrt_mono_rel [rotated])
    fix x y assume xy: "x \<in> set (levels s b)" "y \<in> set (levels s b)" "side_lt s (fst x) (fst y)"
    obtain p lvl q lvl' where eq: "x = (p, lvl)" "y = (q, lvl')" by (cases x, cases y)
    have "\<forall>a\<in>snd ` set (orders lvl). m_Price a = p" "\<forall>c\<in>snd ` set (orders lvl'). m_Price c = q"
      using level_orders_ok(3) [OF assms xy(1) [unfolded eq]] level_orders_ok(3) [OF assms xy(2) [unfolded eq]]
      by auto
    moreover have "side_lt s p q" using xy(3) by (simp add: eq)
    ultimately have "has_priority s a c" if "a \<in> snd ` set (orders lvl)" "c \<in> snd ` set (orders lvl')" for a c
      using that unfolding has_priority_def by metis
    then show "\<forall>a\<in>set (case x of (_, lvl) \<Rightarrow> map snd (orders lvl)).
      \<forall>c\<in>set (case y of (_, lvl) \<Rightarrow> map snd (orders lvl)). has_priority s a c"
      unfolding eq by (simp del: image_iff)
  qed
qed

lemma sorted_wrt_neq_distinct: "sorted_wrt (\<lambda>x y. f x \<noteq> f y) xs \<Longrightarrow> distinct (map f xs)"
  by (induction xs) auto

lemma queue_distinct:
  assumes "book_wf b"
  shows "distinct (map m_OrderID (queue s b))"
proof -
  have "sorted_wrt (\<lambda>x y. m_OrderID x \<noteq> m_OrderID y) (queue s b)"
    unfolding queue_def
  proof (rule sorted_wrt_concat)
    fix x assume "x \<in> set (levels s b)"
    moreover obtain p lvl where x: "x = (p, lvl)" by force
    ultimately have "level_wf lvl"
      using book_wfD(2) [OF assms level_orders_ok(1) [OF assms]] by blast
    then have "sorted_wrt (\<lambda>a c. m_OrderID (snd a) < m_OrderID (snd c)) (orders lvl)"
      by (simp add: level_wf_def sorted_wrt_map)
    then show "sorted_wrt (\<lambda>x y. m_OrderID x \<noteq> m_OrderID y) (case x of (_, lvl) \<Rightarrow> map snd (orders lvl))"
      by (auto simp: x sorted_wrt_map elim: sorted_wrt_mono_rel [rotated])
  next
    have sorted: "sorted_wrt (\<lambda>x y. side_lt s (fst x) (fst y)) (levels s b)"
      using book_wfD(1) [OF assms] by (simp add: keys_sorted_def sorted_wrt_map)
    have neq: "m_OrderID od \<noteq> m_OrderID od'"
      if "x \<in> set (levels s b)" "y \<in> set (levels s b)" "side_lt s (fst x) (fst y)"
        "od \<in> set (case x of (_, lvl) \<Rightarrow> map snd (orders lvl))"
        "od' \<in> set (case y of (_, lvl) \<Rightarrow> map snd (orders lvl))" for x y od od'
    proof -
      from that(1,4) obtain n where "deref \<lparr>list_it = n, level_it = (s, fst x)\<rparr> b = Some od"
        using level_orders_ok(2) [OF assms] by force
      moreover from that(2,5) obtain n' where "deref \<lparr>list_it = n', level_it = (s, fst y)\<rparr> b = Some od'"
        using level_orders_ok(2) [OF assms] by force
      moreover from that(3) have "fst x \<noteq> fst y"
        using side_map.irrefl by metis
      ultimately show ?thesis
        using book_wf_same_id [OF assms] by fastforce
    qed
    show "sorted_wrt (\<lambda>x y. \<forall>a\<in>set (case x of (_, lvl) \<Rightarrow> map snd (orders lvl)).
      \<forall>c\<in>set (case y of (_, lvl) \<Rightarrow> map snd (orders lvl)). m_OrderID a \<noteq> m_OrderID c) (levels s b)"
      using sorted by (rule sorted_wrt_mono_rel [rotated]) (intro ballI, rule neq)
  qed
  then show ?thesis by (rule sorted_wrt_neq_distinct)
qed

lemma queue_other_ids:
  assumes "book_wf b" and "deref e b = Some od" and "s \<noteq> fst (level_it e)"
  shows "\<forall>x\<in>set (queue s b). m_OrderID x \<noteq> m_OrderID od"
proof (rule ballI, rule notI)
  fix x assume "x \<in> set (queue s b)" "m_OrderID x = m_OrderID od"
  then obtain e' where "fst (level_it e') = s" "deref e' b = Some x"
    using in_queue_iff [OF assms(1)] by blast
  with book_wf_same_id [OF assms(1,2), of e' x] \<open>m_OrderID x = m_OrderID od\<close> assms(3)
  show False by simp
qed

lemma filter_one_id:
  assumes "distinct (map m_OrderID (as @ od # bs))"
  shows "filter (\<lambda>x. m_OrderID x \<noteq> m_OrderID od) (as @ od # bs) = as @ bs"
proof -
  have "\<forall>x\<in>set as. m_OrderID x \<noteq> m_OrderID od" "\<forall>x\<in>set bs. m_OrderID x \<noteq> m_OrderID od"
    using assms by (auto simp: image_iff)
  then show ?thesis by (simp add: filter_True)
qed

lemma queue_cancelled:
  assumes "book_wf b" and "deref e b = Some od" and "get_level (level_it e) b = Some lvl"
  shows "queue s (cancelled e od lvl b) = filter (\<lambda>x. m_OrderID x \<noteq> m_OrderID od) (queue s b)"
proof (cases "s = fst (level_it e)")
  case False
  then have "levels s (cancelled e od lvl b) = levels s b"
    by (simp add: cancelled_def Let_def levels_erase_level levels_put_level)
  then have "queue s (cancelled e od lvl b) = queue s b" by (rule queue_cong)
  with queue_other_ids [OF assms(1,2) False] show ?thesis by (simp add: filter_True)
next
  case True
  let ?n = "list_it e" and ?p = "snd (level_it e)"
  have "distinct (map fst (levels s b))"
    using keys_sorted_distinct [OF book_wfD(1) [OF assms(1)]] .
  moreover have "map_of (levels s b) ?p = Some lvl"
    using assms(3) True by (simp add: get_level_def)
  ultimately obtain ys zs where lev: "levels s b = ys @ (?p, lvl) # zs"
    and nys: "?p \<notin> fst ` set ys"
    by (rule assoc_erase_split) blast
  have "distinct (map fst (orders lvl))"
    using book_wfD(2) [OF assms(1,3)] by (simp add: level_wf_def)
  moreover have "map_of (orders lvl) ?n = Some od"
    using assms(2,3) by (simp add: deref_def)
  ultimately obtain us vs where ord: "orders lvl = us @ (?n, od) # vs"
    and era: "assoc_erase ?n (orders lvl) = us @ vs"
    by (rule assoc_erase_split) blast
  let ?l = "cancelled_level ?n od lvl"
  have "levels s (cancelled e od lvl b) = (if us @ vs = [] then ys @ zs else ys @ (?p, ?l) # zs)"
    by (simp add: True [symmetric] era cancelled_def Let_def levels_erase_level levels_put_level lev
        assoc_set_split [OF nys] assoc_erase_append [OF nys])
  then have new: "queue s (cancelled e od lvl b) =
      concat (map (\<lambda>(_, lvl). map snd (orders lvl)) ys) @ map snd us @ map snd vs
      @ concat (map (\<lambda>(_, lvl). map snd (orders lvl)) zs)"
    by (simp add: queue_def era)
  have old: "queue s b = concat (map (\<lambda>(_, lvl). map snd (orders lvl)) ys) @ map snd us @ od # map snd vs
      @ concat (map (\<lambda>(_, lvl). map snd (orders lvl)) zs)"
    by (simp add: queue_def lev ord)
  show ?thesis
    using queue_distinct [OF assms(1), of s] filter_one_id
      [of "concat (map (\<lambda>(_, lvl). map snd (orders lvl)) ys) @ map snd us"
          od "map snd vs @ concat (map (\<lambda>(_, lvl). map snd (orders lvl)) zs)"]
    unfolding new old by simp
qed

end
