(* ===== verification/Book_Updates.thy ===== *)
theory Book_Updates
  imports Book_Inv
begin

text \<open>
  The two updates that let orders come to rest and be executed: \<^verbatim>\<open>RecordFill\<close> and the
  end of \<^verbatim>\<open>InternalAddOrder\<close> (\<open>rest_on_book\<close>). \<open>insert_order\<close> is the specification of
  price-time insertion; \<open>queue_rest_on_book\<close> shows that the code's level map and list
  implement it.
\<close>

subsection \<open>Association lists\<close>

lemma map_of_snoc:
  "k \<notin> fst ` set xs \<Longrightarrow> map_of (xs @ [(k, v)]) n = (if n = k then Some v else map_of xs n)"
  by (induction xs) auto

subsection \<open>Recording a fill\<close>

lemma RecordFill_eq:
  assumes "book_wf b" and "get_level (s, p) b = Some lvl"
  shows "RecordFill mk tk p q s mt b =
    Some (let b1 = put_level (s, p) (lvl\<lparr>volume := volume lvl - q\<rparr>) b in
      if m_ScratchCounter b < MaxEventsPerCommand
      then b1\<lparr>t_EventScratch := (t_EventScratch b)(m_ScratchCounter b :=
                 MakeTrade (mk_Trade (m_TradeCounter b) mk tk p q s mt)),
              m_ScratchCounter := m_ScratchCounter b + 1,
              m_TradeCounter := m_TradeCounter b + 1\<rparr>
      else b1)"
proof -
  have "orders lvl \<noteq> []" using book_wfD(2) [OF assms] by (simp add: level_wf_def)
  then show ?thesis
    using assms(2) by (simp add: RecordFill_def Let_def put_event_def book_frame)
qed

text \<open>What one recorded fill appends to the events of the command.\<close>

definition room :: "OrderBook \<Rightarrow> nat" where
  "room b = MaxEventsPerCommand - m_ScratchCounter b"

lemma RecordFill_wf:
  assumes "book_wf b" and "get_level (s, p) b = Some lvl" and "RecordFill mk tk p q s mt b = Some b'"
  shows "book_wf b'" and "deref e b' = deref e b"
    and "levels s' b' = levels s' (put_level (s, p) (lvl\<lparr>volume := volume lvl - q\<rparr>) b)"
    and "m_Orders b' = m_Orders b" and "m_OrderCounter b' = m_OrderCounter b"
    and "m_NextNode b' = m_NextNode b" and "m_MarketState b' = m_MarketState b"
    and "m_ExpiryWatchlist b' = m_ExpiryWatchlist b"
    and "scratch b' = scratch b @ take (room b) [MakeTrade (mk_Trade (m_TradeCounter b) mk tk p q s mt)]"
    and "m_ScratchCounter b' = min MaxEventsPerCommand (m_ScratchCounter b + 1)"
    and "m_TradeCounter b' = (if room b = 0 then m_TradeCounter b else m_TradeCounter b + 1)"
proof -
  let ?b1 = "put_level (s, p) (lvl\<lparr>volume := volume lvl - q\<rparr>) b"
  note eq = assms(3) [unfolded RecordFill_eq [OF assms(1,2)] Let_def option.inject, symmetric]
  note w = book_wf_put_volume [OF assms(1,2), where v = "volume lvl - q"]
  have le: "m_ScratchCounter b \<le> MaxEventsPerCommand" by (rule book_wfD(6) [OF assms(1)])
  show lv: "levels s' b' = levels s' ?b1" for s' by (simp add: eq)
  show "book_wf b'"
    using w(1) by (rule book_wf_cong [rotated -1]) (use le in \<open>auto simp: eq book_frame\<close>)
  show "deref e b' = deref e b" by (simp add: eq w(2))
  show "m_Orders b' = m_Orders b" "m_OrderCounter b' = m_OrderCounter b"
    "m_NextNode b' = m_NextNode b" "m_MarketState b' = m_MarketState b"
    "m_ExpiryWatchlist b' = m_ExpiryWatchlist b"
    by (simp_all add: eq book_frame)
  show "scratch b' = scratch b @ take (room b) [MakeTrade (mk_Trade (m_TradeCounter b) mk tk p q s mt)]"
    "m_ScratchCounter b' = min MaxEventsPerCommand (m_ScratchCounter b + 1)"
    "m_TradeCounter b' = (if room b = 0 then m_TradeCounter b else m_TradeCounter b + 1)"
    using le by (auto simp: eq scratch_def room_def book_frame)
qed

subsection \<open>Resting an order\<close>

lemma get_level_set_levels:
  "get_level it (set_levels s ls b) = (if fst it = s then map_of ls (snd it) else get_level it b)"
  by (simp add: get_level_def book_frame)

lemma map_of_levels: "map_of (levels s b) p = get_level (s, p) b"
  by (simp add: get_level_def)

definition rested_level :: "ListNode \<Rightarrow> Order \<Rightarrow> Flags \<Rightarrow> LevelData \<Rightarrow> LevelData" where
  "rested_level n od flags lvl =
     (if flags_and flags Hidden = Flags_None
      then lvl\<lparr>volume := volume lvl + m_RemainingQuantity od\<rparr> else lvl)
     \<lparr>orders := orders lvl @ [(n, od)]\<rparr>"

definition empty_level :: LevelData where
  "empty_level = \<lparr>volume = 0, orders = []\<rparr>"

definition level_or_empty :: "LevelIt \<Rightarrow> OrderBook \<Rightarrow> LevelData" where
  "level_or_empty it b = (case get_level it b of Some lvl \<Rightarrow> lvl | None \<Rightarrow> empty_level)"

lemma rest_on_book_eq:
  assumes "book_wf b" and "m_Orders b new_id = None"
  obtains b' where "rest_on_book new_id od p s f b = Some b'"
    and "\<And>it. get_level it b' = (if it = (s, p)
           then Some (rested_level (m_NextNode b) od f (level_or_empty (s, p) b)) else get_level it b)"
    and "\<And>s'. levels s' b' = (if s' = s
           then assoc_set p (rested_level (m_NextNode b) od f (level_or_empty (s, p) b))
                  (try_emplace (side_lt s) p empty_level (levels s b)) else levels s' b)"
    and "m_Orders b' = (m_Orders b)(new_id \<mapsto> \<lparr>list_it = m_NextNode b, level_it = (s, p)\<rparr>)"
    and "m_NextNode b' = m_NextNode b + 1" and "m_OrderCounter b' = m_OrderCounter b"
    and "m_ScratchCounter b' = m_ScratchCounter b" and "m_TradeCounter b' = m_TradeCounter b"
    and "t_EventScratch b' = t_EventScratch b" and "m_MarketState b' = m_MarketState b"
    and "m_ExpiryWatchlist b' = m_ExpiryWatchlist b"
proof -
  let ?ls = "try_emplace (side_lt s) p empty_level (levels s b)"
  let ?b1 = "set_levels s ?ls b"
  let ?l = "rested_level (m_NextNode b) od f (level_or_empty (s, p) b)"
  have sorted: "sorted_wrt (side_lt s) (map fst (levels s b))"
    using book_wfD(1) [OF assms(1)] by (simp add: keys_sorted_def)
  have mo: "map_of ?ls = (map_of (levels s b))(p \<mapsto> level_or_empty (s, p) b)"
    using side_map.map_of_try_emplace [OF sorted, of p empty_level]
    by (auto simp: level_or_empty_def get_level_def fun_eq_iff split: option.splits)
  let ?b2 = "put_level (s, p) ?l (?b1\<lparr>m_NextNode := Suc (m_NextNode b)\<rparr>)"
  let ?b' = "?b2\<lparr>m_Orders := (m_Orders b)(new_id \<mapsto> \<lparr>list_it = m_NextNode b, level_it = (s, p)\<rparr>)\<rparr>"
  have gl1: "get_level (s, p) ?b1 = Some (level_or_empty (s, p) b)"
    by (simp add: get_level_set_levels mo)
  then have gl2: "get_level it ?b2 = (if it = (s, p) then Some ?l else get_level it ?b1)" for it
    by (subst get_level_put_level) auto
  have "rest_on_book new_id od p s f b = Some ?b'"
    using gl1 assms(2)
    by (simp add: rest_on_book_def Let_def rested_level_def empty_level_def [symmetric] book_frame
        emplace_def)
  moreover have "get_level it ?b' = (if it = (s, p) then Some ?l else get_level it b)" for it
    by (cases it) (auto simp: gl2 get_level_set_levels mo map_of_levels)
  ultimately show thesis
    by (rule that) (simp_all add: book_frame)
qed


lemma level_or_empty_orders:
  assumes "book_wf b"
  shows "distinct (map fst (orders (level_or_empty it b)))"
    and "sorted_wrt (<) (map (m_OrderID \<circ> snd) (orders (level_or_empty it b)))"
    and "map_of (orders (level_or_empty it b)) n = deref \<lparr>list_it = n, level_it = it\<rparr> b"
  using book_wfD(2) [OF assms, of it]
  by (auto simp: level_or_empty_def empty_level_def level_wf_def deref_def split: option.splits)

lemma orders_rested_level [simp]: "orders (rested_level n od f lvl) = orders lvl @ [(n, od)]"
  by (simp add: rested_level_def)

lemma rest_on_book_effect:
  assumes "book_wf b" and "m_Orders b new_id = None" and "rest_on_book new_id od p s f b = Some b'"
  shows "get_level it b' = (if it = (s, p) then Some (rested_level (m_NextNode b) od f (level_or_empty (s, p) b))
      else get_level it b)"
    and "levels s' b' = (if s' = s then assoc_set p (rested_level (m_NextNode b) od f (level_or_empty (s, p) b))
        (try_emplace (side_lt s) p empty_level (levels s b)) else levels s' b)"
    and "m_Orders b' = (m_Orders b)(new_id \<mapsto> \<lparr>list_it = m_NextNode b, level_it = (s, p)\<rparr>)"
    and "m_NextNode b' = m_NextNode b + 1" and "m_OrderCounter b' = m_OrderCounter b"
    and "m_ScratchCounter b' = m_ScratchCounter b"
  using rest_on_book_eq [OF assms(1,2), of od p s f] assms(3) by (metis option.inject)+

lemma node_below_next: "book_wf b \<Longrightarrow> deref e b = Some x \<Longrightarrow> list_it e < m_NextNode b"
  using book_wfD(3) by (auto simp: resting_ok_def)

lemma next_node_unused:
  assumes "book_wf b"
  shows "m_NextNode b \<notin> fst ` set (orders (level_or_empty it b))"
proof
  assume "m_NextNode b \<in> fst ` set (orders (level_or_empty it b))"
  then obtain x where "map_of (orders (level_or_empty it b)) (m_NextNode b) = Some x"
    by (metis map_of_eq_None_iff option.exhaust)
  with node_below_next [OF assms] show False
    unfolding level_or_empty_orders(3) [OF assms] by fastforce
qed

lemma deref_rest_on_book:
  assumes "book_wf b" and "m_Orders b new_id = None" and "rest_on_book new_id od p s f b = Some b'"
  shows "deref e b' = (if e = \<lparr>list_it = m_NextNode b, level_it = (s, p)\<rparr> then Some od else deref e b)"
proof (cases "level_it e = (s, p)")
  case True
  then have e: "e = \<lparr>list_it = list_it e, level_it = (s, p)\<rparr>" by (cases e) auto
  have "deref e b' = map_of (orders (level_or_empty (s, p) b) @ [(m_NextNode b, od)]) (list_it e)"
    using True by (simp add: deref_def rest_on_book_effect(1) [OF assms])
  also have "\<dots> = (if list_it e = m_NextNode b then Some od
      else map_of (orders (level_or_empty (s, p) b)) (list_it e))"
    by (rule map_of_snoc [OF next_node_unused [OF assms(1)]])
  also have "map_of (orders (level_or_empty (s, p) b)) (list_it e) = deref e b"
    unfolding level_or_empty_orders(3) [OF assms(1)] using e by simp
  finally have "deref e b' = (if list_it e = m_NextNode b then Some od else deref e b)" .
  moreover have "e = \<lparr>list_it = m_NextNode b, level_it = (s, p)\<rparr> \<longleftrightarrow> list_it e = m_NextNode b"
    using True by (cases e) auto
  ultimately show ?thesis by simp
next
  case False
  then show ?thesis by (auto simp: deref_def rest_on_book_effect(1) [OF assms])
qed

lemma level_wf_rested:
  assumes "book_wf b" and "\<And>e x. deref e b = Some x \<Longrightarrow> m_OrderID x < m_OrderID od"
  shows "level_wf (rested_level (m_NextNode b) od f (level_or_empty it b))"
proof -
  have "m_OrderID (snd x) < m_OrderID od" if "x \<in> set (orders (level_or_empty it b))" for x
    using that assms(2) level_or_empty_orders(1,3) [OF assms(1)] by (metis map_of_eq_Some_iff prod.collapse)
  then show ?thesis
    using level_or_empty_orders(1,2) [OF assms(1), of it] next_node_unused [OF assms(1)]
    by (auto simp: level_wf_def sorted_wrt_append)
qed

lemma book_wf_rest_on_book:
  assumes "book_wf b" and "m_OrderID od = new_id" and "m_Side od = s" and "m_Price od = p"
    and "m_OrderType od \<noteq> Market" and "m_TimeInForce od \<in> {GTC, Day}" and "m_MatchType od = Standard"
    and "new_id < m_OrderCounter b"
    and fresh: "\<And>e x. deref e b = Some x \<Longrightarrow> m_OrderID x < new_id"
    and rest: "rest_on_book new_id od p s f b = Some b'"
  shows "book_wf b'"
    and "deref e b' = (if e = \<lparr>list_it = m_NextNode b, level_it = (s, p)\<rparr> then Some od else deref e b)"
proof -
  let ?e = "\<lparr>list_it = m_NextNode b, level_it = (s, p)\<rparr>"
  have none: "m_Orders b new_id = None"
    using book_wfD(5) [OF assms(1), of new_id] fresh by (metis less_irrefl option.exhaust)
  note fr = rest_on_book_effect [OF assms(1) none rest]
  show d: "deref e b' = (if e = ?e then Some od else deref e b)" for e
    by (rule deref_rest_on_book [OF assms(1) none rest])
  have ks: "keys_sorted b'"
    using book_wfD(1) [OF assms(1)]
    by (auto simp: keys_sorted_def fr(2) side_map.sorted_try_emplace)
  have lw: "get_level it b' = Some l \<Longrightarrow> level_wf l" for it l
    using book_wfD(2) [OF assms(1)] level_wf_rested [OF assms(1), of od] fresh assms(2)
    by (auto simp: fr(1) split: if_splits)
  have ok: "resting_ok e x b' \<and> m_Orders b' (m_OrderID x) = Some e" if "deref e b' = Some x" for e x
  proof (cases "e = ?e")
    case True
    with that assms(2-8) show ?thesis by (auto simp: d resting_ok_def fr(3-))
  next
    case False
    with that have "deref e b = Some x" by (simp add: d)
    with book_wfD(3,4) [OF assms(1)] fresh [of e x] show ?thesis
      by (auto simp: resting_ok_def fr(3-) less_Suc_eq)
  qed
  have ix: "\<exists>x. deref e b' = Some x \<and> m_OrderID x = oid" if "m_Orders b' oid = Some e" for e oid
  proof (cases "oid = new_id")
    case True
    with that assms(2) show ?thesis by (auto simp: d fr(3-))
  next
    case False
    with that have "m_Orders b oid = Some e" by (simp add: fr(3-))
    from book_wfD(5) [OF assms(1) this] obtain x where "deref e b = Some x" "m_OrderID x = oid" by blast
    with node_below_next [OF assms(1), of e x] show ?thesis by (force simp: d)
  qed
  show "book_wf b'"
    using ks lw ok ix book_wfD(6) [OF assms(1)] unfolding book_wf_def fr(3-) by blast
qed


text \<open>The specification of insertion by price, then time: behind every order of equal or
  better price, in front of every order of worse price.\<close>

fun insert_order :: "Side \<Rightarrow> Order \<Rightarrow> Order list \<Rightarrow> Order list" where
  "insert_order s od [] = [od]"
| "insert_order s od (x # xs) =
     (if side_lt s (m_Price od) (m_Price x) then od # x # xs else x # insert_order s od xs)"

lemma insert_order_split:
  assumes "\<And>x. x \<in> set as \<Longrightarrow> \<not> side_lt s (m_Price od) (m_Price x)"
    and "\<And>x. x \<in> set bs \<Longrightarrow> side_lt s (m_Price od) (m_Price x)"
  shows "insert_order s od (as @ bs) = as @ od # bs"
  using assms
proof (induction as)
  case Nil
  then show ?case by (cases bs) auto
qed auto

lemma set_insert_order [simp]: "set (insert_order s od xs) = insert od (set xs)"
  by (induction s od xs rule: insert_order.induct) auto

abbreviation side_orders :: "(Price \<times> LevelData) list \<Rightarrow> Order list" where
  "side_orders ls \<equiv> concat (map (\<lambda>(_, lvl). map snd (orders lvl)) ls)"

lemma side_orders_price:
  assumes "book_wf b" and "set ls \<subseteq> set (levels s b)" and "x \<in> set (side_orders ls)"
  shows "m_Price x \<in> fst ` set ls"
proof -
  from assms(3) obtain p lvl n where pl: "(p, lvl) \<in> set ls" "(n, x) \<in> set (orders lvl)"
    by auto
  with assms(2) have "m_Price x = p"
    using level_orders_ok(3) [OF assms(1), of p lvl s n x] by blast
  with pl(1) show ?thesis by force
qed

lemma levels_rested:
  assumes "book_wf b"
  obtains ys lvl zs where
    "levels s b = ys @ zs \<and> lvl = empty_level \<or> levels s b = ys @ (p, lvl) # zs"
    and "level_or_empty (s, p) b = lvl"
    and "\<And>L. assoc_set p L (try_emplace (side_lt s) p empty_level (levels s b)) = ys @ (p, L) # zs"
    and "\<And>q. q \<in> fst ` set ys \<Longrightarrow> side_lt s q p" and "\<And>q. q \<in> fst ` set zs \<Longrightarrow> side_lt s p q"
proof -
  have sorted: "sorted_wrt (side_lt s) (map fst (levels s b))"
    using book_wfD(1) [OF assms] by (simp add: keys_sorted_def)
  show thesis
  proof (cases "map_of (levels s b) p")
    case None
    from side_map.try_emplace_absent [OF sorted None, of empty_level] obtain ys zs
      where *: "levels s b = ys @ zs"
        "try_emplace (side_lt s) p empty_level (levels s b) = ys @ (p, empty_level) # zs"
        "\<forall>q\<in>fst ` set ys. side_lt s q p" "\<forall>q\<in>fst ` set zs. side_lt s p q"
      by blast
    then have "p \<notin> fst ` set ys" using side_map.irrefl by blast
    moreover have "level_or_empty (s, p) b = empty_level"
      using None by (simp add: level_or_empty_def get_level_def)
    ultimately show thesis
      using * by (intro that [of ys zs empty_level]) (auto simp: assoc_set_split)
  next
    case (Some lvl)
    from side_map.sorted_distinct [OF sorted] Some obtain ys zs
      where *: "levels s b = ys @ (p, lvl) # zs" "p \<notin> fst ` set ys"
      by (rule assoc_erase_split)
    with sorted have "\<forall>q\<in>fst ` set ys. side_lt s q p" "\<forall>q\<in>fst ` set zs. side_lt s p q"
      by (auto simp: sorted_wrt_append)
    then show thesis
      using * Some side_map.try_emplace_present [OF sorted Some, of empty_level]
      by (intro that [of ys zs lvl]) (auto simp: assoc_set_split level_or_empty_def get_level_def)
  qed
qed

lemma queue_rest_on_book:
  assumes "book_wf b" and "m_Orders b new_id = None" and "m_Price od = p"
    and "rest_on_book new_id od p s f b = Some b'"
  shows "queue s b' = insert_order s od (queue s b)"
    and "s' \<noteq> s \<Longrightarrow> queue s' b' = queue s' b"
proof -
  note lv = rest_on_book_effect(2) [OF assms(1,2,4)]
  show "s' \<noteq> s \<Longrightarrow> queue s' b' = queue s' b" by (simp add: queue_def lv)
  from levels_rested [OF assms(1), of s p] obtain ys lvl zs where *:
    "levels s b = ys @ zs \<and> lvl = empty_level \<or> levels s b = ys @ (p, lvl) # zs"
    "level_or_empty (s, p) b = lvl"
    "\<And>L. assoc_set p L (try_emplace (side_lt s) p empty_level (levels s b)) = ys @ (p, L) # zs"
    "\<And>q. q \<in> fst ` set ys \<Longrightarrow> side_lt s q p" "\<And>q. q \<in> fst ` set zs \<Longrightarrow> side_lt s p q"
    by metis
  have old: "queue s b = (side_orders ys @ map snd (orders lvl)) @ side_orders zs"
    using *(1) by (auto simp: queue_def empty_level_def)
  have new: "queue s b' = (side_orders ys @ map snd (orders lvl)) @ od # side_orders zs"
    by (simp add: queue_def lv *(2,3))
  have sub: "set ys \<subseteq> set (levels s b)" "set zs \<subseteq> set (levels s b)"
    using *(1) by auto
  have "\<not> side_lt s (m_Price od) (m_Price x)" if "x \<in> set (side_orders ys @ map snd (orders lvl))" for x
  proof (cases "x \<in> set (side_orders ys)")
    case True
    from side_orders_price [OF assms(1) sub(1) True] *(4) show ?thesis
      using side_map.asym assms(3) by metis
  next
    case False
    with that have "x \<in> set (map snd (orders lvl))" unfolding set_append by blast
    then have "x \<in> snd ` set (orders lvl)" by simp
    with *(1) level_orders_ok(3) [OF assms(1), of p lvl s] have "m_Price x = p"
      by (auto simp: empty_level_def)
    with side_map.irrefl assms(3) show ?thesis by metis
  qed
  moreover have "side_lt s (m_Price od) (m_Price x)" if "x \<in> set (side_orders zs)" for x
    using side_orders_price [OF assms(1) sub(2) that] *(5) assms(3) by metis
  ultimately show "queue s b' = insert_order s od (queue s b)"
    unfolding old new by (intro insert_order_split [symmetric])
qed

end
