(* ===== verification/Match_Spec.thy ===== *)
theory Match_Spec
  imports Book_Updates
begin

text \<open>
  What \<^verbatim>\<open>PriceTimePriority::Match\<close> promises. \<open>fill_queue\<close> is the specification: it walks
  the priority queue of the other side from the front, takes from each order what it can, and
  stops when the incoming quantity is used up, the queue is empty or the price is out of reach.
  \<open>trade_events\<close> is the event of each fill as the code writes it. \<open>Match_refines\<close> shows that
  on every well-formed book the loop returns and that its result, on the pointer-level state,
  is the one of \<open>fill_queue\<close>.
\<close>

subsection \<open>The specification\<close>

fun fill_queue ::
  "(Price \<Rightarrow> bool) \<Rightarrow> Quantity \<Rightarrow> Order list \<Rightarrow> Quantity \<times> (Order \<times> Quantity) list \<times> Order list"
where
  "fill_queue blocked q [] = (q, [], [])"
| "fill_queue blocked q (t # ts) =
     (if q = 0 \<or> blocked (m_Price t) then (q, [], t # ts)
      else if m_RemainingQuantity t \<le> q then
        (let (q', fs, ts') = fill_queue blocked (q - m_RemainingQuantity t) ts
         in (q', (t, m_RemainingQuantity t) # fs, ts'))
      else (0, [(t, q)], t\<lparr>m_RemainingQuantity := m_RemainingQuantity t - q\<rparr> # ts))"

fun trade_events ::
  "ClientID \<Rightarrow> MatchType \<Rightarrow> TradeID \<Rightarrow> (Order \<times> Quantity) list \<Rightarrow> EventPayload list" where
  "trade_events cid mt k [] = []"
| "trade_events cid mt k ((t, q) # fs) =
     MakeTrade (mk_Trade k cid (m_ClientID t) (m_Price t) q (m_Side t) mt)
       # trade_events cid mt (k + 1) fs"

lemma length_trade_events [simp]: "length (trade_events cid mt k fs) = length fs"
  by (induction cid mt k fs rule: trade_events.induct) simp_all

subsection \<open>The top of a side\<close>

lemma queue_Nil_iff:
  assumes "book_wf b"
  shows "queue s b = [] \<longleftrightarrow> levels s b = []"
proof
  assume "queue s b = []"
  show "levels s b = []"
  proof (cases "levels s b")
    case (Cons x xs)
    obtain p lvl where x: "x = (p, lvl)" by force
    with Cons have "orders lvl \<noteq> []"
      using book_wfD(2) [OF assms level_orders_ok(1) [OF assms, of p lvl s]] by (auto simp: level_wf_def)
    with \<open>queue s b = []\<close> Cons x show ?thesis by (simp add: queue_def)
  qed
qed (simp add: queue_def)

lemma front_of_Nil: "book_wf b \<Longrightarrow> queue s b = [] \<Longrightarrow> front_of s b = Some None"
  by (simp add: queue_Nil_iff front_of_def)

lemma front_of_Cons:
  assumes "book_wf b" and "queue s b = t # ts"
  obtains e where "front_of s b = Some (Some e)" and "deref e b = Some t" and "fst (level_it e) = s"
proof -
  from assms(2) have "levels s b \<noteq> []" using queue_Nil_iff [OF assms(1), of s] by auto
  then obtain p lvl ls where l: "levels s b = (p, lvl) # ls" by (cases "levels s b") auto
  then have mem: "(p, lvl) \<in> set (levels s b)" by simp
  then have "orders lvl \<noteq> []"
    using book_wfD(2) [OF assms(1) level_orders_ok(1) [OF assms(1)]] by (auto simp: level_wf_def)
  then obtain n t' os where o': "orders lvl = (n, t') # os" by (cases "orders lvl") auto
  with l assms(2) have "t' = t" by (simp add: queue_def)
  let ?e = "\<lparr>list_it = n, level_it = (s, p)\<rparr>"
  have "front_of s b = Some (Some ?e)" using l o' by (simp add: front_of_def)
  moreover have "deref ?e b = Some t"
    using level_orders_ok(2) [OF assms(1) mem, of n t] o' \<open>t' = t\<close> by simp
  ultimately show thesis by (rule that) simp
qed

lemma front_of_eq_queue:
  "book_wf b \<Longrightarrow> (\<exists>e. front_of s b = Some e \<and> (case e of None \<Rightarrow> queue s b = []
      | Some e \<Rightarrow> \<exists>ts. deref e b = Some (hd (queue s b)) \<and> queue s b = hd (queue s b) # ts))"
  by (cases "queue s b") (auto simp: front_of_Nil elim: front_of_Cons)

subsection \<open>The queue after a write\<close>

lemma side_orders_assoc_set:
  "map_of ls p = Some lvl \<Longrightarrow> map snd (orders lvl') = map snd (orders lvl) \<Longrightarrow>
   side_orders (assoc_set p lvl' ls) = side_orders ls"
  by (induction p lvl' ls rule: assoc_set.induct) (auto split: if_splits)

lemma queue_put_volume:
  assumes "get_level it b = Some lvl"
  shows "queue s (put_level it (lvl\<lparr>volume := v\<rparr>) b) = queue s b"
  using assms by (auto simp: queue_def levels_put_level get_level_def intro: side_orders_assoc_set)

lemma map_snd_assoc_set_id:
  assumes "map_of xs k = Some v0" and "distinct (map (m_OrderID \<circ> snd) xs)"
  shows "map snd (assoc_set k v xs) = map (\<lambda>x. if m_OrderID x = m_OrderID v0 then v else x) (map snd xs)"
  using assms
proof (induction k v xs rule: assoc_set.induct)
  case (2 k v k' v' xs)
  show ?case
  proof (cases "k' = k")
    case True
    with 2 have "v' = v0" "m_OrderID v0 \<notin> m_OrderID ` snd ` set xs" by (auto simp: image_image comp_def)
    then have "map (\<lambda>x. if m_OrderID x = m_OrderID v0 then v else x) (map snd xs) = map snd xs"
      by (intro map_idI) (auto simp: image_iff)
    with True \<open>v' = v0\<close> show ?thesis by simp
  next
    case False
    with 2 have "(k, v0) \<in> set xs" by (auto dest: map_of_SomeD)
    with 2 False have "m_OrderID v' \<noteq> m_OrderID v0" by (force simp: image_iff)
    with 2 False show ?thesis by simp
  qed
qed simp

lemma queue_store:
  assumes "book_wf b" and "deref e b = Some od0" and "store e od b = Some b'"
  shows "queue s b' = map (\<lambda>x. if m_OrderID x = m_OrderID od0 then od else x) (queue s b)"
proof -
  let ?f = "\<lambda>x. if m_OrderID x = m_OrderID od0 then od else x"
  from assms(2) obtain lvl where lvl: "get_level (level_it e) b = Some lvl"
    and st: "store e od b = Some (put_level (level_it e)
           (lvl\<lparr>orders := assoc_set (list_it e) od (orders lvl)\<rparr>) b)"
    by (rule store_eq)
  let ?l = "lvl\<lparr>orders := assoc_set (list_it e) od (orders lvl)\<rparr>"
  have b': "levels s b' = (if s = fst (level_it e) then assoc_set (snd (level_it e)) ?l (levels s b)
      else levels s b)"
    using st assms(3) by (simp add: levels_put_level)
  have other: "map ?f xs = xs" if "\<forall>x\<in>set xs. m_OrderID x \<noteq> m_OrderID od0" for xs
    using that by (intro map_idI) auto
  show ?thesis
  proof (cases "s = fst (level_it e)")
    case False
    have "\<forall>x\<in>set (queue s b). m_OrderID x \<noteq> m_OrderID od0"
      by (rule queue_other_ids [OF assms(1,2) False])
    with other show ?thesis using False b' by (simp add: queue_def)
  next
    case True
    have "distinct (map fst (levels s b))" by (rule keys_sorted_distinct [OF book_wfD(1) [OF assms(1)]])
    moreover have "map_of (levels s b) (snd (level_it e)) = Some lvl"
      using lvl True by (simp add: get_level_def)
    ultimately obtain ys zs where lev: "levels s b = ys @ (snd (level_it e), lvl) # zs"
      and nys: "snd (level_it e) \<notin> fst ` set ys"
      by (rule assoc_erase_split)
    have mo: "map_of (orders lvl) (list_it e) = Some od0"
      using assms(2) lvl by (simp add: deref_def)
    then have "od0 \<in> snd ` set (orders lvl)" by (force dest: map_of_SomeD)
    have dist: "distinct (map m_OrderID (side_orders ys @ map snd (orders lvl) @ side_orders zs))"
      using queue_distinct [OF assms(1), of s] by (simp add: queue_def lev)
    have ids: "m_OrderID od0 \<notin> m_OrderID ` set as \<and> m_OrderID od0 \<notin> m_OrderID ` set cs"
      if "distinct (map m_OrderID (as @ map snd (orders lvl) @ cs))" for as cs
      using that \<open>od0 \<in> snd ` set (orders lvl)\<close> by auto
    have "map ?f (side_orders ys) = side_orders ys" "map ?f (side_orders zs) = side_orders zs"
      using ids [OF dist] by (intro other; metis imageI)+
    moreover have "map snd (orders ?l) = map ?f (map snd (orders lvl))"
      using map_snd_assoc_set_id [OF mo, of od] dist by simp
    ultimately show ?thesis
      by (simp add: queue_def b' True [symmetric] lev assoc_set_split [OF nys])
  qed
qed


subsection \<open>One iteration\<close>

lemma match_step_done:
  "m_RemainingQuantity order = 0 \<Longrightarrow> match_step order b = Some (False, order, b)"
  by (simp add: match_step_def)

lemma top_of_book:
  "(case side of Buy \<Rightarrow> GetBestAsk b | Sell \<Rightarrow> GetBestBid b) = front_of (opposite side) b"
  by (cases side) (simp_all add: GetBestAsk_def GetBestBid_def)

lemma match_step_empty:
  assumes "book_wf b" and "queue (opposite (m_Side order)) b = []"
  shows "match_step order b = Some (False, order, b)"
  using front_of_Nil [OF assms] by (simp add: match_step_def top_of_book)

lemma match_step_blocked:
  assumes "book_wf b" and "queue (opposite (m_Side order)) b = t # ts"
    and "price_blocked (m_Side order) (m_OrderType order) (m_Price order) (m_Price t)"
  shows "match_step order b = Some (False, order, b)"
proof -
  from front_of_Cons [OF assms(1,2)] obtain e
    where "front_of (opposite (m_Side order)) b = Some (Some e)" "deref e b = Some t" .
  with assms(3) show ?thesis by (simp add: match_step_def top_of_book)
qed

lemma Fill_isFilled:
  "q \<le> m_RemainingQuantity t \<Longrightarrow> isFilled (Fill q t) \<longleftrightarrow> q = m_RemainingQuantity t"
  by (auto simp: isFilled_def Fill_min)

lemma match_step_exec:
  assumes "book_wf b" and "queue (opposite (m_Side order)) b = t # ts"
    and "m_RemainingQuantity order \<noteq> 0"
    and "\<not> price_blocked (m_Side order) (m_OrderType order) (m_Price order) (m_Price t)"
    and q: "q = min (m_RemainingQuantity order) (m_RemainingQuantity t)"
  obtains e lvl1 lvl2 b1 b2 where
    "deref e b = Some t" and "fst (level_it e) = opposite (m_Side order)"
    and "store e (Fill q t) b = Some b1" and "book_wf b1" and "get_level (level_it e) b1 = Some lvl1"
    and "level_it e = (m_Side t, m_Price t)"
    and "RecordFill (m_ClientID order) (m_ClientID t) (m_Price t) q (m_Side t) (m_MatchType order) b1
           = Some b2"
    and "book_wf b2" and "deref e b2 = Some (Fill q t)" and "get_level (level_it e) b2 = Some lvl2"
    and "match_step order b = Some (True, Fill q order,
           if q = m_RemainingQuantity t then cancelled e (Fill q t) lvl2 b2 else b2)"
proof -
  from front_of_Cons [OF assms(1,2)] obtain e
    where e: "front_of (opposite (m_Side order)) b = Some (Some e)" "deref e b = Some t"
      "fst (level_it e) = opposite (m_Side order)" .
  from store_eq [OF e(2)] obtain b1 where b1: "store e (Fill q t) b = Some b1" by metis
  have w1: "book_wf b1" and d1: "deref e' b1 = (if e' = e then Some (Fill q t) else deref e' b)" for e'
    using book_wf_store [OF assms(1) e(2) b1] by simp_all
  then have "deref e b1 = Some (Fill q t)" by simp
  then obtain lvl1 where l1: "get_level (level_it e) b1 = Some lvl1" by (auto simp: deref_Some_iff)
  have lit: "level_it e = (m_Side t, m_Price t)"
    using book_wfD(3) [OF assms(1) e(2)] by (simp add: resting_ok_def prod_eq_iff)
  obtain b2 where b2: "RecordFill (m_ClientID order) (m_ClientID t) (m_Price t) q (m_Side t)
      (m_MatchType order) b1 = Some b2"
    using RecordFill_eq [OF w1 l1 [unfolded lit]] by metis
  note rf = RecordFill_wf [OF w1 l1 [unfolded lit] b2]
  have d2: "deref e b2 = Some (Fill q t)" by (simp add: rf(2) d1)
  then obtain lvl2 where l2: "get_level (level_it e) b2 = Some lvl2" by (auto simp: deref_Some_iff)
  have ql: "q \<le> m_RemainingQuantity t" by (simp add: q)
  have "m_Orders b2 (m_OrderID (Fill q t)) = Some e" by (rule book_wfD(4) [OF rf(1) d2])
  then have can: "InternalCancelOrder (m_ClientID t) (m_OrderID t) b2
      = Some (Success, cancelled e (Fill q t) lvl2 b2)"
    using InternalCancelOrder_eq [OF rf(1) _ d2 l2, of "m_OrderID t"] by simp
  have "match_step order b = Some (True, Fill q order,
           if q = m_RemainingQuantity t then cancelled e (Fill q t) lvl2 b2 else b2)"
    using assms(3,4) e(1,2) b1 b2 d2 can Fill_isFilled [OF ql]
    by (simp add: match_step_def top_of_book q [symmetric] Let_def word_gt_0)
  with e(2,3) b1 w1 l1 lit b2 rf(1) d2 l2 show thesis by (rule that)
qed


text \<open>The promise of matching: which orders of the other side were filled by how much, what is
  left of that side, the events of the fills as far as there is room for them, and that nothing
  else of the abstract state changes.\<close>

definition match_result :: "Order \<Rightarrow> OrderBook \<Rightarrow> (Order \<times> Quantity) list \<Rightarrow> Order list \<Rightarrow> OrderBook \<Rightarrow> bool"
where
  "match_result order b fs ts' b' \<longleftrightarrow> book_wf b' \<and>
     queue (opposite (m_Side order)) b' = ts' \<and> queue (m_Side order) b' = queue (m_Side order) b \<and>
     scratch b' = scratch b @ take (room b) (trade_events (m_ClientID order) (m_MatchType order) (m_TradeCounter b) fs) \<and>
     room b' = room b - length fs \<and> m_OrderCounter b' = m_OrderCounter b"

lemma match_result_remaining [simp]:
  "match_result (order\<lparr>m_RemainingQuantity := x\<rparr>) = match_result order"
  by (simp add: fun_eq_iff match_result_def)

lemma match_result_Nil [simp]:
  "match_result order b [] ts b \<longleftrightarrow> book_wf b \<and> queue (opposite (m_Side order)) b = ts"
  by (simp add: match_result_def)

lemma take_trade_events_Cons:
  "take n (trade_events cid mt k ((t, q) # fs)) =
   take n (trade_events cid mt k [(t, q)]) @
   take (n - 1) (trade_events cid mt (if n = 0 then k else k + 1) fs)"
  by (cases n) auto

lemma match_result_Cons:
  assumes "match_result order b [(t, q)] ts b1"
    and "m_TradeCounter b1 = (if room b = 0 then m_TradeCounter b else m_TradeCounter b + 1)"
    and "match_result order b1 fs ts' b'"
  shows "match_result order b ((t, q) # fs) ts' b'"
  using assms
  by (simp add: match_result_def take_trade_events_Cons [of _ "m_ClientID order" "m_MatchType order" _ t _ fs]
      del: trade_events.simps)

text \<open>What executing against the front of the other side's queue does to the queues, before and
  after a filled order is cancelled.\<close>

lemma executed_queue:
  assumes "book_wf b" and "deref e b = Some t" and b1: "store e (Fill q t) b = Some b1"
    and "book_wf b1" and l1: "get_level (m_Side t, m_Price t) b1 = Some lvl1"
    and b2: "RecordFill mk tk (m_Price t) q (m_Side t) mt b1 = Some b2"
  shows "queue s b2 = map (\<lambda>x. if m_OrderID x = m_OrderID t then Fill q t else x) (queue s b)"
proof -
  have "queue s b2 = queue s b1"
    using queue_put_volume [OF l1] RecordFill_wf(3) [OF assms(4) l1 b2] by (simp add: queue_def)
  then show ?thesis by (simp add: queue_store [OF assms(1,2) b1])
qed

lemma executed_front:
  assumes "book_wf b" and "queue (opposite s) b = t # ts" and e: "deref e b = Some t" "fst (level_it e) = opposite s"
    and q2: "\<And>s. queue s b2 = map (\<lambda>x. if m_OrderID x = m_OrderID t then od else x) (queue s b)"
    and id: "m_OrderID od = m_OrderID t" and w2: "book_wf b2" and d2: "deref e b2 = Some od"
    and l2: "get_level (level_it e) b2 = Some lvl2"
  shows "queue (opposite s) b2 = od # ts" and "queue s b2 = queue s b"
    and "queue (opposite s) (cancelled e od lvl2 b2) = ts" and "queue s (cancelled e od lvl2 b2) = queue s b"
proof -
  have nt: "\<forall>x\<in>set ts. m_OrderID x \<noteq> m_OrderID t"
    using queue_distinct [OF assms(1), of "opposite s"] assms(2) by (auto simp: image_iff)
  have ns: "\<forall>x\<in>set (queue s b). m_OrderID x \<noteq> m_OrderID t"
    by (rule queue_other_ids [OF assms(1) e(1)]) (simp add: e(2))
  show opp: "queue (opposite s) b2 = od # ts"
    using nt by (simp add: q2 assms(2) map_idI)
  show same: "queue s b2 = queue s b"
    using ns by (simp add: q2 map_idI)
  note qc = queue_cancelled [OF w2 d2 l2]
  show "queue (opposite s) (cancelled e od lvl2 b2) = ts"
    using nt by (simp add: qc opp id filter_True)
  show "queue s (cancelled e od lvl2 b2) = queue s b"
    using ns by (simp add: qc same id filter_True)
qed

text \<open>What one executing iteration does, in terms of the queues and the events.\<close>

lemma match_step_spec:
  assumes "book_wf b" and "queue (opposite (m_Side order)) b = t # ts"
    and "m_RemainingQuantity order \<noteq> 0"
    and "\<not> price_blocked (m_Side order) (m_OrderType order) (m_Price order) (m_Price t)"
    and q: "q = min (m_RemainingQuantity order) (m_RemainingQuantity t)"
  obtains b' where "match_step order b = Some (True, Fill q order, b')"
    and "match_result order b [(t, q)] (if q = m_RemainingQuantity t then ts else Fill q t # ts) b'"
    and "m_TradeCounter b' = (if room b = 0 then m_TradeCounter b else m_TradeCounter b + 1)"
proof -
  from match_step_exec [OF assms] obtain e lvl1 lvl2 b1 b2 where
    e: "deref e b = Some t" "fst (level_it e) = opposite (m_Side order)" and
    b1: "store e (Fill q t) b = Some b1" and w1: "book_wf b1" and l1: "get_level (level_it e) b1 = Some lvl1" and
    lit: "level_it e = (m_Side t, m_Price t)" and
    b2: "RecordFill (m_ClientID order) (m_ClientID t) (m_Price t) q (m_Side t) (m_MatchType order) b1
           = Some b2" and
    w2: "book_wf b2" and d2: "deref e b2 = Some (Fill q t)" and l2: "get_level (level_it e) b2 = Some lvl2" and
    st: "match_step order b = Some (True, Fill q order,
           if q = m_RemainingQuantity t then cancelled e (Fill q t) lvl2 b2 else b2)" .
  note rf = RecordFill_wf [OF w1 l1 [unfolded lit] b2]
  have fr1: "m_ScratchCounter b1 = m_ScratchCounter b" "scratch b1 = scratch b" "room b1 = room b"
    "m_OrderCounter b1 = m_OrderCounter b" "m_TradeCounter b1 = m_TradeCounter b"
    using b1 by (auto simp: store_def bind_eq_Some_conv book_frame room_def scratch_def)
  have r2: "room b2 = room b - 1"
    using rf(10) fr1(3) book_wfD(6) [OF w1] by (auto simp: room_def)
  note qs = executed_front [OF assms(1,2) e executed_queue [OF assms(1) e(1) b1 w1 l1 [unfolded lit] b2] _ w2 d2 l2]
  have c: "scratch (cancelled e (Fill q t) lvl2 b2) = scratch b2" "room (cancelled e (Fill q t) lvl2 b2) = room b2"
    "m_OrderCounter (cancelled e (Fill q t) lvl2 b2) = m_OrderCounter b2"
    "m_TradeCounter (cancelled e (Fill q t) lvl2 b2) = m_TradeCounter b2"
    by (simp_all add: scratch_def room_def book_frame)
  have "match_result order b [(t, q)] ts (cancelled e (Fill q t) lvl2 b2)"
    "match_result order b [(t, q)] (Fill q t # ts) b2"
    unfolding match_result_def c
    using qs book_wf_cancelled [OF w2 d2 l2] w2 r2 by (simp_all add: rf(5,9) fr1)
  moreover have "m_TradeCounter b2 = (if room b = 0 then m_TradeCounter b else m_TradeCounter b + 1)"
    by (simp add: rf(11) fr1)
  ultimately show thesis
    using st that [of "cancelled e (Fill q t) lvl2 b2"] that [of b2] by (simp add: c split: if_splits)
qed

subsection \<open>The loop\<close>

text \<open>An iteration that does not go on ends the loop; one that does is followed by the rest.\<close>

lemma Match_stop: "match_step order b = Some (False, order', b') \<Longrightarrow> Match order b = Some (order', b')"
  by (simp add: Match.simps [of order b])

lemma Match_go_on: "match_step order b = Some (True, order', b') \<Longrightarrow> Match order b = Match order' b'"
  by (simp add: Match.simps [of order b])

lemma Match_in_part:
  assumes "book_wf b" and "queue (opposite (m_Side order)) b = t # ts"
    and "m_RemainingQuantity order \<noteq> 0"
    and "\<not> price_blocked (m_Side order) (m_OrderType order) (m_Price order) (m_Price t)"
    and "m_RemainingQuantity order < m_RemainingQuantity t"
  shows "\<exists>b'. Match order b = Some (order\<lparr>m_RemainingQuantity := 0\<rparr>, b') \<and>
    match_result order b [(t, m_RemainingQuantity order)]
      (t\<lparr>m_RemainingQuantity := m_RemainingQuantity t - m_RemainingQuantity order\<rparr> # ts) b'"
proof -
  let ?q = "min (m_RemainingQuantity order) (m_RemainingQuantity t)"
  have q: "?q = m_RemainingQuantity order" "?q \<noteq> m_RemainingQuantity t" using assms(5) by (auto simp: min_def)
  from match_step_spec [OF assms(1-4) refl] obtain b1
    where st: "match_step order b = Some (True, Fill ?q order, b1)"
      and r1: "match_result order b [(t, ?q)] (if ?q = m_RemainingQuantity t then ts else Fill ?q t # ts) b1" .
  have "Fill ?q order = order\<lparr>m_RemainingQuantity := 0\<rparr>"
    "Fill ?q t = t\<lparr>m_RemainingQuantity := m_RemainingQuantity t - ?q\<rparr>"
    by (simp_all only: Fill_min [OF min.cobounded1] Fill_min [OF min.cobounded2]) (simp add: q(1))
  with st r1 q show ?thesis
    using Match_go_on [OF st] by (auto simp: Match_stop match_step_done)
qed

lemma Match_result:
  assumes "book_wf b"
    and "fill_queue (price_blocked (m_Side order) (m_OrderType order) (m_Price order))
           (m_RemainingQuantity order) (queue (opposite (m_Side order)) b) = (q', fs, ts')"
  shows "\<exists>b'. Match order b = Some (order\<lparr>m_RemainingQuantity := q'\<rparr>, b') \<and> match_result order b fs ts' b'"
  using assms
proof (induction "queue (opposite (m_Side order)) b" arbitrary: b order fs)
  case Nil
  then show ?case
    by (auto simp: Match_stop match_step_empty)
next
  case (Cons t ts)
  let ?bl = "price_blocked (m_Side order) (m_OrderType order) (m_Price order)"
  let ?q = "min (m_RemainingQuantity order) (m_RemainingQuantity t)"
  note qb = Cons.hyps(2) [symmetric]
  consider (stop) "m_RemainingQuantity order = 0 \<or> ?bl (m_Price t)"
    | (part) "m_RemainingQuantity order \<noteq> 0" "\<not> ?bl (m_Price t)"
        "\<not> m_RemainingQuantity t \<le> m_RemainingQuantity order"
    | (full) "m_RemainingQuantity order \<noteq> 0" "\<not> ?bl (m_Price t)"
        "m_RemainingQuantity t \<le> m_RemainingQuantity order"
    by blast
  then show ?case
  proof cases
    case stop
    with Cons.prems have "match_step order b = Some (False, order, b)"
      by (metis match_step_done match_step_blocked qb)
    with stop Cons.prems qb show ?thesis by (auto simp: Match_stop)
  next
    case part
    with Match_in_part [OF Cons.prems(1) qb part(1,2)] Cons.prems(2) show ?thesis
      by (simp add: qb not_le)
  next
    case full
    then have qt: "?q = m_RemainingQuantity t" by (simp add: min_def)
    from match_step_spec [OF Cons.prems(1) qb full(1,2) refl] obtain b1
      where st: "match_step order b = Some (True, Fill ?q order, b1)"
        and r1: "match_result order b [(t, ?q)] (if ?q = m_RemainingQuantity t then ts else Fill ?q t # ts) b1"
        and t1: "m_TradeCounter b1 = (if room b = 0 then m_TradeCounter b else m_TradeCounter b + 1)" .
    have o1: "Fill ?q order = order\<lparr>m_RemainingQuantity := m_RemainingQuantity order - ?q\<rparr>"
      by (rule Fill_min) simp
    obtain fs1 where f1: "fill_queue ?bl (m_RemainingQuantity order - m_RemainingQuantity t) ts = (q', fs1, ts')"
      and fs: "fs = (t, m_RemainingQuantity t) # fs1"
      using Cons.prems(2) full unfolding qb by (auto split: prod.splits)
    have "book_wf b1" "ts = queue (opposite (m_Side order)) b1"
      using r1 qt by (simp_all add: match_result_def)
    with Cons.hyps(1) [of "Fill ?q order" b1 fs1] f1 obtain b' where
      "Match (Fill ?q order) b1 = Some (order\<lparr>m_RemainingQuantity := q'\<rparr>, b')" "match_result order b1 fs1 ts' b'"
      by (auto simp: o1 [unfolded qt] qt)
    with match_result_Cons [OF _ t1] r1 Match_go_on [OF st] show ?thesis by (auto simp: fs qt)
  qed
qed

lemma Match_refines:
  assumes "book_wf b"
    and "fill_queue (price_blocked (m_Side order) (m_OrderType order) (m_Price order))
           (m_RemainingQuantity order) (queue (opposite (m_Side order)) b) = (q', fs, ts')"
  obtains b' where "Match order b = Some (order\<lparr>m_RemainingQuantity := q'\<rparr>, b')" and "book_wf b'"
    and "queue (opposite (m_Side order)) b' = ts'"
    and "queue (m_Side order) b' = queue (m_Side order) b"
    and "scratch b' = scratch b @ take (room b) (trade_events (m_ClientID order) (m_MatchType order) (m_TradeCounter b) fs)"
    and "room b' = room b - length fs" and "m_OrderCounter b' = m_OrderCounter b"
  using Match_result [OF assms] unfolding match_result_def by blast

subsection \<open>The contract of a matching strategy\<close>

text \<open>\<^verbatim>\<open>OrderBook\<close> is a template over its matching strategy. What its operations rely on is
  this law, which price-time priority obeys.\<close>

locale matching_strategy =
  fixes matching :: "Order \<Rightarrow> OrderBook \<Rightarrow> (Order \<times> OrderBook) option"
  assumes matching_fills:
    "book_wf b \<Longrightarrow>
     fill_queue (price_blocked (m_Side order) (m_OrderType order) (m_Price order))
       (m_RemainingQuantity order) (queue (opposite (m_Side order)) b) = (q', fs, ts') \<Longrightarrow>
     \<exists>b'. matching order b = Some (order\<lparr>m_RemainingQuantity := q'\<rparr>, b') \<and> match_result order b fs ts' b'"

interpretation price_time: matching_strategy Match
  by unfold_locales (rule Match_result)

subsection \<open>Facts about filling\<close>

definition resting_total :: "Order list \<Rightarrow> nat" where
  "resting_total ts = (\<Sum>t\<leftarrow>ts. unat (m_RemainingQuantity t))"

definition filled :: "(Order \<times> Quantity) list \<Rightarrow> nat" where
  "filled fs = (\<Sum>f\<leftarrow>fs. unat (snd f))"

lemma resting_total_simps [simp]:
  "resting_total [] = 0" "resting_total (t # ts) = unat (m_RemainingQuantity t) + resting_total ts"
  "resting_total (as @ bs) = resting_total as + resting_total bs"
  by (simp_all add: resting_total_def)

lemma filled_simps [simp]:
  "filled [] = 0" "filled (f # fs) = unat (snd f) + filled fs" "filled (as @ bs) = filled as + filled bs"
  by (simp_all add: filled_def)

lemma fill_queue_taker:
  "fill_queue blocked q ts = (q', fs, ts') \<Longrightarrow> unat q = unat q' + filled fs"
proof (induction blocked q ts arbitrary: q' fs ts' rule: fill_queue.induct)
  case (2 blocked q t ts)
  then show ?case
    by (fastforce split: if_splits prod.splits simp: unat_minus_le not_le word_le_nat_alt)
qed simp

lemma fill_queue_not_blocked:
  "fill_queue blocked q ts = (q', fs, ts') \<Longrightarrow> (t, r) \<in> set fs \<Longrightarrow> \<not> blocked (m_Price t)"
proof (induction blocked q ts arbitrary: q' fs ts' rule: fill_queue.induct)
  case (2 blocked q t ts)
  then show ?case by (fastforce split: if_splits prod.splits)
qed simp

lemma fill_queue_stops:
  "fill_queue blocked q ts = (q', fs, ts') \<Longrightarrow> q' \<noteq> 0 \<Longrightarrow> ts' \<noteq> [] \<Longrightarrow> blocked (m_Price (hd ts'))"
proof (induction blocked q ts arbitrary: q' fs ts' rule: fill_queue.induct)
  case (2 blocked q t ts)
  then show ?case by (fastforce split: if_splits prod.splits)
qed simp

lemma fill_queue_length: "fill_queue blocked q ts = (q', fs, ts') \<Longrightarrow> length fs \<le> length ts"
proof (induction blocked q ts arbitrary: q' fs ts' rule: fill_queue.induct)
  case (2 blocked q t ts)
  then show ?case by (fastforce split: if_splits prod.splits)
qed simp

text \<open>Strict priority: the orders in front are filled completely, at most one order, the
  last, is filled in part, and what is behind it is untouched.\<close>

definition full_fills :: "Order list \<Rightarrow> (Order \<times> Quantity) list" where
  "full_fills ts = map (\<lambda>t. (t, m_RemainingQuantity t)) ts"

lemma full_fills_Cons [simp]: "full_fills (t # ds) = (t, m_RemainingQuantity t) # full_fills ds"
  by (simp add: full_fills_def)

lemma fill_queue_priority:
  assumes "fill_queue blocked q ts = (q', fs, ts')"
  shows "(\<exists>done. ts = done @ ts' \<and> fs = full_fills done) \<or>
     (\<exists>done t r rest. ts = done @ t # rest \<and> fs = full_fills done @ [(t, r)] \<and> q' = 0 \<and>
        0 < r \<and> r < m_RemainingQuantity t \<and>
        ts' = t\<lparr>m_RemainingQuantity := m_RemainingQuantity t - r\<rparr> # rest)"
  using assms
proof (induction blocked q ts arbitrary: q' fs ts' rule: fill_queue.induct)
  case (2 blocked q t ts)
  consider (stop) "q = 0 \<or> blocked (m_Price t)"
    | (full) "q \<noteq> 0" "\<not> blocked (m_Price t)" "m_RemainingQuantity t \<le> q"
    | (part) "q \<noteq> 0" "\<not> blocked (m_Price t)" "\<not> m_RemainingQuantity t \<le> q"
    by blast
  then show ?case
  proof cases
    case stop
    with 2 show ?thesis by (auto simp: full_fills_def)
  next
    case full
    then obtain fs1 where f: "fill_queue blocked (q - m_RemainingQuantity t) ts = (q', fs1, ts')"
      and fs: "fs = (t, m_RemainingQuantity t) # fs1"
      using 2 by (auto split: prod.splits)
    from "2.IH" [OF _ _ f] full show ?thesis
      unfolding fs by (metis append_Cons full_fills_Cons)
  next
    case part
    with 2 have "q' = 0" "fs = full_fills [] @ [(t, q)]"
      "ts' = t\<lparr>m_RemainingQuantity := m_RemainingQuantity t - q\<rparr> # ts"
      by (auto simp: full_fills_def)
    with part show ?thesis
      by (intro disjI2 exI [of _ "[]"] exI [of _ t] exI [of _ q] exI [of _ ts]) (auto simp: word_gt_0)
  qed
qed (simp add: full_fills_def)


lemma filled_full_fills [simp]: "filled (full_fills ts) = resting_total ts"
  by (induction ts) (simp_all add: full_fills_def)

lemma fill_queue_makers:
  assumes "fill_queue blocked q ts = (q', fs, ts')"
  shows "resting_total ts = resting_total ts' + filled fs"
  using fill_queue_priority [OF assms] by (auto simp: unat_minus_le word_less_nat_alt word_le_nat_alt)

lemma resting_total_concat:
  "resting_total (concat xss) = (\<Sum>xs\<leftarrow>xss. resting_total xs)"
  by (induction xss) simp_all

text \<open>How much an incoming order can take: the queue up to the first price out of reach.\<close>

definition reachable_quantity :: "(Price \<Rightarrow> bool) \<Rightarrow> Order list \<Rightarrow> nat" where
  "reachable_quantity blocked ts = resting_total (takeWhile (\<lambda>t. \<not> blocked (m_Price t)) ts)"

lemma fill_queue_amount:
  "fill_queue blocked q ts = (q', fs, ts') \<Longrightarrow> filled fs = min (unat q) (reachable_quantity blocked ts)"
proof (induction blocked q ts arbitrary: q' fs ts' rule: fill_queue.induct)
  case (2 blocked q t ts)
  consider (zero) "q = 0" | (stop) "blocked (m_Price t)"
    | (full) "q \<noteq> 0" "\<not> blocked (m_Price t)" "m_RemainingQuantity t \<le> q"
    | (part) "q \<noteq> 0" "\<not> blocked (m_Price t)" "\<not> m_RemainingQuantity t \<le> q"
    by blast
  then show ?case
  proof cases
    case full
    then obtain fs1 where f: "fill_queue blocked (q - m_RemainingQuantity t) ts = (q', fs1, ts')"
      and fs: "fs = (t, m_RemainingQuantity t) # fs1"
      using 2 by (auto split: prod.splits)
    have "filled fs1 = min (unat (q - m_RemainingQuantity t)) (reachable_quantity blocked ts)"
      using "2.IH" full f by auto
    with full fs show ?thesis
      by (simp add: reachable_quantity_def unat_minus_le word_le_nat_alt)
  next
    case part
    then have "unat q \<le> unat (m_RemainingQuantity t)" by (simp add: word_le_nat_alt)
    with part 2 show ?thesis by (auto simp: reachable_quantity_def)
  qed (use 2 in \<open>auto simp: reachable_quantity_def\<close>)
qed (simp add: reachable_quantity_def)

subsection \<open>Invariants of the loop\<close>

lemma Match_invariant:
  assumes "Match order b = Some (order', b')" and "I b"
    and step: "\<And>od b go_on od' b'. I b \<Longrightarrow> match_step od b = Some (go_on, od', b') \<Longrightarrow> I b'"
  shows "I b'"
proof -
  have "I b \<longrightarrow> I (snd r)" if "Match order b = Some r" for r
    using that
  proof (rule Match.raw_induct [rotated])
    fix M :: "Order \<Rightarrow> OrderBook \<Rightarrow> (Order \<times> OrderBook) option" and od b r
    assume ih: "\<And>od b r. M od b = Some r \<Longrightarrow> I b \<longrightarrow> I (snd r)"
    assume "(do { (go_on, order', b') \<leftarrow> match_step od b;
        if go_on then M order' b' else Some (order', b') }) = Some r"
    then obtain go_on od' b' where st: "match_step od b = Some (go_on, od', b')"
      and r: "(if go_on then M od' b' else Some (od', b')) = Some r"
      by (auto simp: bind_eq_Some_conv)
    show "I b \<longrightarrow> I (snd r)"
    proof
      assume "I b"
      with st have "I b'" by (rule step [rotated])
      with r ih [of od' b' r] show "I (snd r)" by (cases go_on) auto
    qed
  qed
  with assms(1,2) show ?thesis by fastforce
qed

end
