(* ===== verification/Book_Spec.thy ===== *)
theory Book_Spec
  imports Match_Spec
begin

text \<open>
  The abstract specification of the order book and the refinement proof.

  The abstract state is the pair of priority queues (\<open>queues\<close>) and the next order id;
  volumes, list nodes, iterators and the event array are gone. \<open>spec_add\<close>, \<open>spec_cancel\<close>,
  \<open>spec_modify\<close> and \<open>spec_apply\<close> say what each command does to it and which events it
  produces. The one thing they take from the outside is the verdict of the liquidity scan of a
  fill-or-kill order (\<open>illiquid\<close>), which the code computes from the volumes; the theory on
  volumes says when that verdict is right. The lemmas \<open>InternalAddOrder_refines\<close>,
  \<open>InternalCancelOrder_refines\<close>, \<open>InternalModifyOrder_refines\<close> and \<open>Apply_refines\<close> show that
  the pointer-level operations implement them, branch by branch, and that \<open>Apply\<close> is
  undefined exactly when a command produces more events than the scratch array holds.
\<close>

type_synonym queues = "Side \<Rightarrow> Order list"

subsection \<open>Specifications of the operations\<close>

definition spec_rejects_post_only :: "Price \<Rightarrow> Side \<Rightarrow> queues \<Rightarrow> bool" where
  "spec_rejects_post_only p side qs \<longleftrightarrow>
     (case qs (opposite side) of [] \<Rightarrow> False | t # _ \<Rightarrow> \<not> price_blocked side Limit p (m_Price t))"

definition spec_add ::
  "TimeNs \<Rightarrow> ClientID \<Rightarrow> Price \<Rightarrow> Quantity \<Rightarrow> Side \<Rightarrow> OrderType \<Rightarrow> TimeInForce \<Rightarrow> MatchType \<Rightarrow> Flags
    \<Rightarrow> bool \<Rightarrow> OrderID \<Rightarrow> queues \<Rightarrow> ErrorCode \<times> (Order \<times> Quantity) list \<times> OrderID \<times> queues" where
  "spec_add now cid p q side ot tif mt f illiquid next qs =
     (if mt \<noteq> Standard then (InvalidRequest, [], next, qs)
      else if tif = FOK \<and> illiquid then (InsufficientLiquidity, [], next, qs)
      else if ot = Limit \<and> HasFlag f PostOnly \<and> spec_rejects_post_only p side qs
        then (PostOnlyViolation, [], next, qs)
      else
        (let (q', fs, ts') = fill_queue (price_blocked side ot p) q (qs (opposite side));
             qs1 = qs(opposite side := ts');
             rest = (mk_Order now next cid p q side ot tif mt f)\<lparr>m_RemainingQuantity := q'\<rparr>
         in if q' = 0 \<or> tif = IOC \<or> tif = FOK then (Success, fs, next + 1, qs1)
            else if tif = GTC \<or> tif = Day then
              (if ot = Market then (InvalidOrderCombination, fs, next + 1, qs1)
               else (Success, fs, next + 1, qs1(side := insert_order side rest (qs1 side))))
            else if tif = GTD \<or> tif = ATO then (NotImplemented, fs, next + 1, qs1)
            else (UnsupportedTimeInForce, fs, next + 1, qs1)))"

subsection \<open>InternalAddOrder\<close>

lemma post_only_match_spec:
  assumes "book_wf b"
  shows "post_only_match p side b = spec_rejects_post_only p side (\<lambda>s. queue s b)"
proof (cases "queue (opposite side) b")
  case Nil
  then have "levels (opposite side) b = []" using queue_Nil_iff [OF assms] by blast
  with Nil show ?thesis
    by (cases side) (auto simp: post_only_match_def spec_rejects_post_only_def)
next
  case (Cons t ts)
  then have "levels (opposite side) b \<noteq> []" using queue_Nil_iff [OF assms] by (metis list.distinct(1))
  then obtain q lvl ls where l: "levels (opposite side) b = (q, lvl) # ls"
    by (cases "levels (opposite side) b") auto
  then have mem: "(q, lvl) \<in> set (levels (opposite side) b)" by simp
  have "orders lvl \<noteq> []"
    using book_wfD(2) [OF assms level_orders_ok(1) [OF assms mem]] by (simp add: level_wf_def)
  with Cons l obtain n os where "orders lvl = (n, t) # os"
    by (cases "orders lvl") (auto simp: queue_def)
  then have "(n, t) \<in> set (orders lvl)" by simp
  then have "m_Price t = q" by (rule level_orders_ok(3) [OF assms mem])
  with Cons l show ?thesis
    by (cases side) (auto simp: post_only_match_def spec_rejects_post_only_def price_blocked_def
        signed.not_less)
qed

lemma fresh_id_unused:
  assumes "book_wf b" and "deref e b = Some x"
  shows "m_OrderID x < m_OrderCounter b"
  using book_wfD(3) [OF assms] by (simp add: resting_ok_def)

lemma book_wf_next_id:
  assumes "book_wf b" and "m_OrderCounter b \<noteq> - 1"
  shows "book_wf (b\<lparr>m_OrderCounter := m_OrderCounter b + 1\<rparr>)"
  using assms by (auto simp: book_wf_def keys_sorted_def resting_ok_def word_less_plus_one less_imp_le)

lemma scratch_next_id [simp]:
  "scratch (b\<lparr>m_OrderCounter := c\<rparr>) = scratch b" "room (b\<lparr>m_OrderCounter := c\<rparr>) = room b"
  "queue s (b\<lparr>m_OrderCounter := c\<rparr>) = queue s b"
  by (simp_all add: scratch_def room_def queue_def)

lemma Match_resting_ids:
  assumes "book_wf b'" and "\<And>s x. x \<in> set (queue s b') \<Longrightarrow> m_OrderID x < n" and "deref e b' = Some x"
  shows "m_OrderID x < n"
  using assms in_queue_iff [OF assms(1)] by blast

lemma fill_queue_ids:
  assumes "fill_queue blocked q ts = (q', fs, ts')"
  shows "m_OrderID ` set ts' \<subseteq> m_OrderID ` set ts"
  using fill_queue_priority [OF assms] by (auto simp: image_iff)

text \<open>A matched order that may rest goes to the back of its price level.\<close>

lemma rest_after_matching:
  assumes wf: "book_wf b" and ctr: "m_OrderCounter b = i + 1" "i \<noteq> - 1"
    and fresh: "\<forall>e x. deref e b = Some x \<longrightarrow> m_OrderID x < i" and none: "m_Orders b i = None"
    and od: "od = (mk_Order now i cid p q side ot tif Standard f)\<lparr>m_RemainingQuantity := q'\<rparr>"
    and rest: "ot \<noteq> Market" "tif = GTC \<or> tif = Day"
  shows "\<exists>b'. rest_on_book i od p side f b = Some b' \<and> book_wf b' \<and>
    (\<lambda>s. queue s b') = (\<lambda>s. queue s b)(side := insert_order side od (queue side b)) \<and>
    m_OrderCounter b' = i + 1 \<and> scratch b' = scratch b \<and> room b' = room b"
proof -
  from rest_on_book_eq [OF wf none, of od p side f] obtain b' where
    b': "rest_on_book i od p side f b = Some b'" and
    fr: "m_OrderCounter b' = m_OrderCounter b" "m_ScratchCounter b' = m_ScratchCounter b"
      "t_EventScratch b' = t_EventScratch b" by metis
  have "book_wf b'"
    by (rule book_wf_rest_on_book(1) [OF wf _ _ _ _ _ _ _ _ b'])
      (use rest fresh ctr in \<open>auto simp: od word_less_plus_one\<close>)
  moreover have "(\<lambda>s. queue s b') = (\<lambda>s. queue s b)(side := insert_order side od (queue side b))"
    using queue_rest_on_book [OF wf none _ b'] by (auto simp: fun_eq_iff od)
  ultimately show ?thesis using b' fr ctr(1) by (simp add: scratch_def room_def)
qed

context matching_strategy
begin

text \<open>What the strategy does with a new order that has the next identifier.\<close>

lemma new_order_matched:
  assumes wf: "book_wf b" and ctr: "m_OrderCounter b \<noteq> - 1"
    and f: "fill_queue (price_blocked side ot p) q (queue (opposite side) b) = (q', fs, ts')"
  obtains b2 where "matching (mk_Order now (m_OrderCounter b) cid p q side ot tif mt f)
        (b\<lparr>m_OrderCounter := m_OrderCounter b + 1\<rparr>) =
      Some ((mk_Order now (m_OrderCounter b) cid p q side ot tif mt f)\<lparr>m_RemainingQuantity := q'\<rparr>, b2)"
    and "book_wf b2" and "(\<lambda>s. queue s b2) = (\<lambda>s. queue s b)(opposite side := ts')"
    and "m_OrderCounter b2 = m_OrderCounter b + 1"
    and "scratch b2 = scratch b @ take (room b) (trade_events cid mt (m_TradeCounter b) fs)"
    and "room b2 = room b - length fs"
    and "\<forall>e x. deref e b2 = Some x \<longrightarrow> m_OrderID x < m_OrderCounter b"
    and "m_Orders b2 (m_OrderCounter b) = None"
proof -
  let ?order = "mk_Order now (m_OrderCounter b) cid p q side ot tif mt f"
  let ?b1 = "b\<lparr>m_OrderCounter := m_OrderCounter b + 1\<rparr>"
  have "fill_queue (price_blocked (m_Side ?order) (m_OrderType ?order) (m_Price ?order))
      (m_RemainingQuantity ?order) (queue (opposite (m_Side ?order)) ?b1) = (q', fs, ts')"
    using f by simp
  from matching_fills [OF book_wf_next_id [OF wf ctr] this] obtain b2 where
    M: "matching ?order ?b1 = Some (?order\<lparr>m_RemainingQuantity := q'\<rparr>, b2)" and w2: "book_wf b2" and
    q2: "queue (opposite side) b2 = ts'" "queue side b2 = queue side b" and
    s2: "scratch b2 = scratch b @ take (room b) (trade_events cid mt (m_TradeCounter b) fs)"
      "room b2 = room b - length fs" "m_OrderCounter b2 = m_OrderCounter b + 1"
    by (auto simp: match_result_def)
  have ids: "m_OrderID x < m_OrderCounter b" if "x \<in> set (queue s b2)" for s x
  proof -
    have "m_OrderID x \<in> m_OrderID ` set (queue s b)"
      using that q2 fill_queue_ids [OF f] by (cases "s = side") (auto simp: neq_opposite)
    then show ?thesis using queue_ok(2) [OF wf] by auto
  qed
  have fresh: "m_OrderID x < m_OrderCounter b" if "deref e b2 = Some x" for e x
    by (rule Match_resting_ids [OF w2 _ that]) (rule ids)
  then have "m_Orders b2 (m_OrderCounter b) = None"
    using book_wfD(5) [OF w2, of "m_OrderCounter b"] by (metis less_irrefl option.exhaust)
  moreover have "(\<lambda>s. queue s b2) = (\<lambda>s. queue s b)(opposite side := ts')"
    using q2 by (auto simp: fun_eq_iff neq_opposite)
  ultimately show thesis using that M w2 s2 fresh by blast
qed

text \<open>The part of \<^verbatim>\<open>InternalAddOrder\<close> after its three checks.\<close>

lemma add_order_run:
  assumes "matching (mk_Order now (m_OrderCounter b) cid p q side ot tif Standard f)
        (b\<lparr>m_OrderCounter := m_OrderCounter b + 1\<rparr>) = Some (od, b2)"
    and "\<not> (tif = FOK \<and> fok_rejected p q side ot b)"
    and "\<not> (ot = Limit \<and> flags_and f PostOnly = PostOnly \<and> post_only_match p side b)"
  shows "add_order matching now cid p q side ot tif Standard f b =
    (if m_RemainingQuantity od = 0 \<or> tif = IOC \<or> tif = FOK then Some (Success, b2)
     else if tif = GTC \<or> tif = Day then
       (if ot = Market then Some (InvalidOrderCombination, b2)
        else Option.bind (rest_on_book (m_OrderCounter b) od p side f b2) (\<lambda>b3. Some (Success, b3)))
     else if tif = GTD \<or> tif = ATO then Some (NotImplemented, b2)
     else Some (UnsupportedTimeInForce, b2))"
  using assms(1)
  by (simp add: add_order_def Let_def if_not_P [OF assms(2)] if_not_P [OF assms(3)] split: TimeInForce.split)

lemma add_order_checked:
  assumes wf: "book_wf b" and ctr: "m_OrderCounter b \<noteq> - 1"
    and ok: "\<not> (tif = FOK \<and> fok_rejected p q side ot b)"
      "\<not> (ot = Limit \<and> HasFlag f PostOnly \<and> spec_rejects_post_only p side (\<lambda>s. queue s b))"
    and spec: "spec_add now cid p q side ot tif Standard f (fok_rejected p q side ot b) (m_OrderCounter b)
      (\<lambda>s. queue s b) = (code, fs, next, qs)"
  shows "\<exists>b'. add_order matching now cid p q side ot tif Standard f b = Some (code, b') \<and> book_wf b' \<and>
    (\<lambda>s. queue s b') = qs \<and> m_OrderCounter b' = next \<and>
    scratch b' = scratch b @ take (room b) (trade_events cid Standard (m_TradeCounter b) fs) \<and>
    room b' = room b - length fs"
proof -
  let ?rest = "\<lambda>q'. (mk_Order now (m_OrderCounter b) cid p q side ot tif Standard f)\<lparr>m_RemainingQuantity := q'\<rparr>"
  obtain q' fs1 ts' where f: "fill_queue (price_blocked side ot p) q (queue (opposite side) b) = (q', fs1, ts')"
    by (metis prod_cases3)
  from new_order_matched [OF wf ctr f, of now cid tif Standard f] obtain b2 where
    M: "matching (mk_Order now (m_OrderCounter b) cid p q side ot tif Standard f)
        (b\<lparr>m_OrderCounter := m_OrderCounter b + 1\<rparr>) = Some (?rest q', b2)" and
    b2: "book_wf b2" "(\<lambda>s. queue s b2) = (\<lambda>s. queue s b)(opposite side := ts')"
      "m_OrderCounter b2 = m_OrderCounter b + 1"
      "scratch b2 = scratch b @ take (room b) (trade_events cid Standard (m_TradeCounter b) fs1)"
      "room b2 = room b - length fs1" and
    fresh: "\<forall>e x. deref e b2 = Some x \<longrightarrow> m_OrderID x < m_OrderCounter b" and
    none: "m_Orders b2 (m_OrderCounter b) = None" by metis
  have po: "\<not> (ot = Limit \<and> flags_and f PostOnly = PostOnly \<and> post_only_match p side b)"
    using ok(2) by (simp add: post_only_match_spec [OF wf] post_only_iff)
  note run = add_order_run [OF M ok(1) po]
  note sp = spec [unfolded spec_add_def if_not_P [OF ok(1)] if_not_P [OF ok(2)] f Let_def]
  have side: "((\<lambda>s. queue s b)(opposite side := ts')) side = queue side b"
    by (cases side) simp_all
  show ?thesis
  proof (cases "q' \<noteq> 0 \<and> ot \<noteq> Market \<and> (tif = GTC \<or> tif = Day)")
    case True
    then have ot: "ot \<noteq> Market" and tif: "tif = GTC \<or> tif = Day" by simp_all
    from rest_after_matching [OF b2(1,3) ctr fresh none refl ot tif] obtain b3 where
      "rest_on_book (m_OrderCounter b) (?rest q') p side f b2 = Some b3" "book_wf b3"
      "(\<lambda>s. queue s b3) = (\<lambda>s. queue s b2)(side := insert_order side (?rest q') (queue side b2))"
      "m_OrderCounter b3 = m_OrderCounter b + 1" "scratch b3 = scratch b2" "room b3 = room b2"
      by blast
    with True sp run b2 side fun_cong [OF b2(2), of side] show ?thesis by (auto split: if_splits)
  next
    case False
    with sp run b2 show ?thesis by (auto split: if_splits)
  qed
qed

lemma add_order_refines:
  assumes wf: "book_wf b" and ctr: "m_OrderCounter b \<noteq> - 1"
    and spec: "spec_add now cid p q side ot tif mt f (fok_rejected p q side ot b) (m_OrderCounter b)
      (\<lambda>s. queue s b) = (code, fs, next, qs)"
  shows "\<exists>b'. add_order matching now cid p q side ot tif mt f b = Some (code, b') \<and> book_wf b' \<and>
    (\<lambda>s. queue s b') = qs \<and> m_OrderCounter b' = next \<and>
    scratch b' = scratch b @ take (room b) (trade_events cid mt (m_TradeCounter b) fs) \<and>
    room b' = room b - length fs"
proof -
  note po = post_only_match_spec [OF wf, of p side]
  consider (go) "mt = Standard" "\<not> (tif = FOK \<and> fok_rejected p q side ot b)"
      "\<not> (ot = Limit \<and> HasFlag f PostOnly \<and> spec_rejects_post_only p side (\<lambda>s. queue s b))"
    | (mt) "mt \<noteq> Standard" | (fok) "mt = Standard" "tif = FOK \<and> fok_rejected p q side ot b"
    | (post) "mt = Standard" "\<not> (tif = FOK \<and> fok_rejected p q side ot b)"
        "ot = Limit \<and> HasFlag f PostOnly \<and> spec_rejects_post_only p side (\<lambda>s. queue s b)"
    by blast
  then show ?thesis
  proof cases
    case go
    with spec add_order_checked [OF wf ctr go(2,3)] show ?thesis by simp
  qed (use wf spec po in \<open>auto simp: add_order_def spec_add_def post_only_iff\<close>)
qed

end

lemmas InternalAddOrder_refines = price_time.add_order_refines [folded InternalAddOrder_def]


subsection \<open>InternalCancelOrder\<close>

definition find_order :: "OrderID \<Rightarrow> queues \<Rightarrow> Order option" where
  "find_order oid qs = find (\<lambda>x. m_OrderID x = oid) (qs Buy @ qs Sell)"

definition remove_order :: "OrderID \<Rightarrow> queues \<Rightarrow> queues" where
  "remove_order oid qs = (\<lambda>s. filter (\<lambda>x. m_OrderID x \<noteq> oid) (qs s))"

definition spec_cancel :: "ClientID \<Rightarrow> OrderID \<Rightarrow> queues \<Rightarrow> ErrorCode \<times> queues" where
  "spec_cancel cid oid qs =
     (case find_order oid qs of
        None \<Rightarrow> (InvalidCancel, qs)
      | Some od \<Rightarrow> if m_ClientID od \<noteq> cid then (Unauthorized, qs)
                   else (Success, remove_order oid qs))"

abbreviation queues_of :: "OrderBook \<Rightarrow> queues" where
  "queues_of b \<equiv> (\<lambda>s. queue s b)"

lemma find_unique:
  assumes "x \<in> set xs" and "f x = k" and "\<And>y. y \<in> set xs \<Longrightarrow> f y = k \<Longrightarrow> y = x"
  shows "find (\<lambda>y. f y = k) xs = Some x"
  using assms
proof (induction xs)
  case (Cons a xs)
  show ?case
  proof (cases "f a = k")
    case True
    then have "a = x" by (intro Cons.prems(3)) simp_all
    with True show ?thesis by simp
  next
    case False
    with Cons.prems(1,2) have "x \<in> set xs" by auto
    then have "find (\<lambda>y. f y = k) xs = Some x"
      by (rule Cons.IH [OF _ Cons.prems(2)]) (rule Cons.prems(3), simp_all)
    with False show ?thesis by simp
  qed
qed simp

lemma set_queues:
  assumes "book_wf b"
  shows "x \<in> set (queue Buy b @ queue Sell b) \<longleftrightarrow> (\<exists>e. deref e b = Some x)"
proof -
  have "(\<exists>e. deref e b = Some x) \<longleftrightarrow> (\<exists>s e. fst (level_it e) = s \<and> deref e b = Some x)" by blast
  also have "\<dots> \<longleftrightarrow> (\<exists>s. x \<in> set (queue s b))" by (simp add: in_queue_iff [OF assms])
  also have "\<dots> \<longleftrightarrow> x \<in> set (queue Buy b @ queue Sell b)"
    by (auto, metis Side.exhaust)
  finally show ?thesis ..
qed

text \<open>The hash table of iterators finds exactly the resting orders.\<close>

lemma index_finds:
  assumes "book_wf b"
  shows "find_order oid (queues_of b) =
    (case m_Orders b oid of None \<Rightarrow> None | Some e \<Rightarrow> deref e b)"
proof (cases "m_Orders b oid")
  case None
  have "m_OrderID x \<noteq> oid" if "x \<in> set (queue Buy b @ queue Sell b)" for x
    using that None book_wfD(4) [OF assms] unfolding set_queues [OF assms] by auto
  with None show ?thesis by (auto simp: find_order_def find_None_iff)
next
  case (Some e)
  from book_wfD(5) [OF assms Some] obtain od where od: "deref e b = Some od" "m_OrderID od = oid"
    by blast
  have "find_order oid (queues_of b) = Some od"
    unfolding find_order_def
  proof (rule find_unique)
    show "od \<in> set (queue Buy b @ queue Sell b)" using od(1) set_queues [OF assms] by blast
    fix y assume "y \<in> set (queue Buy b @ queue Sell b)" "m_OrderID y = oid"
    then obtain e' where "deref e' b = Some y" using set_queues [OF assms] by blast
    with \<open>m_OrderID y = oid\<close> od book_wf_same_id [OF assms od(1), of e' y] show "y = od" by simp
  qed (rule od(2))
  with Some od show ?thesis by simp
qed

lemma FindOrder_find: "book_wf b \<Longrightarrow> FindOrder oid b = Some (find_order oid (queues_of b))"
proof (cases "m_Orders b oid")
  case (Some e)
  moreover assume "book_wf b"
  ultimately show ?thesis
    using book_wfD(5) [of b oid e] by (auto simp: FindOrder_def index_finds)
qed (simp add: FindOrder_def index_finds)

lemma InternalCancelOrder_refines:
  assumes "book_wf b" and "spec_cancel cid oid (queues_of b) = (code, qs)"
  shows "\<exists>b'. InternalCancelOrder cid oid b = Some (code, b') \<and> book_wf b' \<and> queues_of b' = qs \<and>
    m_OrderCounter b' = m_OrderCounter b \<and> scratch b' = scratch b \<and> room b' = room b \<and>
    m_TradeCounter b' = m_TradeCounter b"
proof (cases "m_Orders b oid")
  case None
  with assms show ?thesis
    by (auto simp: spec_cancel_def index_finds InternalCancelOrder_def)
next
  case (Some e)
  from book_wfD(5) [OF assms(1) Some] obtain od where od: "deref e b = Some od" "m_OrderID od = oid"
    by blast
  then obtain lvl where lvl: "get_level (level_it e) b = Some lvl" by (auto simp: deref_Some_iff)
  have find: "find_order oid (queues_of b) = Some od" using Some od by (simp add: index_finds [OF assms(1)])
  show ?thesis
  proof (cases "m_ClientID od = cid")
    case True
    let ?b = "cancelled e od lvl b"
    have "InternalCancelOrder cid oid b = Some (Success, ?b)"
      using InternalCancelOrder_eq [OF assms(1) Some od(1) lvl] True by simp
    moreover have "queues_of ?b = remove_order oid (queues_of b)"
      using od(2) by (simp add: fun_eq_iff remove_order_def queue_cancelled [OF assms(1) od(1) lvl])
    moreover have "scratch ?b = scratch b" "room ?b = room b"
      by (simp_all add: scratch_def room_def book_frame)
    moreover have "code = Success" "qs = remove_order oid (queues_of b)"
      using assms(2) find True by (simp_all add: spec_cancel_def)
    ultimately show ?thesis
      using book_wf_cancelled [OF assms(1) od(1) lvl] by (simp add: book_frame)
  next
    case False
    with assms Some od lvl find show ?thesis
      by (auto simp: spec_cancel_def InternalCancelOrder_def)
  qed
qed

subsection \<open>InternalModifyOrder\<close>

definition replace_order :: "OrderID \<Rightarrow> Order \<Rightarrow> queues \<Rightarrow> queues" where
  "replace_order oid od qs = (\<lambda>s. map (\<lambda>x. if m_OrderID x = oid then od else x) (qs s))"

definition spec_modify ::
  "TimeNs \<Rightarrow> ClientID \<Rightarrow> OrderID \<Rightarrow> Price \<Rightarrow> Quantity \<Rightarrow> OrderID \<Rightarrow> queues
    \<Rightarrow> ErrorCode \<times> (Order \<times> Quantity) list \<times> OrderID \<times> queues" where
  "spec_modify now cid oid p q next qs =
     (case find_order oid qs of
        None \<Rightarrow> (InvalidModify, [], next, qs)
      | Some od \<Rightarrow>
          if m_ClientID od \<noteq> cid then (Unauthorized, [], next, qs)
          else if p \<noteq> m_Price od \<or> m_RemainingQuantity od < q then
            (let (code, fs, next', qs') = spec_add now cid p q (m_Side od) (m_OrderType od)
                    (m_TimeInForce od) (m_MatchType od) (m_Flags od) False next (remove_order oid qs)
             in (if code = Success then Success else InvalidModify, fs, next', qs'))
          else if q < m_RemainingQuantity od then
            (Success, [], next, replace_order oid (od\<lparr>m_RemainingQuantity := q\<rparr>) qs)
          else (Success, [], next, qs))"

lemma spec_add_not_FOK:
  "tif \<noteq> FOK \<Longrightarrow> spec_add now cid p q side ot tif mt f illiquid next qs =
     spec_add now cid p q side ot tif mt f illiquid' next qs"
  by (simp add: spec_add_def)

text \<open>A modify that has to move the order is a cancel followed by an add.\<close>

lemma modify_move_refines:
  assumes wf: "book_wf b" and ctr: "m_OrderCounter b \<noteq> - 1"
    and e: "m_Orders b oid = Some e" "deref e b = Some od" "m_OrderID od = oid"
    and move: "m_ClientID od = cid" "p \<noteq> m_Price od \<or> m_RemainingQuantity od < q"
    and sa: "spec_add now cid p q (m_Side od) (m_OrderType od) (m_TimeInForce od) (m_MatchType od)
        (m_Flags od) False (m_OrderCounter b) (remove_order oid (queues_of b)) = (code, fs, next, qs)"
  shows "\<exists>b'. InternalModifyOrder now cid oid p q b = Some (if code \<noteq> Success then InvalidModify else Success, b') \<and>
    book_wf b' \<and> queues_of b' = qs \<and> m_OrderCounter b' = next \<and>
    scratch b' = scratch b @ take (room b) (trade_events cid Standard (m_TradeCounter b) fs) \<and>
    room b' = room b - length fs"
proof -
  have res: "m_TimeInForce od \<noteq> FOK" "m_MatchType od = Standard"
    using book_wfD(3) [OF wf e(2)] by (auto simp: resting_ok_def)
  have "spec_cancel cid oid (queues_of b) = (Success, remove_order oid (queues_of b))"
    using e move(1) by (simp add: spec_cancel_def index_finds [OF wf])
  from InternalCancelOrder_refines [OF wf this] obtain b1 where
    b1: "InternalCancelOrder cid oid b = Some (Success, b1)" "book_wf b1"
      "queues_of b1 = remove_order oid (queues_of b)" "m_OrderCounter b1 = m_OrderCounter b"
      "scratch b1 = scratch b" "room b1 = room b" "m_TradeCounter b1 = m_TradeCounter b" by blast
  from spec_add_not_FOK [OF res(1), of now cid p q "m_Side od" "m_OrderType od" "m_MatchType od"
      "m_Flags od" "fok_rejected p q (m_Side od) (m_OrderType od) b1" _ _ False] sa
  have "spec_add now cid p q (m_Side od) (m_OrderType od) (m_TimeInForce od) (m_MatchType od)
      (m_Flags od) (fok_rejected p q (m_Side od) (m_OrderType od) b1) (m_OrderCounter b1)
      (queues_of b1) = (code, fs, next, qs)"
    by (simp only: b1(3,4))
  from InternalAddOrder_refines [OF b1(2) _ this] ctr b1 obtain b2 where
    b2: "InternalAddOrder now cid p q (m_Side od) (m_OrderType od) (m_TimeInForce od) (m_MatchType od)
      (m_Flags od) b1 = Some (code, b2)" "book_wf b2" "queues_of b2 = qs" "m_OrderCounter b2 = next"
      "scratch b2 = scratch b @ take (room b) (trade_events cid Standard (m_TradeCounter b) fs)"
      "room b2 = room b - length fs"
    using res(2) by auto
  moreover have "InternalModifyOrder now cid oid p q b =
      Some (if code \<noteq> Success then InvalidModify else Success, b2)"
    using e(1,2) move b1(1) b2(1) by (simp add: InternalModifyOrder_def)
  ultimately show ?thesis by simp
qed

text \<open>A modify that lowers the quantity changes the order in place.\<close>

lemma modify_down_refines:
  assumes wf: "book_wf b" and e: "m_Orders b oid = Some e" "deref e b = Some od" "m_OrderID od = oid"
    and down: "m_ClientID od = cid" "p = m_Price od" "q < m_RemainingQuantity od"
  shows "\<exists>b'. InternalModifyOrder now cid oid p q b = Some (Success, b') \<and> book_wf b' \<and>
    queues_of b' = replace_order oid (od\<lparr>m_RemainingQuantity := q\<rparr>) (queues_of b) \<and>
    m_OrderCounter b' = m_OrderCounter b \<and> scratch b' = scratch b \<and> room b' = room b"
proof -
  let ?od = "od\<lparr>m_RemainingQuantity := q\<rparr>" and ?d = "q - m_RemainingQuantity od"
  from store_eq [OF e(2)] obtain b1 where b1: "store e ?od b = Some b1" by metis
  have w1: "book_wf b1" and d1: "deref e b1 = Some ?od"
    using book_wf_store [OF wf e(2) b1] by simp_all
  then obtain lvl1 where l1: "get_level (level_it e) b1 = Some lvl1" by (auto simp: deref_Some_iff)
  let ?b2 = "if flags_and (m_Flags od) Hidden = Flags_None
    then put_level (level_it e) (lvl1\<lparr>volume := volume lvl1 - ?d\<rparr>) b1 else b1"
  have "InternalModifyOrder now cid oid p q b = Some (Success, ?b2)"
    using e(1,2) down b1 l1 by (auto simp: InternalModifyOrder_def UpdateQuantity_def Let_def)
  moreover have "queues_of b1 = replace_order oid ?od (queues_of b)"
    using e(3) by (simp add: replace_order_def queue_store [OF wf e(2) b1])
  then have "queues_of ?b2 = replace_order oid ?od (queues_of b)"
    by (simp add: queue_put_volume [OF l1])
  moreover have "book_wf ?b2" using w1 book_wf_put_volume(1) [OF w1 l1] by simp
  moreover have "m_OrderCounter ?b2 = m_OrderCounter b" "scratch ?b2 = scratch b" "room ?b2 = room b"
    using b1 by (auto simp: store_def bind_eq_Some_conv book_frame scratch_def room_def)
  ultimately show ?thesis by blast
qed

lemma InternalModifyOrder_refines:
  assumes wf: "book_wf b" and ctr: "m_OrderCounter b \<noteq> - 1"
    and spec: "spec_modify now cid oid p q (m_OrderCounter b) (queues_of b) = (code, fs, next, qs)"
  shows "\<exists>b'. InternalModifyOrder now cid oid p q b = Some (code, b') \<and> book_wf b' \<and>
    queues_of b' = qs \<and> m_OrderCounter b' = next \<and>
    scratch b' = scratch b @ take (room b) (trade_events cid Standard (m_TradeCounter b) fs) \<and>
    room b' = room b - length fs"
proof (cases "m_Orders b oid")
  case None
  with assms show ?thesis
    by (auto simp: spec_modify_def index_finds InternalModifyOrder_def)
next
  case (Some e)
  from book_wfD(5) [OF wf Some] obtain od where od: "deref e b = Some od" "m_OrderID od = oid"
    by blast
  have find: "find_order oid (queues_of b) = Some od" using Some od by (simp add: index_finds [OF wf])
  consider (auth) "m_ClientID od \<noteq> cid"
    | (move) "m_ClientID od = cid" "p \<noteq> m_Price od \<or> m_RemainingQuantity od < q"
    | (down) "m_ClientID od = cid" "p = m_Price od" "q < m_RemainingQuantity od"
    | (same) "m_ClientID od = cid" "p = m_Price od" "q = m_RemainingQuantity od"
    by fastforce
  then show ?thesis
  proof cases
    case move
    obtain code1 fs1 next1 qs1 where sa: "spec_add now cid p q (m_Side od) (m_OrderType od)
        (m_TimeInForce od) (m_MatchType od) (m_Flags od) False (m_OrderCounter b)
        (remove_order oid (queues_of b)) = (code1, fs1, next1, qs1)"
      by (metis prod_cases4)
    moreover have "code = (if code1 = Success then Success else InvalidModify)" "fs = fs1" "next = next1" "qs = qs1"
      using spec find move sa by (auto simp: spec_modify_def)
    ultimately show ?thesis using modify_move_refines [OF wf ctr Some od move sa] by auto
  next
    case down
    then have "\<not> m_RemainingQuantity od < q" by auto
    then have "code = Success" "fs = []" "next = m_OrderCounter b"
      "qs = replace_order oid (od\<lparr>m_RemainingQuantity := q\<rparr>) (queues_of b)"
      using spec find down by (auto simp: spec_modify_def)
    then show ?thesis using modify_down_refines [OF wf Some od down] by simp
  qed (use wf spec Some od find in \<open>auto simp: spec_modify_def InternalModifyOrder_def\<close>)
qed


subsection \<open>Apply\<close>

definition spec_apply ::
  "TimeNs \<Rightarrow> CommandPayload \<Rightarrow> TradeID \<Rightarrow> bool \<Rightarrow> OrderID \<Rightarrow> queues
    \<Rightarrow> EventPayload list \<times> OrderID \<times> queues" where
  "spec_apply now cmd k illiquid next qs =
     (case m_CommandData cmd of
        U_Add c \<Rightarrow>
          if m_CommandType cmd = Cmd_None then ([], next, qs)
          else
            (let (code, fs, next', qs') = spec_add now (add_clientID c) (add_price c) (add_quantity c)
                   (add_side c) (add_order_type c) (add_tif c) (add_match_type c) (add_flags c)
                   illiquid next qs
             in (trade_events (add_clientID c) Standard k fs @
                  [if code = Success then MakeOrderAccepted (add_clientID c) next
                   else MakeOrderRejected (add_clientID c) code], next', qs'))
      | U_Modify c \<Rightarrow>
          (let (code, fs, next', qs') = spec_modify now (mod_clientID c) (mod_orderID c)
                 (mod_new_price c) (mod_new_quantity c) next qs
           in (trade_events (mod_clientID c) Standard k fs @
                [if code = Success
                 then MakeModifyAccepted (mod_clientID c) (mod_orderID c) (mod_orderID c)
                 else MakeModifyRejected (mod_clientID c) (mod_orderID c) code], next', qs'))
      | U_Cancel c \<Rightarrow>
          (let (code, qs') = spec_cancel (can_clientID c) (can_orderID c) qs
           in ([if code = Success then MakeCancelAccepted (can_clientID c) (can_orderID c)
                else MakeCancelRejected (can_clientID c) (can_orderID c) code], next, qs')))"

definition illiquid :: "CommandPayload \<Rightarrow> OrderBook \<Rightarrow> bool" where
  "illiquid cmd b =
     (case m_CommandData cmd of
        U_Add c \<Rightarrow> fok_rejected (add_price c) (add_quantity c) (add_side c) (add_order_type c) b
      | _ \<Rightarrow> False)"

lemma reset_scratch:
  assumes "book_wf b"
  shows "book_wf (b\<lparr>m_ScratchCounter := 0\<rparr>)"
    and "queues_of (b\<lparr>m_ScratchCounter := 0\<rparr>) = queues_of b"
    and "scratch (b\<lparr>m_ScratchCounter := 0\<rparr>) = []"
    and "room (b\<lparr>m_ScratchCounter := 0\<rparr>) = MaxEventsPerCommand"
proof -
  show "book_wf (b\<lparr>m_ScratchCounter := 0\<rparr>)"
    using assms by (rule book_wf_cong [rotated -1]) simp_all
qed (simp_all add: queue_def scratch_def room_def)

lemma fok_rejected_reset [simp]:
  "fok_rejected p q side ot (b\<lparr>m_ScratchCounter := n\<rparr>) = fok_rejected p q side ot b"
  by (simp add: fok_rejected_def)

text \<open>The closing event of a command finds room exactly when the fills left some.\<close>

lemma put_event_room:
  assumes "book_wf b"
  shows "room b = 0 \<Longrightarrow> put_event ev b = None"
    and "room b \<noteq> 0 \<Longrightarrow> \<exists>b'. put_event ev b = Some b' \<and> scratch b' = scratch b @ [ev] \<and> book_wf b' \<and>
      queues_of b' = queues_of b \<and> m_OrderCounter b' = m_OrderCounter b"
proof -
  show "room b = 0 \<Longrightarrow> put_event ev b = None"
    by (auto simp: room_def put_event_def)
  assume "room b \<noteq> 0"
  then have "m_ScratchCounter b < MaxEventsPerCommand" by (simp add: room_def)
  note eq = put_event_eq [OF this, of ev]
  let ?b' = "b\<lparr>t_EventScratch := (t_EventScratch b)(m_ScratchCounter b := ev),
                m_ScratchCounter := m_ScratchCounter b + 1\<rparr>"
  have "book_wf ?b'"
    using assms by (rule book_wf_cong [rotated -1])
      (use \<open>m_ScratchCounter b < MaxEventsPerCommand\<close> in auto)
  then show "\<exists>b'. put_event ev b = Some b' \<and> scratch b' = scratch b @ [ev] \<and> book_wf b' \<and>
      queues_of b' = queues_of b \<and> m_OrderCounter b' = m_OrderCounter b"
    using eq scratch_put_event [OF eq] by (simp add: queue_def)
qed

lemma close_command:
  assumes "book_wf b" and "scratch b = take MaxEventsPerCommand (trade_events cid mt k fs)"
    and "room b = MaxEventsPerCommand - length fs"
  shows "length fs < MaxEventsPerCommand \<Longrightarrow> \<exists>b'. put_event ev b = Some b' \<and>
      scratch b' = trade_events cid mt k fs @ [ev] \<and> book_wf b' \<and> queues_of b' = queues_of b \<and>
      m_OrderCounter b' = m_OrderCounter b"
    and "\<not> length fs < MaxEventsPerCommand \<Longrightarrow> put_event ev b = None"
  using put_event_room [OF assms(1), of ev] assms(2,3) by auto

lemma spec_add_next:
  "spec_add now cid p q side ot tif mt f illq next qs = (Success, fs, next', qs') \<Longrightarrow> next' = next + 1"
  by (auto simp: spec_add_def Let_def split: if_splits prod.splits)

lemma spec_add_nonstandard:
  "spec_add now cid p q side ot tif mt f illq next qs = (code, fs, next', qs') \<Longrightarrow> fs \<noteq> [] \<Longrightarrow> mt = Standard"
  by (auto simp: spec_add_def split: if_splits)

text \<open>What \<^verbatim>\<open>Apply\<close> has to do with a command whose specified events, next identifier and
  queues are given: produce exactly them, or nothing defined when the events do not fit.\<close>

definition answers ::
  "TimeNs \<Rightarrow> CommandPayload \<Rightarrow> OrderBook \<Rightarrow> EventPayload list \<Rightarrow> OrderID \<Rightarrow> queues \<Rightarrow> bool" where
  "answers now cmd b evs next qs \<longleftrightarrow>
     (if length evs \<le> MaxEventsPerCommand
      then \<exists>b'. Apply now cmd b = Some (evs, b') \<and> book_wf b' \<and> queues_of b' = qs \<and> m_OrderCounter b' = next
      else Apply now cmd b = None)"

lemma closed_answers:
  assumes "book_wf b1" and "scratch b1 = take MaxEventsPerCommand (trade_events cid mt k fs)"
    and "room b1 = MaxEventsPerCommand - length fs"
    and "Apply now cmd b = map_option (\<lambda>b2. (scratch b2, b2)) (put_event ev b1)"
  shows "answers now cmd b (trade_events cid mt k fs @ [ev]) (m_OrderCounter b1) (queues_of b1)"
proof (cases "length fs < MaxEventsPerCommand")
  case True
  from close_command(1) [OF assms(1-3) True, of ev] assms(4) True show ?thesis
    by (auto simp: answers_def Suc_le_eq)
next
  case False
  with close_command(2) [OF assms(1-3) False, of ev] assms(4) show ?thesis by (simp add: answers_def)
qed

lemma Apply_cancel_answers:
  assumes wf: "book_wf b" and sc: "spec_cancel cid oid (queues_of b) = (code, qs)"
  shows "answers now (MakeCancel cid oid) b
    [if code = Success then MakeCancelAccepted cid oid else MakeCancelRejected cid oid code]
    (m_OrderCounter b) qs"
proof -
  let ?b = "b\<lparr>m_ScratchCounter := 0\<rparr>"
  note r = reset_scratch [OF wf]
  from sc have "spec_cancel cid oid (queues_of ?b) = (code, qs)" by (simp only: r(2))
  from InternalCancelOrder_refines [OF r(1) this] obtain b1 where
    b1: "InternalCancelOrder cid oid ?b = Some (code, b1)" "book_wf b1" "queues_of b1 = qs"
      "m_OrderCounter b1 = m_OrderCounter b" "scratch b1 = []" "room b1 = MaxEventsPerCommand"
    using r by auto
  let ?ev = "if code = Success then MakeCancelAccepted cid oid else MakeCancelRejected cid oid code"
  have "Apply now (MakeCancel cid oid) b = map_option (\<lambda>b2. (scratch b2, b2)) (put_event ?ev b1)"
    using b1(1)
    by (auto simp: Apply_def command_defs AsCancel_def Handle_Cancel_def map_conv_bind_option comp_def)
  from closed_answers [OF b1(2) _ _ this, of cid Standard 0 "[]"] b1 show ?thesis by simp
qed

lemma Apply_add_answers:
  assumes wf: "book_wf b" and ctr: "m_OrderCounter b \<noteq> - 1"
    and sa: "spec_add now cid p q s ot tif mt f (fok_rejected p q s ot b) (m_OrderCounter b)
      (queues_of b) = (code, fs, next, qs)"
  shows "answers now (MakeAdd cid p q s ot tif mt f) b
    (trade_events cid Standard (m_TradeCounter b) fs @
       [if code = Success then MakeOrderAccepted cid (m_OrderCounter b) else MakeOrderRejected cid code])
    next qs"
proof -
  let ?b = "b\<lparr>m_ScratchCounter := 0\<rparr>" and ?cmd = "MakeAdd cid p q s ot tif mt f"
  let ?ev = "if code = Success then MakeOrderAccepted cid (m_OrderCounter b) else MakeOrderRejected cid code"
  note r = reset_scratch [OF wf]
  have "spec_add now cid p q s ot tif mt f (fok_rejected p q s ot ?b) (m_OrderCounter ?b)
    (queues_of ?b) = (code, fs, next, qs)" using sa by (simp add: r(2))
  from InternalAddOrder_refines [OF r(1) _ this] ctr obtain b1 where
    b1: "InternalAddOrder now cid p q s ot tif mt f ?b = Some (code, b1)" "book_wf b1" "queues_of b1 = qs"
      "m_OrderCounter b1 = next"
      "scratch b1 = take MaxEventsPerCommand (trade_events cid mt (m_TradeCounter b) fs)"
      "room b1 = MaxEventsPerCommand - length fs"
    using r by auto
  have te: "trade_events cid mt (m_TradeCounter b) fs = trade_events cid Standard (m_TradeCounter b) fs"
    using spec_add_nonstandard [OF sa] by (cases fs) auto
  have "m_OrderCounter b1 - 1 = m_OrderCounter b" if "code = Success"
    using spec_add_next [OF sa [unfolded that]] b1(4) by simp
  with b1(1) have "Apply now ?cmd b = map_option (\<lambda>b2. (scratch b2, b2)) (put_event ?ev b1)"
    by (auto simp: Apply_def command_defs AsAdd_def Handle_Add_def map_conv_bind_option comp_def)
  from closed_answers [OF b1(2,5,6) this] show ?thesis by (simp only: b1(3,4) te)
qed

lemma Apply_modify_answers:
  assumes wf: "book_wf b" and ctr: "m_OrderCounter b \<noteq> - 1"
    and sa: "spec_modify now cid oid p q (m_OrderCounter b) (queues_of b) = (code, fs, next, qs)"
  shows "answers now (MakeModify cid oid p q) b
    (trade_events cid Standard (m_TradeCounter b) fs @
       [if code = Success then MakeModifyAccepted cid oid oid else MakeModifyRejected cid oid code])
    next qs"
proof -
  let ?b = "b\<lparr>m_ScratchCounter := 0\<rparr>" and ?cmd = "MakeModify cid oid p q"
  let ?ev = "if code = Success then MakeModifyAccepted cid oid oid else MakeModifyRejected cid oid code"
  note r = reset_scratch [OF wf]
  have "spec_modify now cid oid p q (m_OrderCounter ?b) (queues_of ?b) = (code, fs, next, qs)"
    using sa by (simp add: r(2))
  from InternalModifyOrder_refines [OF r(1) _ this] ctr obtain b1 where
    b1: "InternalModifyOrder now cid oid p q ?b = Some (code, b1)" "book_wf b1" "queues_of b1 = qs"
      "m_OrderCounter b1 = next"
      "scratch b1 = take MaxEventsPerCommand (trade_events cid Standard (m_TradeCounter b) fs)"
      "room b1 = MaxEventsPerCommand - length fs"
    using r by auto
  from b1(1) have "Apply now ?cmd b = map_option (\<lambda>b2. (scratch b2, b2)) (put_event ?ev b1)"
    by (auto simp: Apply_def command_defs AsModify_def Handle_Modify_def map_conv_bind_option comp_def)
  from closed_answers [OF b1(2,5,6) this] show ?thesis by (simp only: b1(3,4))
qed

lemma Apply_answers:
  assumes wf: "book_wf b" and ctr: "m_OrderCounter b \<noteq> - 1" and cmd: "command_ok cmd"
    and spec: "spec_apply now cmd (m_TradeCounter b) (illiquid cmd b) (m_OrderCounter b) (queues_of b)
      = (evs, next, qs)"
  shows "answers now cmd b evs next qs"
  using cmd
proof (cases rule: command_ok_cases)
  case none
  then have "evs = []" "next = m_OrderCounter b" "qs = queues_of b"
    using spec by (simp_all add: spec_apply_def command_defs)
  moreover have "Apply now cmd b = Some ([], b\<lparr>m_ScratchCounter := 0\<rparr>)"
    using none by (simp add: Apply_def command_defs)
  ultimately show ?thesis using reset_scratch [OF wf] by (simp add: answers_def)
next
  case (cancel cid oid)
  obtain code qs1 where sc: "spec_cancel cid oid (queues_of b) = (code, qs1)" by force
  with Apply_cancel_answers [OF wf sc, of now] spec cancel show ?thesis
    by (auto simp: spec_apply_def command_defs)
next
  case (add cid p q s ot tif mt f)
  obtain code fs next1 qs1 where sa: "spec_add now cid p q s ot tif mt f
    (fok_rejected p q s ot b) (m_OrderCounter b) (queues_of b) = (code, fs, next1, qs1)"
    by (metis prod_cases4)
  with Apply_add_answers [OF wf ctr sa] spec add show ?thesis
    by (auto simp: spec_apply_def command_defs illiquid_def)
next
  case (modify cid oid p q)
  obtain code fs next1 qs1 where sa: "spec_modify now cid oid p q (m_OrderCounter b) (queues_of b)
      = (code, fs, next1, qs1)"
    by (metis prod_cases4)
  with Apply_modify_answers [OF wf ctr sa] spec modify show ?thesis
    by (auto simp: spec_apply_def command_defs)
qed

lemma Apply_refines:
  assumes "book_wf b" and "m_OrderCounter b \<noteq> - 1" and "command_ok cmd"
    and "spec_apply now cmd (m_TradeCounter b) (illiquid cmd b) (m_OrderCounter b) (queues_of b)
      = (evs, next, qs)"
  shows "length evs \<le> MaxEventsPerCommand \<Longrightarrow> \<exists>b'. Apply now cmd b = Some (evs, b') \<and> book_wf b' \<and>
      queues_of b' = qs \<and> m_OrderCounter b' = next"
    and "\<not> length evs \<le> MaxEventsPerCommand \<Longrightarrow> Apply now cmd b = None"
  using Apply_answers [OF assms] by (simp_all add: answers_def)

subsection \<open>Case analysis of the operations\<close>

lemma InternalCancelOrder_cases:
  assumes "book_wf b" and "InternalCancelOrder cid oid b = Some (code, b')"
  obtains "b' = b" and "code \<noteq> Success"
  | e od lvl where "m_Orders b oid = Some e" and "deref e b = Some od"
      and "get_level (level_it e) b = Some lvl" and "m_ClientID od = cid" and "m_OrderID od = oid"
      and "code = Success" and "b' = cancelled e od lvl b"
proof (cases "m_Orders b oid")
  case None
  with assms(2) that(1) show thesis by (simp add: InternalCancelOrder_def)
next
  case (Some e)
  from book_wfD(5) [OF assms(1) Some] obtain od where od: "deref e b = Some od" "m_OrderID od = oid" by blast
  then obtain lvl where lvl: "get_level (level_it e) b = Some lvl" by (auto simp: deref_Some_iff)
  show thesis
  proof (cases "m_ClientID od = cid")
    case True
    then show thesis
      using that(2) Some od lvl InternalCancelOrder_eq [OF assms(1) Some od(1) lvl] assms(2) by simp
  next
    case False
    then show thesis
      using that(1) Some od lvl assms(2) by (simp add: InternalCancelOrder_def)
  qed
qed

lemma InternalAddOrder_cases:
  assumes "book_wf b" and "m_OrderCounter b \<noteq> - 1"
    and "InternalAddOrder now cid p q side ot tif mt f b = Some (code, b')"
  obtains "b' = b" and "code \<noteq> Success"
  | od b2 where
      "Match (mk_Order now (m_OrderCounter b) cid p q side ot tif mt f)
         (b\<lparr>m_OrderCounter := m_OrderCounter b + 1\<rparr>) = Some (od, b2)"
      and "b' = b2"
  | od b2 where
      "Match (mk_Order now (m_OrderCounter b) cid p q side ot tif mt f)
         (b\<lparr>m_OrderCounter := m_OrderCounter b + 1\<rparr>) = Some (od, b2)"
      and "rest_on_book (m_OrderCounter b) od p side f b2 = Some b'"
      and "m_RemainingQuantity od \<noteq> 0" and "code = Success"
proof -
  show thesis
    using assms(3) that unfolding InternalAddOrder_unfold Let_def
    by (auto simp: bind_eq_Some_conv split: if_splits TimeInForce.splits)
qed

lemma Match_new_order:
  assumes "book_wf b" and "m_OrderCounter b \<noteq> - 1"
    and "Match (mk_Order now (m_OrderCounter b) cid p q side ot tif mt f)
         (b\<lparr>m_OrderCounter := m_OrderCounter b + 1\<rparr>) = Some (od, b2)"
  shows "book_wf b2" and "m_OrderCounter b2 = m_OrderCounter b + 1"
    and "\<exists>r. od = (mk_Order now (m_OrderCounter b) cid p q side ot tif mt f)\<lparr>m_RemainingQuantity := r\<rparr>"
    and "m_Orders b2 (m_OrderCounter b) = None"
proof -
  obtain q' fs ts' where f: "fill_queue (price_blocked side ot p) q (queue (opposite side) b) = (q', fs, ts')"
    by (metis prod_cases3)
  show "book_wf b2" "m_OrderCounter b2 = m_OrderCounter b + 1" "m_Orders b2 (m_OrderCounter b) = None"
    "\<exists>r. od = (mk_Order now (m_OrderCounter b) cid p q side ot tif mt f)\<lparr>m_RemainingQuantity := r\<rparr>"
    using price_time.new_order_matched [OF assms(1,2) f, of now cid tif mt f] assms(3)
    by (metis option.inject prod.inject)+
qed

end
