(* ===== verification/Book_Volume.thy ===== *)
theory Book_Volume
  imports Book_Spec
begin

text \<open>
  The volume a price level shows. \<open>volume_gap\<close> is the difference, modulo \<open>2 ^ 64\<close>, between
  \<^verbatim>\<open>LevelData::volume\<close> and what the visible orders of the level have left. The first part
  computes the gap after every write: cancelling, resting and executing visible orders keep it,
  executing a hidden order moves it by the executed quantity, and
  reducing an order in place moves it by twice the reduction. \<open>exact_volumes\<close> (no gap and no
  hidden order anywhere) is therefore kept by every command that brings in no hidden order and
  does not reduce in place (\<open>exact_volumes_Apply\<close>).

  The last part is the one reader of volumes inside the engine, the liquidity scan of
  fill-or-kill orders: on exact volumes whose total fits 64 bits, \<open>fok_rejected\<close> says exactly
  that the reachable part of the queue holds too little (\<open>fok_rejected_iff\<close>).
\<close>

subsection \<open>What a level should show\<close>

definition shown :: "Order \<Rightarrow> Quantity" where
  "shown od = (if HasFlag (m_Flags od) Hidden then 0 else m_RemainingQuantity od)"

definition shown_total :: "(ListNode \<times> Order) list \<Rightarrow> Quantity" where
  "shown_total xs = (\<Sum>x\<leftarrow>xs. shown (snd x))"

definition volume_gap :: "LevelIt \<Rightarrow> OrderBook \<Rightarrow> Quantity" where
  "volume_gap it b =
     (case get_level it b of None \<Rightarrow> 0 | Some lvl \<Rightarrow> volume lvl - shown_total (orders lvl))"

lemma shown_total_simps [simp]:
  "shown_total [] = 0" "shown_total (x # xs) = shown (snd x) + shown_total xs"
  "shown_total (xs @ ys) = shown_total xs + shown_total ys"
  by (simp_all add: shown_total_def)

lemma shown_total_assoc_set:
  "map_of xs n = Some od0 \<Longrightarrow>
   shown_total (assoc_set n od xs) = shown_total xs - shown od0 + shown od"
  by (induction n od xs rule: assoc_set.induct) (auto simp: algebra_simps)

lemma shown_total_assoc_erase:
  "map_of xs n = Some od \<Longrightarrow> shown_total (assoc_erase n xs) = shown_total xs - shown od"
  by (induction n xs rule: assoc_erase.induct) (auto simp: algebra_simps)

lemma volume_gap_Some:
  "get_level it b = Some lvl \<Longrightarrow> volume_gap it b = volume lvl - shown_total (orders lvl)"
  by (simp add: volume_gap_def)

subsection \<open>What each write does to the gap\<close>

lemma volume_gap_put_level:
  assumes "get_level it b = Some l0"
  shows "volume_gap it' (put_level it lvl b) =
    (if it' = it then volume lvl - shown_total (orders lvl) else volume_gap it' b)"
  by (simp add: volume_gap_def get_level_put_level [OF assms])

lemma volume_gap_store:
  assumes "deref e b = Some od0" and "store e od b = Some b'"
  shows "volume_gap it b' =
    (if it = level_it e then volume_gap it b + shown od0 - shown od else volume_gap it b)"
proof -
  from assms(1) obtain lvl where lvl: "get_level (level_it e) b = Some lvl"
    and st: "store e od b = Some (put_level (level_it e)
           (lvl\<lparr>orders := assoc_set (list_it e) od (orders lvl)\<rparr>) b)"
    by (rule store_eq)
  have "map_of (orders lvl) (list_it e) = Some od0"
    using assms(1) lvl by (simp add: deref_def)
  with lvl st assms(2) show ?thesis
    by (auto simp: volume_gap_put_level volume_gap_Some shown_total_assoc_set)
qed

lemma volume_gap_RecordFill:
  assumes "book_wf b" and "get_level (s, p) b = Some lvl" and "RecordFill mk tk p q s mt b = Some b'"
  shows "volume_gap it b' = (if it = (s, p) then volume_gap it b - q else volume_gap it b)"
proof -
  have "volume_gap it b' = volume_gap it (put_level (s, p) (lvl\<lparr>volume := volume lvl - q\<rparr>) b)"
    by (simp add: volume_gap_def get_level_def RecordFill_wf(3) [OF assms])
  with assms(2) show ?thesis
    by (simp add: volume_gap_put_level volume_gap_Some)
qed

lemma volume_gap_cancelled:
  assumes "book_wf b" and "deref e b = Some od" and "get_level (level_it e) b = Some lvl"
  shows "volume_gap it (cancelled e od lvl b) =
    (if get_level it (cancelled e od lvl b) = None then 0 else volume_gap it b)"
proof -
  have "map_of (orders lvl) (list_it e) = Some od"
    using assms(2,3) by (simp add: deref_def)
  then have "volume (cancelled_level (list_it e) od lvl) - shown_total (assoc_erase (list_it e) (orders lvl)) =
      volume lvl - shown_total (orders lvl)"
    by (simp add: shown_total_assoc_erase cancelled_level_def shown_def not_hidden_iff)
  with assms show ?thesis
    by (simp add: volume_gap_def get_level_cancelled book_wfD(1) split: option.splits)
qed

lemma volume_gap_rest_on_book:
  assumes "book_wf b" and "m_Orders b new_id = None" and "rest_on_book new_id od p s (m_Flags od) b = Some b'"
  shows "volume_gap it b' = volume_gap it b"
  by (auto simp: volume_gap_def rest_on_book_effect(1) [OF assms] rested_level_def level_or_empty_def
      empty_level_def shown_def not_hidden_iff split: option.splits)

lemma volume_gap_cong: "(\<And>s. levels s b' = levels s b) \<Longrightarrow> volume_gap it b' = volume_gap it b"
  by (simp add: volume_gap_def get_level_def)

subsection \<open>Exact volumes\<close>

definition all_shown :: "OrderBook \<Rightarrow> bool" where
  "all_shown b \<longleftrightarrow> (\<forall>s. \<forall>od\<in>set (queue s b). \<not> HasFlag (m_Flags od) Hidden)"

definition exact_volumes :: "OrderBook \<Rightarrow> bool" where
  "exact_volumes b \<longleftrightarrow> (\<forall>it. volume_gap it b = 0) \<and> all_shown b"

lemma exact_volumes_init: "exact_volumes OrderBook_init"
proof -
  have "levels s OrderBook_init = []" for s
    by (cases s) (simp_all add: OrderBook_init_def)
  then show ?thesis
    by (simp add: exact_volumes_def volume_gap_def get_level_def all_shown_def queue_def)
qed

lemma exact_volumes_cong:
  "(\<And>s. levels s b' = levels s b) \<Longrightarrow> exact_volumes b' = exact_volumes b"
  by (simp add: exact_volumes_def volume_gap_cong [of b' b] all_shown_def queue_def)

lemma all_shownI:
  "(\<And>s od. od \<in> set (queue s b) \<Longrightarrow> \<not> HasFlag (m_Flags od) Hidden) \<Longrightarrow> all_shown b"
  by (simp add: all_shown_def)

lemma all_shownD: "all_shown b \<Longrightarrow> od \<in> set (queue s b) \<Longrightarrow> \<not> HasFlag (m_Flags od) Hidden"
  by (auto simp: all_shown_def)

lemma exact_volumes_cancelled:
  assumes "book_wf b" and "deref e b = Some od" and "get_level (level_it e) b = Some lvl"
    and "exact_volumes b"
  shows "exact_volumes (cancelled e od lvl b)"
  using assms(4) unfolding exact_volumes_def all_shown_def
  by (auto simp: volume_gap_cancelled [OF assms(1-3)] queue_cancelled [OF assms(1-3)])

lemma exact_volumes_match_step:
  assumes "book_wf b" and "exact_volumes b" and "match_step order b = Some (go_on, order', b')"
  shows "book_wf b' \<and> exact_volumes b'"
proof (cases "b' = b")
  case False
  let ?opp = "opposite (m_Side order)"
  have rem: "m_RemainingQuantity order \<noteq> 0"
    using False assms(3) by (auto simp: match_step_done)
  obtain t ts where q: "queue ?opp b = t # ts"
    using False assms(1,3) by (cases "queue ?opp b") (auto simp: match_step_empty)
  have nb: "\<not> price_blocked (m_Side order) (m_OrderType order) (m_Price order) (m_Price t)"
    using False assms(3) match_step_blocked [OF assms(1) q] by auto
  let ?q = "min (m_RemainingQuantity order) (m_RemainingQuantity t)"
  have t: "\<not> HasFlag (m_Flags t) Hidden"
    using assms(2) q all_shownD [of b t ?opp] unfolding exact_volumes_def by simp
  from match_step_exec [OF assms(1) q rem nb refl] obtain e lvl1 lvl2 b1 b2 where
    e: "deref e b = Some t" "fst (level_it e) = ?opp" and b1: "store e (Fill ?q t) b = Some b1"
    and w1: "book_wf b1" and l1: "get_level (level_it e) b1 = Some lvl1"
    and it: "level_it e = (m_Side t, m_Price t)"
    and b2: "RecordFill (m_ClientID order) (m_ClientID t) (m_Price t) ?q (m_Side t) (m_MatchType order) b1
      = Some b2"
    and w2: "book_wf b2" and d2: "deref e b2 = Some (Fill ?q t)" and l2: "get_level (level_it e) b2 = Some lvl2"
    and st: "match_step order b = Some (True, Fill ?q order,
           if ?q = m_RemainingQuantity t then cancelled e (Fill ?q t) lvl2 b2 else b2)" .
  have sh: "shown t - shown (Fill ?q t) = ?q"
    using t by (simp add: shown_def Fill_min)
  have "volume_gap it b = 0" for it
    using assms(2) unfolding exact_volumes_def by blast
  then have "volume_gap x b2 = 0" for x
    using sh volume_gap_store [OF e(1) b1, of x] volume_gap_RecordFill [OF w1 l1 [unfolded it] b2, of x]
    by (auto simp: it)
  moreover have "all_shown b2"
  proof (rule all_shownI)
    have "queue s b2 = queue s b1" for s
      using queue_put_volume [OF l1 [unfolded it]] RecordFill_wf(3) [OF w1 l1 [unfolded it] b2]
      by (simp add: queue_def)
    moreover fix s od assume "od \<in> set (queue s b2)"
    ultimately have "od \<in> set (queue s b1)" by simp
    then show "\<not> HasFlag (m_Flags od) Hidden"
      using assms(2) t unfolding queue_store [OF assms(1) e(1) b1] exact_volumes_def all_shown_def by auto
  qed
  ultimately have "exact_volumes b2" by (simp add: exact_volumes_def)
  with st assms(3) w2 show ?thesis
    using exact_volumes_cancelled [OF w2 d2 l2] book_wf_cancelled [OF w2 d2 l2] by (auto split: if_splits)
qed (use assms in simp)

lemma exact_volumes_Match:
  assumes "Match order b = Some (order', b')" and "book_wf b" and "exact_volumes b"
  shows "book_wf b' \<and> exact_volumes b'"
  using assms(1)
  by (rule Match_invariant [where I = "\<lambda>b. book_wf b \<and> exact_volumes b"])
    (use assms(2,3) exact_volumes_match_step in blast)+
subsection \<open>Operations that keep the volumes exact\<close>

lemma exact_volumes_InternalCancelOrder:
  assumes "book_wf b" and "exact_volumes b" and "InternalCancelOrder cid oid b = Some (code, b')"
  shows "book_wf b' \<and> exact_volumes b'"
  using assms(1,3)
  by (cases rule: InternalCancelOrder_cases)
    (use assms(1,2) book_wf_cancelled exact_volumes_cancelled in blast)+

lemma exact_volumes_rest_on_book:
  assumes "book_wf b" and "m_Orders b new_id = None" and "exact_volumes b" and "m_Price od = p"
    and "\<not> HasFlag (m_Flags od) Hidden"
    and "rest_on_book new_id od p s (m_Flags od) b = Some b'"
  shows "exact_volumes b'"
proof -
  have "od' = od \<or> od' \<in> set (queue s' b)" if "od' \<in> set (queue s' b')" for s' od'
    using that queue_rest_on_book(1) [OF assms(1,2,4,6)] queue_rest_on_book(2) [OF assms(1,2,4,6), of s']
    by (cases "s' = s") auto
  then show ?thesis
    using assms(3,5) volume_gap_rest_on_book [OF assms(1,2,6)]
    unfolding exact_volumes_def all_shown_def by metis
qed

lemma exact_volumes_next_id [simp]: "exact_volumes (b\<lparr>m_OrderCounter := c\<rparr>) = exact_volumes b"
  by (rule exact_volumes_cong) simp

lemma exact_volumes_InternalAddOrder:
  assumes "book_wf b" and "m_OrderCounter b \<noteq> - 1" and "exact_volumes b"
    and "\<not> HasFlag f Hidden"
    and "InternalAddOrder now cid p q side ot tif mt f b = Some (code, b')"
  shows "exact_volumes b'"
  using assms(1,2,5)
proof (cases rule: InternalAddOrder_cases)
  case (2 od b2)
  then show ?thesis
    using exact_volumes_Match [OF 2(1) book_wf_next_id [OF assms(1,2)]] assms(3) by simp
next
  case (3 od b2)
  note m = Match_new_order [OF assms(1,2) 3(1)]
  have "exact_volumes b2"
    using exact_volumes_Match [OF 3(1) book_wf_next_id [OF assms(1,2)]] assms(3) by simp
  moreover from m(3) have "m_Price od = p" "m_Flags od = f" by auto
  ultimately show ?thesis
    using exact_volumes_rest_on_book [OF m(1,4)] 3(2) assms(4) by metis
qed (use assms(3) in simp)

text \<open>What a command must not do for the volumes to stay exact: bring in hidden orders, or
  reduce a resting order in place.\<close>

definition keeps_volumes :: "CommandPayload \<Rightarrow> OrderBook \<Rightarrow> bool" where
  "keeps_volumes cmd b =
     (case m_CommandData cmd of
        U_Add c \<Rightarrow> \<not> HasFlag (add_flags c) Hidden
      | U_Modify c \<Rightarrow>
          (case find_order (mod_orderID c) (queues_of b) of
             None \<Rightarrow> True
           | Some od \<Rightarrow> mod_new_price c \<noteq> m_Price od \<or> m_RemainingQuantity od \<le> mod_new_quantity c)
      | U_Cancel c \<Rightarrow> True)"

lemma deref_all_shown:
  "book_wf b \<Longrightarrow> all_shown b \<Longrightarrow> deref e b = Some od \<Longrightarrow> \<not> HasFlag (m_Flags od) Hidden"
  using in_queue_iff [of b od "fst (level_it e)"] all_shownD by blast

lemma exact_volumes_InternalModifyOrder:
  assumes "book_wf b" and "m_OrderCounter b \<noteq> - 1" and "exact_volumes b"
    and "\<And>od. find_order oid (queues_of b) = Some od \<Longrightarrow> p \<noteq> m_Price od \<or> m_RemainingQuantity od \<le> q"
    and "InternalModifyOrder now cid oid p q b = Some (code, b')"
  shows "exact_volumes b'"
proof (cases "m_Orders b oid")
  case (Some e)
  from book_wfD(5) [OF assms(1) Some] obtain od where od: "deref e b = Some od" "m_OrderID od = oid" by blast
  have down: "p \<noteq> m_Price od \<or> m_RemainingQuantity od \<le> q"
    using assms(4) [of od] Some od by (simp add: index_finds [OF assms(1)])
  have fl: "\<not> HasFlag (m_Flags od) Hidden"
    using deref_all_shown [OF assms(1) _ od(1)] assms(3) by (simp add: exact_volumes_def)
  show ?thesis
  proof (cases "m_ClientID od = cid \<and> (p \<noteq> m_Price od \<or> m_RemainingQuantity od < q)")
    case True
    then obtain code1 b1 where b1: "InternalCancelOrder cid oid b = Some (code1, b1)"
      and r: "(if code1 \<noteq> Success then Some (InvalidModify, b1)
        else Option.bind (InternalAddOrder now cid p q (m_Side od) (m_OrderType od) (m_TimeInForce od)
               (m_MatchType od) (m_Flags od) b1) (\<lambda>(code, b2).
               Some (if code \<noteq> Success then InvalidModify else Success, b2))) = Some (code, b')"
      using assms(5) Some od(1) by (auto simp: InternalModifyOrder_def bind_eq_Some_conv)
    note e1 = exact_volumes_InternalCancelOrder [OF assms(1,3) b1]
    have c1: "m_OrderCounter b1 = m_OrderCounter b"
      using assms(1) b1 by (cases rule: InternalCancelOrder_cases) (simp_all add: book_frame)
    show ?thesis
    proof (cases "code1 = Success")
      case True
      with r obtain code2 where "InternalAddOrder now cid p q (m_Side od) (m_OrderType od) (m_TimeInForce od)
               (m_MatchType od) (m_Flags od) b1 = Some (code2, b')"
        by (auto simp: bind_eq_Some_conv)
      then show ?thesis
        using exact_volumes_InternalAddOrder e1 c1 assms(2) fl by metis
    qed (use r e1 in auto)
  next
    case False
    with down have "b' = b"
      using assms(5) Some od(1) by (auto simp: InternalModifyOrder_def split: if_splits)
    with assms(3) show ?thesis by simp
  qed
qed (use assms(3,5) in \<open>auto simp: InternalModifyOrder_def\<close>)

lemma put_event_levels: "put_event ev b = Some b' \<Longrightarrow> levels s b' = levels s b"
  by (auto simp: put_event_def split: if_splits)

lemma exact_volumes_put_event:
  "put_event ev b = Some b' \<Longrightarrow> exact_volumes b' = exact_volumes b"
  by (rule exact_volumes_cong) (rule put_event_levels)

lemma exact_volumes_Apply:
  assumes wf: "book_wf b" and ctr: "m_OrderCounter b \<noteq> - 1" and "command_ok cmd"
    and ex: "exact_volumes b" and keep: "keeps_volumes cmd b" and ap: "Apply now cmd b = Some (evs, b')"
  shows "exact_volumes b'"
proof -
  let ?b = "b\<lparr>m_ScratchCounter := 0\<rparr>"
  note r = reset_scratch [OF wf]
  have x: "exact_volumes ?b" using ex exact_volumes_cong [of ?b b] by simp
  have c: "m_OrderCounter ?b \<noteq> - 1" using ctr by simp
  from assms(3) show ?thesis
  proof (cases rule: command_ok_cases)
    case none
    with ap x show ?thesis by (simp add: Apply_def command_defs)
  next
    case (cancel cid oid)
    with ap obtain code b1 ev where "InternalCancelOrder cid oid ?b = Some (code, b1)"
      "put_event ev b1 = Some b'"
      by (auto simp: Apply_def command_defs AsCancel_def Handle_Cancel_def bind_eq_Some_conv
          split: if_splits)
    with exact_volumes_InternalCancelOrder [OF r(1) x] exact_volumes_put_event show ?thesis by blast
  next
    case (add cid p q s ot tif mt f)
    with ap obtain code b1 ev where "InternalAddOrder now cid p q s ot tif mt f ?b = Some (code, b1)"
      "put_event ev b1 = Some b'"
      by (auto simp: Apply_def command_defs AsAdd_def Handle_Add_def bind_eq_Some_conv
          split: if_splits)
    moreover have "\<not> HasFlag f Hidden" using keep add by (simp add: keeps_volumes_def command_defs)
    ultimately show ?thesis
      using exact_volumes_InternalAddOrder [OF r(1) c x] exact_volumes_put_event by blast
  next
    case (modify cid oid p q)
    with ap obtain code b1 ev where "InternalModifyOrder now cid oid p q ?b = Some (code, b1)"
      "put_event ev b1 = Some b'"
      by (auto simp: Apply_def command_defs AsModify_def Handle_Modify_def bind_eq_Some_conv
          split: if_splits)
    moreover have "p \<noteq> m_Price od \<or> m_RemainingQuantity od \<le> q"
      if "find_order oid (queues_of ?b) = Some od" for od
      using that keep modify by (simp add: keeps_volumes_def command_defs r(2))
    ultimately show ?thesis
      using exact_volumes_InternalModifyOrder [OF r(1) c x] exact_volumes_put_event by blast
  qed
qed

lemma keeps_volumes_make [simp]:
  "keeps_volumes (MakeAdd cid p q s ot tif mt f) = (\<lambda>_. \<not> HasFlag f Hidden)"
  "keeps_volumes (MakeCancel cid oid) = (\<lambda>_. True)"
  by (simp_all add: keeps_volumes_def command_defs fun_eq_iff)

subsection \<open>The reduction in place\<close>

text \<open>\<^verbatim>\<open>UpdateQuantity\<close> returns \<open>new - old\<close> and the caller subtracts it, so the level grows by
  what the order shrinks by: the gap widens by twice the reduction.\<close>

lemma volume_gap_reduce:
  assumes "book_wf b" and "m_Orders b oid = Some e" and "deref e b = Some od"
    and "m_ClientID od = cid" and "q < m_RemainingQuantity od" and "\<not> HasFlag (m_Flags od) Hidden"
    and "InternalModifyOrder now cid oid (m_Price od) q b = Some (code, b')"
  shows "volume_gap it b' = (if it = level_it e
      then volume_gap it b + 2 * (m_RemainingQuantity od - q) else volume_gap it b)"
proof -
  let ?od = "od\<lparr>m_RemainingQuantity := q\<rparr>" and ?d = "q - m_RemainingQuantity od"
  from store_eq [OF assms(3)] obtain b1 where b1: "store e ?od b = Some b1" by metis
  have w1: "book_wf b1" and d1: "deref e b1 = Some ?od"
    using book_wf_store [OF assms(1,3) b1] by simp_all
  then obtain lvl1 where l1: "get_level (level_it e) b1 = Some lvl1" by (auto simp: deref_Some_iff)
  have "b' = put_level (level_it e) (lvl1\<lparr>volume := volume lvl1 - ?d\<rparr>) b1"
    using assms(2-7) b1 l1 less_imp_neq [OF assms(5)] less_not_sym [OF assms(5)]
    by (simp add: InternalModifyOrder_def UpdateQuantity_def Let_def not_hidden_iff)
  with l1 have "volume_gap it b' = (if it = level_it e
      then volume_gap it b1 - ?d else volume_gap it b1)"
    by (simp add: volume_gap_put_level volume_gap_Some)
  moreover have "volume_gap it b1 =
      (if it = level_it e then volume_gap it b + (m_RemainingQuantity od - q) else volume_gap it b)"
    using volume_gap_store [OF assms(3) b1, of it] assms(6) by (auto simp: shown_def)
  ultimately show ?thesis by auto
qed

subsection \<open>Fill-or-kill\<close>

lemma fok_scan_less_iff:
  "unat a + (\<Sum>l\<leftarrow>ls. unat (volume (snd l))) < 2 ^ 64 \<Longrightarrow>
   fok_scan blocked q a ls < q \<longleftrightarrow>
     unat a + (\<Sum>l\<leftarrow>takeWhile (\<lambda>l. \<not> blocked (fst l)) ls. unat (volume (snd l))) < unat q"
proof (induction blocked q a ls rule: fok_scan.induct)
  case (2 blocked q a p lvl ls)
  show ?case
  proof (cases "blocked p")
    case False
    have u: "unat (a + volume lvl) = unat a + unat (volume lvl)"
      using "2.prems" by (intro unat_add_bounded) simp
    show ?thesis
    proof (cases "q \<le> a + volume lvl")
      case True
      then have "unat q \<le> unat a + unat (volume lvl)" by (simp add: word_le_nat_alt u)
      with False True show ?thesis by (simp add: word_less_nat_alt u)
    next
      case le: False
      from "2.IH" [OF False refl le] "2.prems" u
      have "fok_scan blocked q (a + volume lvl) ls < q \<longleftrightarrow> unat (a + volume lvl) +
          (\<Sum>l\<leftarrow>takeWhile (\<lambda>l. \<not> blocked (fst l)) ls. unat (volume (snd l))) < unat q" by simp
      with False le u show ?thesis by (simp add: add.assoc)
    qed
  qed (simp add: word_less_nat_alt)
qed (simp add: word_less_nat_alt)

lemma unat_shown_total:
  "\<forall>x\<in>set xs. \<not> HasFlag (m_Flags (snd x)) Hidden \<Longrightarrow> resting_total (map snd xs) < 2 ^ 64 \<Longrightarrow>
   unat (shown_total xs) = resting_total (map snd xs)"
proof (induction xs)
  case (Cons x xs)
  then have "unat (shown_total xs) = resting_total (map snd xs)" by simp
  with Cons.prems show ?case by (simp add: shown_def unat_add_bounded)
qed simp

text \<open>The levels of an exact book, read as quantities of the queue.\<close>

lemma exact_level_volume:
  assumes "book_wf b" and "exact_volumes b" and "resting_total (queue s b) < 2 ^ 64"
    and "(p, lvl) \<in> set (levels s b)"
  shows "unat (volume lvl) = resting_total (map snd (orders lvl))"
proof -
  have gl: "get_level (s, p) b = Some lvl" by (rule level_orders_ok(1) [OF assms(1,4)])
  have "volume_gap (s, p) b = 0" using assms(2) unfolding exact_volumes_def by blast
  then have v: "volume lvl = shown_total (orders lvl)" using gl by (simp add: volume_gap_Some)
  have "\<not> HasFlag (m_Flags (snd x)) Hidden" if "x \<in> set (orders lvl)" for x
    using that assms(2,4) all_shownD [of b "snd x" s] by (force simp: exact_volumes_def queue_def)
  moreover from split_list [OF assms(4)] obtain ys zs where "levels s b = ys @ (p, lvl) # zs" by blast
  then have "resting_total (map snd (orders lvl)) < 2 ^ 64"
    using assms(3) by (simp add: queue_def)
  ultimately show ?thesis unfolding v by (intro unat_shown_total) auto
qed

lemma fok_rejected_iff:
  assumes "book_wf b" and "exact_volumes b" and "resting_total (queue (opposite side) b) < 2 ^ 64"
  shows "fok_rejected p q side ot b \<longleftrightarrow>
    reachable_quantity (price_blocked side ot p) (queue (opposite side) b) < unat q"
proof -
  let ?s = "opposite side" and ?bl = "price_blocked side ot p"
  let ?ls = "levels ?s b"
  let ?reach = "takeWhile (\<lambda>l. \<not> ?bl (fst l)) ?ls"
  have vol: "map (\<lambda>l. unat (volume (snd l))) ls = map (\<lambda>l. resting_total (map snd (orders (snd l)))) ls"
    if "set ls \<subseteq> set ?ls" for ls
  proof (intro map_cong refl)
    fix l assume "l \<in> set ls"
    with that have "(fst l, snd l) \<in> set ?ls" by auto
    then show "unat (volume (snd l)) = resting_total (map snd (orders (snd l)))"
      by (rule exact_level_volume [OF assms])
  qed
  have tot: "(\<Sum>l\<leftarrow>ls. unat (volume (snd l))) = resting_total (side_orders ls)" if "set ls \<subseteq> set ?ls" for ls
    unfolding vol [OF that] by (simp add: resting_total_concat comp_def split_beta)
  have "takeWhile (\<lambda>t. \<not> ?bl (m_Price t)) (side_orders ?ls) = side_orders ?reach"
  proof (rule takeWhile_concat_const)
    fix x y assume "x \<in> set ?ls" and "y \<in> set (case x of (_, lvl) \<Rightarrow> map snd (orders lvl))"
    then obtain n where "(fst x, snd x) \<in> set ?ls" "(n, y) \<in> set (orders (snd x))"
      by (auto simp: split_beta)
    from level_orders_ok(3) [OF assms(1) this]
    show "(\<not> ?bl (m_Price y)) = (\<not> ?bl (fst x))" by simp
  next
    fix x assume "x \<in> set ?ls"
    then show "(case x of (_, lvl) \<Rightarrow> map snd (orders lvl)) \<noteq> []"
      using level_orders_nonempty [OF assms(1), of "fst x" "snd x" ?s] by (simp add: split_beta)
  qed
  moreover have "set ?reach \<subseteq> set ?ls" by (auto dest: set_takeWhileD)
  ultimately have reach: "reachable_quantity ?bl (queue ?s b) = (\<Sum>l\<leftarrow>?reach. unat (volume (snd l)))"
    by (simp only: reachable_quantity_def queue_def tot)
  have "(\<Sum>l\<leftarrow>?ls. unat (volume (snd l))) < 2 ^ 64"
    using tot [of ?ls] assms(3) by (simp add: queue_def)
  then show ?thesis
    unfolding fok_rejected_def reach using fok_scan_less_iff [of 0 ?ls ?bl q] by simp
qed
end
