(* ===== verification/Order_Invariant.thy ===== *)
theory Order_Invariant
  imports Book_Spec
begin

text \<open>
  Properties of single orders that every order of a book keeps. The locale \<open>order_predicate\<close> asks of
  a predicate that it survives a reduction of the remaining quantity; its lemmas show that then the
  operations of the specification keep it for all resting orders, provided the orders a command
  brings in have it (\<open>brings\<close>). The interpretations: no order has more left than it asked for,
  and every price lies in a range.
\<close>

definition all_orders :: "(Order \<Rightarrow> bool) \<Rightarrow> queues \<Rightarrow> bool" where
  "all_orders ok qs \<longleftrightarrow> (\<forall>s. \<forall>od\<in>set (qs s). ok od)"

lemma find_order_in:
  "find_order oid qs = Some od \<Longrightarrow> (\<exists>s. od \<in> set (qs s)) \<and> m_OrderID od = oid"
proof -
  assume "find_order oid qs = Some od"
  then obtain i where "i < length (qs Buy @ qs Sell)" "(qs Buy @ qs Sell) ! i = od" "m_OrderID od = oid"
    unfolding find_order_def find_Some_iff by blast
  then have "od \<in> set (qs Buy @ qs Sell)" by (metis nth_mem)
  with \<open>m_OrderID od = oid\<close> show ?thesis by auto
qed

text \<open>The order a command constructs, if any, has the property; for a modification, when the order it
  moves has it.\<close>

definition brings :: "(Order \<Rightarrow> bool) \<Rightarrow> CommandPayload \<Rightarrow> bool" where
  "brings ok cmd \<longleftrightarrow>
     (case m_CommandData cmd of
        U_Add c \<Rightarrow> \<forall>now n. ok (mk_Order now n (add_clientID c) (add_price c) (add_quantity c) (add_side c)
          (add_order_type c) (add_tif c) (add_match_type c) (add_flags c))
      | U_Modify c \<Rightarrow> \<forall>now n od. ok od \<longrightarrow> ok (mk_Order now n (mod_clientID c) (mod_new_price c)
          (mod_new_quantity c) (m_Side od) (m_OrderType od) (m_TimeInForce od) (m_MatchType od) (m_Flags od))
      | U_Cancel c \<Rightarrow> True)"

locale order_predicate =
  fixes ok :: "Order \<Rightarrow> bool"
  assumes ok_less: "ok od \<Longrightarrow> q \<le> m_RemainingQuantity od \<Longrightarrow> ok (od\<lparr>m_RemainingQuantity := q\<rparr>)"
begin

lemma fill_queue_ok:
  assumes "fill_queue blocked q ts = (q', fs, ts')" and "\<forall>t\<in>set ts. ok t"
  shows "\<forall>t\<in>set ts'. ok t"
  using fill_queue_priority [OF assms(1)] assms(2)
  by (auto simp: word_le_nat_alt unat_minus_le word_less_nat_alt intro!: ok_less)

lemma spec_add_ok:
  assumes "all_orders ok qs" and new: "ok (mk_Order now next cid p q side ot tif mt f)"
    and "spec_add now cid p q side ot tif mt f illq next qs = (code, fs, next', qs')"
  shows "all_orders ok qs'"
proof -
  obtain q1 fs1 ts1 where f: "fill_queue (price_blocked side ot p) q (qs (opposite side)) = (q1, fs1, ts1)"
    by (metis prod_cases3)
  have "q1 \<le> q" using fill_queue_taker [OF f] by (simp add: word_le_nat_alt)
  then have "ok ((mk_Order now next cid p q side ot tif mt f)\<lparr>m_RemainingQuantity := q1\<rparr>)"
    using new by (intro ok_less) simp_all
  moreover have "all_orders ok (qs(opposite side := ts1))"
    using assms(1) fill_queue_ok [OF f] by (auto simp: all_orders_def)
  ultimately show ?thesis
    using assms unfolding spec_add_def f by (auto simp: Let_def all_orders_def split: if_splits)
qed

lemma remove_ok: "all_orders ok qs \<Longrightarrow> all_orders ok (remove_order oid qs)"
  by (auto simp: all_orders_def remove_order_def)

lemma spec_modify_ok:
  assumes ok: "all_orders ok qs"
    and new: "\<And>od. ok od \<Longrightarrow> ok (mk_Order now next cid p q (m_Side od) (m_OrderType od) (m_TimeInForce od)
      (m_MatchType od) (m_Flags od))"
    and spec: "spec_modify now cid oid p q next qs = (code, fs, next', qs')"
  shows "all_orders ok qs'"
proof (cases "find_order oid qs")
  case (Some od)
  have od: "ok od" using find_order_in [OF Some] ok by (auto simp: all_orders_def)
  have rep: "all_orders ok (replace_order oid (od\<lparr>m_RemainingQuantity := q\<rparr>) qs)"
    if "q < m_RemainingQuantity od"
    using ok ok_less [OF od, of q] that by (auto simp: all_orders_def replace_order_def)
  obtain code1 fs1 next1 qs1 where sa: "spec_add now cid p q (m_Side od) (m_OrderType od)
      (m_TimeInForce od) (m_MatchType od) (m_Flags od) False next (remove_order oid qs) = (code1, fs1, next1, qs1)"
    by (metis prod_cases4)
  from spec_add_ok [OF remove_ok [OF ok] new [OF od] this]
  have "all_orders ok qs1" .
  with spec Some sa ok rep show ?thesis by (auto simp: spec_modify_def split: if_splits)
qed (use ok spec in \<open>auto simp: spec_modify_def\<close>)

lemma spec_apply_ok:
  assumes ok: "all_orders ok qs" and new: "brings ok cmd"
    and spec: "spec_apply now cmd k illq next qs = (evs, next', qs')"
  shows "all_orders ok qs'"
proof (cases "m_CommandData cmd")
  case (U_Add c)
  obtain code fs next1 qs1 where "spec_add now (add_clientID c) (add_price c) (add_quantity c)
       (add_side c) (add_order_type c) (add_tif c) (add_match_type c) (add_flags c) illq next qs
       = (code, fs, next1, qs1)"
    by (metis prod_cases4)
  with spec_add_ok [OF ok _ this] new spec U_Add ok show ?thesis
    by (auto simp: spec_apply_def brings_def split: if_splits)
next
  case (U_Modify c)
  obtain code fs next1 qs1 where "spec_modify now (mod_clientID c) (mod_orderID c)
     (mod_new_price c) (mod_new_quantity c) next qs = (code, fs, next1, qs1)"
    by (metis prod_cases4)
  with spec_modify_ok [OF ok _ this] new spec U_Modify show ?thesis by (auto simp: spec_apply_def brings_def)
next
  case (U_Cancel c)
  with spec ok remove_ok [OF ok] show ?thesis
    by (auto simp: spec_apply_def spec_cancel_def split: prod.splits option.splits if_splits)
qed

end

subsection \<open>Orders never exceed their size\<close>

definition orders_ok :: "queues \<Rightarrow> bool" where
  "orders_ok qs \<longleftrightarrow> (\<forall>s. \<forall>od\<in>set (qs s). order_ok od)"

lemma orders_okI: "(\<And>s od. od \<in> set (qs s) \<Longrightarrow> order_ok od) \<Longrightarrow> orders_ok qs"
  by (simp add: orders_ok_def)

lemma orders_ok_all: "orders_ok qs = all_orders order_ok qs"
  by (simp add: orders_ok_def all_orders_def)

interpretation size_kept: order_predicate order_ok
  by unfold_locales (auto simp: order_ok_def)

lemma brings_order_ok: "brings order_ok cmd"
  by (auto simp: brings_def order_ok_def split: CommandUnion.split)

subsection \<open>Prices stay in a range\<close>

text \<open>An order whose price satisfies \<open>P\<close>; a command whose price does.\<close>

definition price_in :: "(Price \<Rightarrow> bool) \<Rightarrow> Order \<Rightarrow> bool" where
  "price_in P od \<longleftrightarrow> P (m_Price od)"

fun command_price :: "CommandUnion \<Rightarrow> Price option" where
  "command_price (U_Add c) = Some (add_price c)"
| "command_price (U_Modify c) = Some (mod_new_price c)"
| "command_price (U_Cancel c) = None"

interpretation price_kept: order_predicate "price_in P" for P
  by unfold_locales (simp add: price_in_def)

lemma brings_price_in:
  "\<forall>p\<in>set_option (command_price (m_CommandData cmd)). P p \<Longrightarrow> brings (price_in P) cmd"
  by (auto simp: brings_def price_in_def split: CommandUnion.split)

end
