(* ===== verification/Book_Runs.thy ===== *)
theory Book_Runs
  imports Book_Volume Order_Invariant
begin

text \<open>
  Invariants of whole runs. \<open>uncrossed\<close> (every bid is below every ask) is shown for the
  specification, one operation at a time;
  \<open>book_step\<close> is one \<^verbatim>\<open>Apply\<close>, \<open>reachable\<close> its closure from the constructor, and
  \<open>reachable_inv\<close> collects what holds of every reachable book. \<open>apply_all\<close> runs a
  list of commands, and \<open>book_run\<close> is such a run as a sequence of steps: an invariant of
  steps is one of runs (\<open>book_run_invariant\<close>).
\<close>

subsection \<open>Uncrossed queues\<close>

definition uncrossed :: "queues \<Rightarrow> bool" where
  "uncrossed qs \<longleftrightarrow> (\<forall>bid\<in>set (qs Buy). \<forall>ask\<in>set (qs Sell). m_Price bid <s m_Price ask)"

lemma uncrossed_iff:
  "uncrossed qs \<longleftrightarrow> (\<forall>s. \<forall>x\<in>set (qs s). \<forall>y\<in>set (qs (opposite s)).
     price_blocked s Limit (m_Price x) (m_Price y))"
proof
  assume u: "uncrossed qs"
  show "\<forall>s. \<forall>x\<in>set (qs s). \<forall>y\<in>set (qs (opposite s)). price_blocked s Limit (m_Price x) (m_Price y)"
  proof
    show "\<forall>x\<in>set (qs s). \<forall>y\<in>set (qs (opposite s)). price_blocked s Limit (m_Price x) (m_Price y)" for s
      using u by (cases s) (auto simp: uncrossed_def price_blocked_def)
  qed
next
  assume "\<forall>s. \<forall>x\<in>set (qs s). \<forall>y\<in>set (qs (opposite s)). price_blocked s Limit (m_Price x) (m_Price y)"
  from spec [OF this, of Buy] show "uncrossed qs"
    by (simp add: uncrossed_def price_blocked_def)
qed

lemma uncrossed_subset:
  assumes "uncrossed qs" and "\<And>s. m_Price ` set (qs' s) \<subseteq> m_Price ` set (qs s)"
  shows "uncrossed qs'"
  unfolding uncrossed_def
proof (intro ballI)
  fix x y assume xy: "x \<in> set (qs' Buy)" "y \<in> set (qs' Sell)"
  from xy(1) assms(2) [of Buy] obtain x' where "x' \<in> set (qs Buy)" "m_Price x = m_Price x'" by auto
  moreover from xy(2) assms(2) [of Sell] obtain y' where "y' \<in> set (qs Sell)" "m_Price y = m_Price y'"
    by auto
  ultimately show "m_Price x <s m_Price y" using assms(1) by (simp add: uncrossed_def)
qed

lemma price_blocked_mono:
  "price_blocked side ot p (m_Price h) \<Longrightarrow> has_priority (opposite side) h y \<Longrightarrow>
   price_blocked side ot p (m_Price y)"
  by (cases side) (auto simp: price_blocked_def has_priority_def)

lemma price_blocked_Limit: "ot \<noteq> Market \<Longrightarrow> price_blocked side ot p = price_blocked side Limit p"
  by (simp add: price_blocked_def fun_eq_iff)

lemma fill_queue_prices:
  assumes "fill_queue blocked q ts = (q', fs, ts')"
  shows "m_Price ` set ts' \<subseteq> m_Price ` set ts"
  using fill_queue_priority [OF assms] by (auto simp: image_iff)

text \<open>Once an order stopped matching with something left, the other side is out of its reach.\<close>

lemma fill_queue_exhausts:
  assumes "fill_queue (price_blocked side ot p) q ts = (q', fs, ts')" and "q' \<noteq> 0"
    and "sorted_wrt (has_priority (opposite side)) ts" and "y \<in> set ts'"
  shows "price_blocked side ot p (m_Price y)"
proof -
  from assms(4) obtain h hs where ts': "ts' = h # hs" by (cases ts') auto
  have "price_blocked side ot p (m_Price h)"
    using fill_queue_stops [OF assms(1,2)] ts' by simp
  moreover have "sorted_wrt (has_priority (opposite side)) ts'"
    using fill_queue_priority [OF assms(1)] assms(2,3) by (auto simp: sorted_wrt_append)
  ultimately show ?thesis
    using assms(4) ts' price_blocked_mono by auto
qed

lemma uncrossed_spec_add:
  assumes "uncrossed qs" and "\<And>s. sorted_wrt (has_priority s) (qs s)"
    and "spec_add now cid p q side ot tif mt f illq next qs = (code, fs, next', qs')"
  shows "uncrossed qs'"
proof -
  obtain q1 fs1 ts1 where f: "fill_queue (price_blocked side ot p) q (qs (opposite side)) = (q1, fs1, ts1)"
    by (metis prod_cases3)
  let ?qs1 = "qs(opposite side := ts1)"
  let ?rest = "(mk_Order now next cid p q side ot tif mt f)\<lparr>m_RemainingQuantity := q1\<rparr>"
  have u1: "uncrossed ?qs1"
    using fill_queue_prices [OF f] by (intro uncrossed_subset [OF assms(1)]) simp
  have u2: "uncrossed (?qs1(side := insert_order side ?rest (?qs1 side)))"
    if "q1 \<noteq> 0" "ot \<noteq> Market"
  proof -
    have r: "price_blocked side Limit p (m_Price y)" if "y \<in> set ts1" for y
      using fill_queue_exhausts [OF f \<open>q1 \<noteq> 0\<close> assms(2) that] price_blocked_Limit [OF \<open>ot \<noteq> Market\<close>] by simp
    have sym: "price_blocked (opposite s) Limit a b = price_blocked s Limit b a" for s a b
      by (cases s) (auto simp: price_blocked_def)
    show ?thesis
      using u1 r sym unfolding uncrossed_iff
      by (intro allI ballI, case_tac "s = side") (auto simp: neq_opposite)
  qed
  show ?thesis
    using assms(1,3) u1 u2 unfolding spec_add_def f by (auto simp: Let_def split: if_splits)
qed

lemma uncrossed_remove: "uncrossed qs \<Longrightarrow> uncrossed (remove_order oid qs)"
  by (auto simp: uncrossed_def remove_order_def)

lemma sorted_remove:
  "sorted_wrt P (qs s) \<Longrightarrow> sorted_wrt P (remove_order oid qs s)"
  by (simp add: remove_order_def sorted_wrt_filter)

lemma uncrossed_spec_modify:
  assumes u: "uncrossed qs" and srt: "\<And>s. sorted_wrt (has_priority s) (qs s)"
    and uniq: "\<And>s x od. find_order oid qs = Some od \<Longrightarrow> x \<in> set (qs s) \<Longrightarrow> m_OrderID x = oid \<Longrightarrow> x = od"
    and spec: "spec_modify now cid oid p q next qs = (code, fs, next', qs')"
  shows "uncrossed qs'"
proof (cases "find_order oid qs")
  case (Some od)
  let ?od = "od\<lparr>m_RemainingQuantity := q\<rparr>"
  have rep: "uncrossed (replace_order oid ?od qs)"
  proof (rule uncrossed_subset [OF u])
    fix s
    have "m_Price (if m_OrderID x = oid then ?od else x) = m_Price x" if "x \<in> set (qs s)" for x
      using uniq [OF Some that] by simp
    then show "m_Price ` set (replace_order oid ?od qs s) \<subseteq> m_Price ` set (qs s)"
      unfolding replace_order_def set_map image_image by (simp cong: image_cong)
  qed
  obtain code1 fs1 next1 qs1 where sa: "spec_add now cid p q (m_Side od) (m_OrderType od)
      (m_TimeInForce od) (m_MatchType od) (m_Flags od) False next (remove_order oid qs) = (code1, fs1, next1, qs1)"
    by (metis prod_cases4)
  from uncrossed_spec_add [OF uncrossed_remove [OF u] sorted_remove [OF srt] this]
  have "uncrossed qs1" .
  with spec Some sa u rep show ?thesis by (auto simp: spec_modify_def split: if_splits)
qed (use u spec in \<open>auto simp: spec_modify_def\<close>)

lemma find_order_unique:
  assumes "book_wf b" and "find_order oid (queues_of b) = Some od"
    and "x \<in> set (queue s b)" and "m_OrderID x = oid"
  shows "x = od"
proof -
  from assms(1,3) obtain e where e: "deref e b = Some x" by (auto simp: in_queue_iff)
  with assms(1,4) have "m_Orders b oid = Some e" using book_wfD(4) by blast
  with e assms(2) show ?thesis by (simp add: index_finds [OF assms(1)])
qed

lemma uncrossed_spec_apply:
  assumes wf: "book_wf b" and u: "uncrossed (queues_of b)"
    and spec: "spec_apply now cmd k illq next (queues_of b) = (evs, next', qs')"
  shows "uncrossed qs'"
proof (cases "m_CommandData cmd")
  case (U_Add c)
  obtain code fs next1 qs1 where "spec_add now (add_clientID c) (add_price c) (add_quantity c)
       (add_side c) (add_order_type c) (add_tif c) (add_match_type c) (add_flags c) illq next (queues_of b)
       = (code, fs, next1, qs1)"
    by (metis prod_cases4)
  with uncrossed_spec_add [OF u queue_sorted [OF wf] this] spec U_Add u show ?thesis
    by (auto simp: spec_apply_def split: if_splits)
next
  case (U_Modify c)
  obtain code fs next1 qs1 where "spec_modify now (mod_clientID c) (mod_orderID c)
     (mod_new_price c) (mod_new_quantity c) next (queues_of b) = (code, fs, next1, qs1)"
    by (metis prod_cases4)
  with uncrossed_spec_modify [OF u queue_sorted [OF wf] find_order_unique [OF wf] this] spec U_Modify
  show ?thesis by (auto simp: spec_apply_def)
next
  case (U_Cancel c)
  with spec u uncrossed_remove [OF u] show ?thesis
    by (auto simp: spec_apply_def spec_cancel_def split: prod.splits option.splits if_splits)
qed

subsection \<open>Reachable books\<close>

text \<open>A book reached from the constructor by \<^verbatim>\<open>Apply\<close>. The one side condition is that the
  64-bit order counter does not wrap, which takes \<open>2 ^ 64 - 2\<close> accepted orders.\<close>

inductive book_step :: "TimeNs \<Rightarrow> CommandPayload \<Rightarrow> EventPayload list \<Rightarrow> OrderBook \<Rightarrow> OrderBook \<Rightarrow> bool" where
  applied: "Apply now cmd b = Some (evs, b') \<Longrightarrow> command_ok cmd \<Longrightarrow> m_OrderCounter b \<noteq> - 1
    \<Longrightarrow> book_step now cmd evs b b'"

inductive_cases book_stepE: "book_step now cmd evs b b'"

inductive reachable :: "OrderBook \<Rightarrow> bool" where
  init: "reachable OrderBook_init"
| step: "reachable b \<Longrightarrow> book_step now cmd evs b b' \<Longrightarrow> reachable b'"

text \<open>What one step does, in terms of the specification.\<close>

lemma book_step_spec:
  assumes "book_wf b" and "book_step now cmd evs b b'"
  shows "book_wf b'" and "length evs \<le> MaxEventsPerCommand"
    and "spec_apply now cmd (m_TradeCounter b) (illiquid cmd b) (m_OrderCounter b) (queues_of b)
      = (evs, m_OrderCounter b', queues_of b')"
proof -
  from assms(2) have ap: "Apply now cmd b = Some (evs, b')" and ok: "command_ok cmd"
    and ctr: "m_OrderCounter b \<noteq> - 1"
    by (auto elim: book_stepE)
  obtain evs1 next1 qs1 where sp: "spec_apply now cmd (m_TradeCounter b) (illiquid cmd b) (m_OrderCounter b)
      (queues_of b) = (evs1, next1, qs1)"
    by (metis prod_cases3)
  note r = Apply_refines [OF assms(1) ctr ok sp]
  have len: "length evs1 \<le> MaxEventsPerCommand" using r(2) ap by (cases "length evs1 \<le> MaxEventsPerCommand") auto
  from r(1) [OF this] ap have "evs1 = evs" "book_wf b'" "queues_of b' = qs1" "m_OrderCounter b' = next1"
    by auto
  with sp len show "book_wf b'" "length evs \<le> MaxEventsPerCommand"
    "spec_apply now cmd (m_TradeCounter b) (illiquid cmd b) (m_OrderCounter b) (queues_of b)
      = (evs, m_OrderCounter b', queues_of b')" by simp_all
qed

lemma OrderBook_init_queue [simp]: "queue s OrderBook_init = []"
  by (cases s) (simp_all add: OrderBook_init_def queue_def)

lemma reachable_inv:
  assumes "reachable b"
  shows "book_wf b \<and> uncrossed (queues_of b) \<and> orders_ok (queues_of b)"
  using assms
proof induction
  case init
  show ?case by (simp add: book_wf_init uncrossed_def orders_ok_def)
next
  case (step b now cmd evs b')
  then have wf: "book_wf b" and u: "uncrossed (queues_of b)" and ok: "orders_ok (queues_of b)" by simp_all
  note st = book_step_spec [OF wf step.hyps(2)]
  have "orders_ok (queues_of b')"
    using size_kept.spec_apply_ok [OF _ brings_order_ok st(3)] ok by (simp add: orders_ok_all)
  with st(1) uncrossed_spec_apply [OF wf u st(3)] show ?case by blast
qed

subsection \<open>Running a list of commands\<close>

fun apply_all ::
  "(TimeNs \<times> CommandPayload) list \<Rightarrow> OrderBook \<Rightarrow> (EventPayload list list \<times> OrderBook) option" where
  "apply_all [] b = Some ([], b)"
| "apply_all ((now, cmd) # cmds) b = do {
     (evs, b1) \<leftarrow> Apply now cmd b;
     (evss, b2) \<leftarrow> apply_all cmds b1;
     Some (evs # evss, b2) }"

lemma apply_all_append:
  "apply_all (xs @ ys) b = do {
     (e1, b1) \<leftarrow> apply_all xs b; (e2, b2) \<leftarrow> apply_all ys b1; Some (e1 @ e2, b2) }"
  by (induction xs b rule: apply_all.induct) (auto split: Option.bind_splits prod.splits)

text \<open>A run is a sequence of steps as long as the order counter cannot wrap in it; so what every
  step of a reachable book keeps, a run keeps.\<close>

inductive book_run ::
  "(TimeNs \<times> CommandPayload) list \<Rightarrow> EventPayload list list \<Rightarrow> OrderBook \<Rightarrow> OrderBook \<Rightarrow> bool" where
  run_nil: "book_run [] [] b b"
| run_cons: "book_step now cmd evs b b1 \<Longrightarrow> book_run cmds evss b1 b'
    \<Longrightarrow> book_run ((now, cmd) # cmds) (evs # evss) b b'"

lemma spec_add_counter:
  "spec_add now cid p q side ot tif mt f illq next qs = (code, fs, next', qs') \<Longrightarrow>
   next' = next \<or> next' = next + 1"
  unfolding spec_add_def by (auto simp: Let_def split: prod.splits if_splits)

lemma spec_apply_counter:
  assumes "spec_apply now cmd k illq next qs = (evs, next', qs')"
  shows "next' = next \<or> next' = next + 1"
proof (cases "m_CommandData cmd")
  case (U_Add c)
  then show ?thesis
    using assms spec_add_counter by (fastforce simp: spec_apply_def split: prod.splits if_splits)
next
  case (U_Modify c)
  obtain code fs next1 qs1 where m: "spec_modify now (mod_clientID c) (mod_orderID c)
     (mod_new_price c) (mod_new_quantity c) next qs = (code, fs, next1, qs1)"
    by (metis prod_cases4)
  then have "next1 = next \<or> next1 = next + 1"
    by (auto simp: spec_modify_def split: option.splits if_splits prod.splits dest: spec_add_counter)
  with m assms U_Modify show ?thesis by (auto simp: spec_apply_def)
next
  case (U_Cancel c)
  then show ?thesis using assms by (auto simp: spec_apply_def split: prod.splits)
qed

lemma book_step_counter:
  assumes "reachable b" and "book_step now cmd evs b b'"
  shows "unat (m_OrderCounter b') \<le> unat (m_OrderCounter b) + 1"
proof -
  have "book_wf b" using reachable_inv [OF assms(1)] by simp
  from spec_apply_counter [OF book_step_spec(3) [OF this assms(2)]] show ?thesis
    by (auto simp: unat_word_ariths intro: order_trans [OF mod_less_eq_dividend])
qed

lemma apply_all_run:
  "apply_all cmds b = Some (evss, b') \<Longrightarrow> reachable b \<Longrightarrow> \<forall>cmd\<in>set (map snd cmds). command_ok cmd \<Longrightarrow>
   unat (m_OrderCounter b) + length cmds < 2 ^ 64 \<Longrightarrow> book_run cmds evss b b'"
proof (induction cmds b arbitrary: evss b' rule: apply_all.induct)
  case (2 now cmd cmds b)
  from "2.prems"(1) obtain evs b1 evss1 where ap: "Apply now cmd b = Some (evs, b1)"
    and rest: "apply_all cmds b1 = Some (evss1, b')" and evss: "evss = evs # evss1"
    by (auto split: Option.bind_splits)
  have "m_OrderCounter b \<noteq> - 1" using "2.prems"(4) by (auto simp: unsigned_minus_1_eq_mask mask_eq_exp_minus_1)
  with ap "2.prems"(3) have st: "book_step now cmd evs b b1" by (intro applied) auto
  with "2.prems"(2) have r1: "reachable b1" by (rule reachable.step)
  have "unat (m_OrderCounter b1) + length cmds < 2 ^ 64"
    using book_step_counter [OF "2.prems"(2) st] "2.prems"(4) by simp
  from "2.IH" [OF ap refl rest r1 _ this] "2.prems"(3) st show ?case by (simp add: evss run_cons)
qed (simp add: run_nil)

lemma book_run_invariant:
  assumes step: "\<And>now cmd evs b b'. reachable b \<Longrightarrow> I b \<Longrightarrow> Q cmd \<Longrightarrow> book_step now cmd evs b b' \<Longrightarrow> I b'"
    and "book_run cmds evss b b'" and "reachable b" and "I b" and "\<forall>cmd\<in>set (map snd cmds). Q cmd"
  shows "reachable b' \<and> I b'"
  using assms(2-)
proof induction
  case (run_cons now cmd evs b b1 cmds evss b')
  from run_cons.prems(1) run_cons.hyps(1) have "reachable b1" by (rule reachable.step)
  with run_cons step [of b cmd now evs b1] show ?case by simp
qed simp

lemma apply_all_reachable:
  "apply_all cmds b = Some (evss, b') \<Longrightarrow> reachable b \<Longrightarrow> \<forall>cmd\<in>set (map snd cmds). command_ok cmd \<Longrightarrow>
   unat (m_OrderCounter b) + length cmds < 2 ^ 64 \<Longrightarrow> reachable b'"
  using book_run_invariant [of "\<lambda>_. True" "\<lambda>_. True", OF _ apply_all_run] by simp

lemma apply_all_run_init:
  assumes "apply_all cmds OrderBook_init = Some (evss, b)"
    and "\<forall>cmd\<in>set (map snd cmds). command_ok cmd" and "length cmds < 2 ^ 64 - 1"
  shows "book_run cmds evss OrderBook_init b"
  by (rule apply_all_run [OF assms(1) reachable.init assms(2)])
    (use assms(3) in \<open>simp add: OrderBook_init_def\<close>)

context order_predicate
begin

lemma apply_all_ok:
  assumes "apply_all cmds OrderBook_init = Some (evss, b')"
    and "\<forall>cmd\<in>set (map snd cmds). command_ok cmd \<and> brings ok cmd" and "length cmds < 2 ^ 64 - 1"
  shows "reachable b' \<and> all_orders ok (queues_of b')"
proof (rule book_run_invariant [OF _ apply_all_run_init [OF assms(1) _ assms(3)] reachable.init])
  show "all_orders ok (queues_of OrderBook_init)" by (simp add: all_orders_def)
  show "\<forall>cmd\<in>set (map snd cmds). command_ok cmd" "\<forall>cmd\<in>set (map snd cmds). brings ok cmd"
    using assms(2) by blast+
  fix now cmd evs b b1
  assume "reachable b" "all_orders ok (queues_of b)" "brings ok cmd" "book_step now cmd evs b b1"
  with book_step_spec(3) reachable_inv show "all_orders ok (queues_of b1)"
    using spec_apply_ok by metis
qed

end

end
