(* ===== verification/Book_Facts.thy ===== *)
theory Book_Facts
  imports Book_Runs
begin

text \<open>
  The case analyses the properties of the book rest on: what \<open>spec_add\<close> does, rejected or
  matched (\<open>spec_add_cases\<close>), the three ways \<^verbatim>\<open>InternalModifyOrder\<close> can go, the
  events of a command and the one that closes it (\<open>closes\<close>), what \<open>find_order\<close> sees after each
  operation, the levels of a snapshot, and the bookkeeping of the trade counter (\<open>trade_budget\<close>: the
  trade counter plus the room left in the scratch array is constant while a command is matched).
  \<open>crosses\<close>, \<open>within_reach\<close> and \<open>expected_code\<close> say, in terms of the resting orders alone, which of
  them a new order meets, how much it can trade and what it is answered.
\<close>

subsection \<open>The specification of adding, by cases\<close>

definition rests :: "OrderType \<Rightarrow> TimeInForce \<Rightarrow> bool" where
  "rests ot tif \<longleftrightarrow> ot \<noteq> Market \<and> (tif = GTC \<or> tif = Day)"

lemma spec_add_cases:
  assumes "spec_add now cid p q side ot tif mt f illq next qs = (code, fs, next', qs')"
  obtains (rejected) "code \<in> {InvalidRequest, InsufficientLiquidity, PostOnlyViolation}"
      and "fs = []" and "next' = next" and "qs' = qs"
      and "code = PostOnlyViolation \<Longrightarrow> ot = Limit \<and> HasFlag f PostOnly \<and> spec_rejects_post_only p side qs"
      and "code = InsufficientLiquidity \<Longrightarrow> tif = FOK \<and> illq"
      and "code = InvalidRequest \<Longrightarrow> mt \<noteq> Standard"
  | (matched) q' ts' where "fill_queue (price_blocked side ot p) q (qs (opposite side)) = (q', fs, ts')"
      and "mt = Standard" and "\<not> (tif = FOK \<and> illq)"
      and "\<not> (ot = Limit \<and> HasFlag f PostOnly \<and> spec_rejects_post_only p side qs)"
      and "next' = next + 1" and "code \<notin> {InvalidRequest, InsufficientLiquidity, PostOnlyViolation}"
      and "qs' (opposite side) = ts'"
      and "qs' side = (if q' \<noteq> 0 \<and> rests ot tif
             then insert_order side ((mk_Order now next cid p q side ot tif mt f)\<lparr>m_RemainingQuantity := q'\<rparr>)
                    (qs side)
             else qs side)"
      and "code = Success \<longleftrightarrow> q' = 0 \<or> tif = IOC \<or> tif = FOK \<or> rests ot tif"
proof -
  obtain q1 fs1 ts1 where f: "fill_queue (price_blocked side ot p) q (qs (opposite side)) = (q1, fs1, ts1)"
    by (metis prod_cases3)
  consider (a) "mt \<noteq> Standard" | (b) "mt = Standard" "tif = FOK \<and> illq"
    | (c) "mt = Standard" "\<not> (tif = FOK \<and> illq)" "ot = Limit \<and> HasFlag f PostOnly \<and> spec_rejects_post_only p side qs"
    | (d) "mt = Standard" "\<not> (tif = FOK \<and> illq)" "\<not> (ot = Limit \<and> HasFlag f PostOnly \<and> spec_rejects_post_only p side qs)"
    by blast
  then show thesis
  proof cases
    case d
    have e: "(code, fs, next', qs') =
      (let qs1 = qs(opposite side := ts1);
           rest = (mk_Order now next cid p q side ot tif mt f)\<lparr>m_RemainingQuantity := q1\<rparr>
         in if q1 = 0 \<or> tif = IOC \<or> tif = FOK then (Success, fs1, next + 1, qs1)
            else if tif = GTC \<or> tif = Day then
              (if ot = Market then (InvalidOrderCombination, fs1, next + 1, qs1)
               else (Success, fs1, next + 1, qs1(side := insert_order side rest (qs1 side))))
            else if tif = GTD \<or> tif = ATO then (NotImplemented, fs1, next + 1, qs1)
            else (UnsupportedTimeInForce, fs1, next + 1, qs1))"
      using assms [symmetric] unfolding spec_add_def f if_not_P [OF d(2)] if_not_P [OF d(3)] by (simp add: d(1))
    show thesis
    proof (rule matched [OF _ d(1) d(2) d(3)])
      show "fill_queue (price_blocked side ot p) q (qs (opposite side)) = (q1, fs, ts1)"
        using e f by (auto simp: Let_def split: if_splits)
      show "next' = next + 1" "code \<notin> {InvalidRequest, InsufficientLiquidity, PostOnlyViolation}"
        "qs' (opposite side) = ts1"
        "qs' side = (if q1 \<noteq> 0 \<and> rests ot tif
             then insert_order side ((mk_Order now next cid p q side ot tif mt f)\<lparr>m_RemainingQuantity := q1\<rparr>)
                    (qs side)
             else qs side)"
        "code = Success \<longleftrightarrow> q1 = 0 \<or> tif = IOC \<or> tif = FOK \<or> rests ot tif"
        using e by (auto simp: Let_def rests_def split: if_splits)
    qed
  qed (use assms rejected in \<open>auto simp: spec_add_def\<close>)
qed

lemma InternalAddOrder_spec:
  assumes "book_wf b" and "m_OrderCounter b \<noteq> - 1"
    and "InternalAddOrder now cid p q side ot tif mt f b = Some (code, b')"
  obtains fs qs where "spec_add now cid p q side ot tif mt f (fok_rejected p q side ot b) (m_OrderCounter b)
      (queues_of b) = (code, fs, m_OrderCounter b', qs)"
    and "book_wf b'" and "\<And>s. queue s b' = qs s"
proof -
  obtain code1 fs next1 qs1 where sa: "spec_add now cid p q side ot tif mt f
      (fok_rejected p q side ot b) (m_OrderCounter b) (queues_of b) = (code1, fs, next1, qs1)"
    by (metis prod_cases4)
  from InternalAddOrder_refines [OF assms(1,2) this] assms(3)
  have "code1 = code" "book_wf b'" "queues_of b' = qs1" "m_OrderCounter b' = next1" by auto
  with sa that show thesis by blast
qed

lemma Match_spec:
  assumes "book_wf b" and "Match order b = Some (order', b')"
  obtains fs where "fill_queue (price_blocked (m_Side order) (m_OrderType order) (m_Price order))
      (m_RemainingQuantity order) (queue (opposite (m_Side order)) b)
      = (m_RemainingQuantity order', fs, queue (opposite (m_Side order)) b')"
proof -
  obtain q' fs ts' where f: "fill_queue (price_blocked (m_Side order) (m_OrderType order) (m_Price order))
      (m_RemainingQuantity order) (queue (opposite (m_Side order)) b) = (q', fs, ts')"
    by (metis prod_cases3)
  from Match_refines [OF assms(1) f] obtain b1 where
    "Match order b = Some (order\<lparr>m_RemainingQuantity := q'\<rparr>, b1)"
    "queue (opposite (m_Side order)) b1 = ts'" by blast
  with assms(2) have "m_RemainingQuantity order' = q'" "queue (opposite (m_Side order)) b' = ts'" by auto
  with f show thesis by (simp add: that)
qed

lemma post_only_no_fill:
  assumes "fill_queue (price_blocked side Limit p) q ts = (q', fs, ts')"
    and "\<not> spec_rejects_post_only p side qs" and "qs (opposite side) = ts"
  shows "ts' = ts" and "fs = []"
  using assms by (cases ts; auto simp: spec_rejects_post_only_def)+

text \<open>The branches of \<^verbatim>\<open>InternalAddOrder\<close> with the condition each is taken under.\<close>

lemma InternalAddOrderE:
  assumes "InternalAddOrder now cid p q side ot tif mt f b = Some (code, b')"
  obtains (request) "mt \<noteq> Standard" and "code = InvalidRequest" and "b' = b"
  | (liquidity) "mt = Standard" and "tif = FOK" and "fok_rejected p q side ot b"
      and "code = InsufficientLiquidity" and "b' = b"
  | (post_only) "mt = Standard" and "\<not> (tif = FOK \<and> fok_rejected p q side ot b)" and "ot = Limit"
      and "flags_and f PostOnly = PostOnly" and "post_only_match p side b"
      and "code = PostOnlyViolation" and "b' = b"
  | (matched) od b2 where "mt = Standard" and "\<not> (tif = FOK \<and> fok_rejected p q side ot b)"
      and "\<not> (ot = Limit \<and> flags_and f PostOnly = PostOnly \<and> post_only_match p side b)"
      and "Match (mk_Order now (m_OrderCounter b) cid p q side ot tif mt f)
             (b\<lparr>m_OrderCounter := m_OrderCounter b + 1\<rparr>) = Some (od, b2)"
      and "code = Success \<or> code = InvalidOrderCombination \<and> ot = Market \<and> tif \<in> {GTC, Day} \<or>
             code = NotImplemented \<and> tif \<in> {GTD, ATO} \<or> code = UnsupportedTimeInForce \<and> tif = ATC"
proof -
  let ?order = "mk_Order now (m_OrderCounter b) cid p q side ot tif mt f"
  let ?b1 = "b\<lparr>m_OrderCounter := m_OrderCounter b + 1\<rparr>"
  let ?po = "ot = Limit \<and> flags_and f PostOnly = PostOnly \<and> post_only_match p side b"
  consider (a) "mt \<noteq> Standard" | (b) "mt = Standard" "tif = FOK \<and> fok_rejected p q side ot b"
    | (c) "mt = Standard" "\<not> (tif = FOK \<and> fok_rejected p q side ot b)" ?po
    | (d) "mt = Standard" "\<not> (tif = FOK \<and> fok_rejected p q side ot b)" "\<not> ?po"
    by blast
  then show thesis
  proof cases
    case d
    then have "\<not> (ot = Limit \<and> flags_and f PostOnly = PostOnly \<and> post_only_match p side b)" by simp
    note run = assms [unfolded InternalAddOrder_unfold Let_def if_not_P [OF d(2)] if_not_P [OF d(3)]]
    then obtain od b2 where m: "Match ?order ?b1 = Some (od, b2)"
      using d(1) by (cases "Match ?order ?b1") auto
    have "code = Success \<or> code = InvalidOrderCombination \<and> ot = Market \<and> tif \<in> {GTC, Day} \<or>
        code = NotImplemented \<and> tif \<in> {GTD, ATO} \<or> code = UnsupportedTimeInForce \<and> tif = ATC"
      using run m d(1) by (cases tif) (auto simp: bind_eq_Some_conv split: if_splits)
    then show thesis by (rule matched [OF d m])
  next
    case a
    with assms have "code = InvalidRequest" "b' = b" by (simp_all add: InternalAddOrder_unfold)
    then show thesis by (rule request [OF a])
  next
    case b
    with assms have "code = InsufficientLiquidity" "b' = b" by (simp_all add: InternalAddOrder_unfold)
    with b show thesis by (intro liquidity) simp_all
  next
    case c
    have "code = PostOnlyViolation" "b' = b"
      using assms [unfolded InternalAddOrder_unfold if_not_P [OF c(2)] if_P [OF c(3)]] c(1) by simp_all
    with c show thesis by (intro post_only) simp_all
  qed
qed

lemma add_early:
  assumes "InternalAddOrder now cid p q side ot tif mt f b = Some (code, b')"
    and "code \<in> {InvalidRequest, InsufficientLiquidity, PostOnlyViolation}"
  shows "b' = b"
  using assms by (elim InternalAddOrderE) auto

lemma find_order_None_iff: "find_order oid qs = None \<longleftrightarrow> (\<forall>s. \<forall>x\<in>set (qs s). m_OrderID x \<noteq> oid)"
proof
  assume "find_order oid qs = None"
  then have "\<forall>x\<in>set (qs Buy @ qs Sell). m_OrderID x \<noteq> oid"
    by (auto simp: find_order_def find_None_iff)
  then show "\<forall>s. \<forall>x\<in>set (qs s). m_OrderID x \<noteq> oid"
    by (intro allI, case_tac s) auto
qed (auto simp: find_order_def find_None_iff)

lemma find_after_add:
  assumes "spec_add now cid p q side ot tif mt f illq next qs = (code, fs, next', qs')"
    and "find_order oid qs = None" and "oid \<noteq> next"
  shows "find_order oid qs' = None"
  using assms(1)
proof (cases rule: spec_add_cases)
  case (matched q' ts')
  have "m_OrderID x \<noteq> oid" if "x \<in> set (qs' s)" for s x
  proof (cases "s = side")
    case True
    with matched that assms(2,3) show ?thesis by (auto simp: find_order_None_iff split: if_splits)
  next
    case False
    with matched(7) that have "x \<in> set ts'" by (simp add: neq_opposite)
    then obtain y where "y \<in> set (qs (opposite side))" "m_OrderID x = m_OrderID y"
      using fill_queue_ids [OF matched(1)] by blast
    with assms(2) show ?thesis by (simp add: find_order_None_iff)
  qed
  then show ?thesis by (simp add: find_order_None_iff)
qed (use assms(2) in simp)

lemma find_order_replace:
  assumes "find_order oid qs \<noteq> None" and "m_OrderID od = oid"
  shows "find_order oid (replace_order oid od qs) = Some od"
proof -
  have "find (\<lambda>x. m_OrderID x = oid) xs \<noteq> None \<Longrightarrow>
      find (\<lambda>x. m_OrderID x = oid) (map (\<lambda>x. if m_OrderID x = oid then od else x) xs) = Some od" for xs
    using assms(2) by (induction xs) auto
  from this [of "qs Buy @ qs Sell"] assms(1) show ?thesis
    by (simp add: find_order_def replace_order_def)
qed

lemma GetSnapshot_side:
  assumes "length ls < 2 ^ 32 - unat c"
  shows "snapshot_side c depth ls =
    map (\<lambda>(p, l). \<lparr>s_price = p, s_quantity = volume l\<rparr>) (take (unat depth - unat c) ls)"
  using assms
proof (induction c depth ls rule: snapshot_side.induct)
  case (2 cur depth p l ls)
  then have "unat cur < 2 ^ 32 - 1" by simp
  moreover have "unat (- 1 :: u32) = 2 ^ 32 - 1" by (simp add: unsigned_minus_1_eq_mask mask_eq_exp_minus_1)
  ultimately have ne: "cur \<noteq> - 1" by (metis less_irrefl)
  have u: "unat (cur + 1) = Suc (unat cur)" by (rule unat_plus_one [OF ne])
  show ?case
  proof (cases "depth < cur + 1")
    case True
    then have "unat depth \<le> unat cur" by (simp add: word_less_nat_alt u)
    with True show ?thesis by simp
  next
    case False
    then have "unat cur < unat depth" by (simp add: word_less_nat_alt u)
    then have "unat depth - unat cur = Suc (unat depth - unat (cur + 1))" by (simp add: u)
    with False 2 show ?thesis by (simp add: u)
  qed
qed simp

lemma trade_events_nth:
  "n < length fs \<Longrightarrow> trade_events cid mt k fs ! n =
     MakeTrade (mk_Trade (k + of_nat n) cid (m_ClientID (fst (fs ! n))) (m_Price (fst (fs ! n)))
       (snd (fs ! n)) (m_Side (fst (fs ! n))) mt)"
proof (induction cid mt k fs arbitrary: n rule: trade_events.induct)
  case (2 cid mt k t q fs)
  then show ?case by (cases n) (simp_all add: add.commute add.left_commute)
qed simp

lemma trade_events_type: "ev \<in> set (trade_events cid mt k fs) \<Longrightarrow> m_EventType ev = Ev_Trade \<and> event_ok ev"
  by (induction cid mt k fs rule: trade_events.induct) auto

subsection \<open>Trade numbers\<close>

lemma match_step_cases:
  assumes "book_wf b" and "match_step order b = Some (go_on, order', b')"
  obtains "b' = b"
  | t ts where "queue (opposite (m_Side order)) b = t # ts"
      and "m_RemainingQuantity order \<noteq> 0"
      and "\<not> price_blocked (m_Side order) (m_OrderType order) (m_Price order) (m_Price t)"
proof (cases "m_RemainingQuantity order = 0")
  case True
  with assms(2) that(1) show thesis by (simp add: match_step_done)
next
  case rem: False
  show thesis
  proof (cases "queue (opposite (m_Side order)) b")
    case Nil
    with assms that(1) show thesis by (simp add: match_step_empty)
  next
    case (Cons t ts)
    with assms(2) that rem match_step_blocked [OF assms(1) Cons] show thesis
      by (cases "price_blocked (m_Side order) (m_OrderType order) (m_Price order) (m_Price t)") auto
  qed
qed

definition trade_budget :: "OrderBook \<Rightarrow> TradeID" where
  "trade_budget b = m_TradeCounter b + of_nat (room b)"

lemma trade_budget_match_step:
  assumes "book_wf b" and "match_step order b = Some (go_on, order', b')"
  shows "book_wf b' \<and> trade_budget b' = trade_budget b"
  using assms
proof (cases rule: match_step_cases)
  case (2 t ts)
  from match_step_spec [OF assms(1) 2 refl] obtain b1 where
    b1: "match_step order b = Some (True, Fill (min (m_RemainingQuantity order) (m_RemainingQuantity t)) order, b1)"
      "book_wf b1" "room b1 = room b - 1"
      "m_TradeCounter b1 = (if room b = 0 then m_TradeCounter b else m_TradeCounter b + 1)" by (auto simp: match_result_def)
  with assms(2) have "b1 = b'" by simp
  with b1 show ?thesis by (cases "room b") (simp_all add: trade_budget_def)
qed (use assms(1) in simp)

lemma trade_budget_Match:
  assumes "Match order b = Some (order', b')" and "book_wf b"
  shows "trade_budget b' = trade_budget b"
  using Match_invariant [where I = "\<lambda>x. book_wf x \<and> trade_budget x = trade_budget b", OF assms(1)]
    trade_budget_match_step assms(2) by metis

lemma trade_budget_InternalCancelOrder:
  assumes "book_wf b" and "InternalCancelOrder cid oid b = Some (code, b')"
  shows "trade_budget b' = trade_budget b"
  using assms by (cases rule: InternalCancelOrder_cases) (simp_all add: trade_budget_def room_def book_frame)

lemma trade_budget_InternalAddOrder:
  assumes "book_wf b" and "m_OrderCounter b \<noteq> - 1"
    and "InternalAddOrder now cid p q side ot tif mt f b = Some (code, b')"
  shows "trade_budget b' = trade_budget b"
proof -
  have n: "trade_budget (b\<lparr>m_OrderCounter := c\<rparr>) = trade_budget b" for c by (simp add: trade_budget_def)
  note m = trade_budget_Match [OF _ book_wf_next_id [OF assms(1,2)], unfolded n]
  from assms show ?thesis
  proof (cases rule: InternalAddOrder_cases)
    case (3 od b2)
    note mo = Match_new_order [OF assms(1,2) 3(1)]
    from rest_on_book_eq [OF mo(1,4), of od p side f] 3(2)
    have "m_ScratchCounter b' = m_ScratchCounter b2" "m_TradeCounter b' = m_TradeCounter b2" by auto
    with m [OF 3(1)] show ?thesis by (simp add: trade_budget_def room_def)
  qed (use m in auto)
qed

lemma InternalModifyOrder_cases:
  assumes "book_wf b" and "InternalModifyOrder now cid oid p q b = Some (code, b')"
  obtains (unchanged) "b' = b"
  | (moved) od b1 code1 where "InternalCancelOrder cid oid b = Some (Success, b1)"
      and "InternalAddOrder now cid p q (m_Side od) (m_OrderType od) (m_TimeInForce od)
             (m_MatchType od) (m_Flags od) b1 = Some (code1, b')"
      and "code = (if code1 = Success then Success else InvalidModify)"
      and "find_order oid (queues_of b) = Some od"
  | (reduced) e od lvl b1 where "store e (od\<lparr>m_RemainingQuantity := q\<rparr>) b = Some b1"
      and "deref e b = Some od" and "get_level (level_it e) b1 = Some lvl"
      and "b' = put_level (level_it e) (lvl\<lparr>volume := volume lvl - (q - m_RemainingQuantity od)\<rparr>) b1 \<or> b' = b1"
      and "code = Success"
proof (cases "m_Orders b oid")
  case None
  with assms(2) unchanged show thesis by (simp add: InternalModifyOrder_def)
next
  case (Some e)
  from book_wfD(5) [OF assms(1) Some] obtain od where od: "deref e b = Some od" "m_OrderID od = oid" by blast
  then have find: "find_order oid (queues_of b) = Some od" using Some by (simp add: index_finds [OF assms(1)])
  consider (a) "m_ClientID od \<noteq> cid" | (m) "m_ClientID od = cid" "p \<noteq> m_Price od \<or> m_RemainingQuantity od < q"
    | (r) "m_ClientID od = cid" "\<not> (p \<noteq> m_Price od \<or> m_RemainingQuantity od < q)" "q < m_RemainingQuantity od"
    | (n) "m_ClientID od = cid" "\<not> (p \<noteq> m_Price od \<or> m_RemainingQuantity od < q)" "\<not> q < m_RemainingQuantity od"
    by blast
  then show thesis
  proof cases
    case m
    obtain lvl where lvl: "get_level (level_it e) b = Some lvl" using od by (auto simp: deref_Some_iff)
    note c = InternalCancelOrder_eq [OF assms(1) Some od(1) lvl]
    with assms(2) Some od m find show thesis
      by (auto simp: InternalModifyOrder_def bind_eq_Some_conv intro!: moved [of "cancelled e od lvl b" od])
  next
    case r
    from store_eq [OF od(1)] obtain b1 where b1: "store e (od\<lparr>m_RemainingQuantity := q\<rparr>) b = Some b1" by metis
    have "deref e b1 = Some (od\<lparr>m_RemainingQuantity := q\<rparr>)"
      using book_wf_store(2) [OF assms(1) od(1) b1] by simp
    then obtain lvl where "get_level (level_it e) b1 = Some lvl" by (auto simp: deref_Some_iff)
    with assms(2) Some od r b1 show thesis
      by (intro reduced [of e od b1 lvl])
        (auto simp: InternalModifyOrder_def UpdateQuantity_def Let_def split: if_splits)
  qed (use assms(2) Some od unchanged in \<open>auto simp: InternalModifyOrder_def\<close>)
qed

lemma trade_budget_InternalModifyOrder:
  assumes "book_wf b" and "m_OrderCounter b \<noteq> - 1"
    and "InternalModifyOrder now cid oid p q b = Some (code, b')"
  shows "trade_budget b' = trade_budget b"
  using assms(1,3)
proof (cases rule: InternalModifyOrder_cases)
  case (moved od b1 code1)
  have w: "book_wf b1" "m_OrderCounter b1 = m_OrderCounter b"
    using assms(1) moved(1) by (cases rule: InternalCancelOrder_cases; simp add: book_wf_cancelled book_frame)+
  with trade_budget_InternalAddOrder [OF w(1) _ moved(2)] trade_budget_InternalCancelOrder [OF assms(1) moved(1)] assms(2)
  show ?thesis by simp
next
  case (reduced e od lvl b1)
  then have "m_ScratchCounter b' = m_ScratchCounter b" "m_TradeCounter b' = m_TradeCounter b"
    by (auto simp: store_def bind_eq_Some_conv book_frame)
  then show ?thesis by (simp add: trade_budget_def room_def)
qed simp

lemma put_event_counts:
  "put_event ev b = Some b' \<Longrightarrow> m_TradeCounter b' = m_TradeCounter b \<and> room b = Suc (room b') \<and>
   scratch b' = scratch b @ [ev]"
  by (auto simp: put_event_def room_def scratch_def split: if_splits)

lemma Apply_cases:
  assumes "command_ok cmd" and "m_CommandType cmd \<noteq> Cmd_None" and "Apply now cmd b = Some (evs, b')"
  obtains (add) cid p q s ot tif mt f code b1 ev where "cmd = MakeAdd cid p q s ot tif mt f"
      and "InternalAddOrder now cid p q s ot tif mt f (b\<lparr>m_ScratchCounter := 0\<rparr>) = Some (code, b1)"
      and "put_event ev b1 = Some b'" and "evs = scratch b'"
      and "ev = (if code = Success then MakeOrderAccepted cid (m_OrderCounter b1 - 1) else MakeOrderRejected cid code)"
  | (modify) cid oid p q code b1 ev where "cmd = MakeModify cid oid p q"
      and "InternalModifyOrder now cid oid p q (b\<lparr>m_ScratchCounter := 0\<rparr>) = Some (code, b1)"
      and "put_event ev b1 = Some b'" and "evs = scratch b'"
      and "ev = (if code = Success then MakeModifyAccepted cid oid oid else MakeModifyRejected cid oid code)"
  | (cancel) cid oid code b1 ev where "cmd = MakeCancel cid oid"
      and "InternalCancelOrder cid oid (b\<lparr>m_ScratchCounter := 0\<rparr>) = Some (code, b1)"
      and "put_event ev b1 = Some b'" and "evs = scratch b'"
      and "ev = (if code = Success then MakeCancelAccepted cid oid else MakeCancelRejected cid oid code)"
  using assms(1)
proof (cases rule: command_ok_cases)
  case none
  with assms(2) show thesis by simp
next
  case (add cid p q s ot tif mt f)
  with assms(3) obtain code b1 where
    "InternalAddOrder now cid p q s ot tif mt f (b\<lparr>m_ScratchCounter := 0\<rparr>) = Some (code, b1)"
    "(if code = Success then put_event (MakeOrderAccepted cid (m_OrderCounter b1 - 1)) b1 else put_event (MakeOrderRejected cid code) b1)
      = Some b'" "evs = scratch b'"
    by (auto simp: Apply_def command_defs AsAdd_def Handle_Add_def bind_eq_Some_conv cong: if_cong)
  with add that(1) show thesis by (cases "code = Success") auto
next
  case (modify cid oid p q)
  with assms(3) obtain code b1 where
    "InternalModifyOrder now cid oid p q (b\<lparr>m_ScratchCounter := 0\<rparr>) = Some (code, b1)"
    "(if code = Success then put_event (MakeModifyAccepted cid oid oid) b1 else put_event (MakeModifyRejected cid oid code) b1)
      = Some b'" "evs = scratch b'"
    by (auto simp: Apply_def command_defs AsModify_def Handle_Modify_def bind_eq_Some_conv cong: if_cong)
  with modify that(2) show thesis by (cases "code = Success") auto
next
  case (cancel cid oid)
  with assms(3) obtain code b1 where
    "InternalCancelOrder cid oid (b\<lparr>m_ScratchCounter := 0\<rparr>) = Some (code, b1)"
    "(if code = Success then put_event (MakeCancelAccepted cid oid) b1 else put_event (MakeCancelRejected cid oid code) b1)
      = Some b'" "evs = scratch b'"
    by (auto simp: Apply_def command_defs AsCancel_def Handle_Cancel_def bind_eq_Some_conv cong: if_cong)
  with cancel that(3) show thesis by (cases "code = Success") auto
qed

lemma trade_budget_Apply:
  assumes "book_wf b" and "m_OrderCounter b \<noteq> - 1" and "command_ok cmd" and "m_CommandType cmd \<noteq> Cmd_None"
    and "Apply now cmd b = Some (evs, b')"
  shows "m_TradeCounter b' = m_TradeCounter b + of_nat (length evs - 1)"
proof -
  let ?b = "b\<lparr>m_ScratchCounter := 0\<rparr>"
  note r = reset_scratch [OF assms(1)]
  have c: "m_OrderCounter ?b \<noteq> - 1" using assms(2) by simp
  have fin: "m_TradeCounter b' = m_TradeCounter b + of_nat (length evs - 1)"
    if "trade_budget b1 = trade_budget ?b" "put_event ev b1 = Some b'" "evs = scratch b'" for b1 ev
  proof -
    note pe = put_event_counts [OF that(2)]
    have le: "m_ScratchCounter b1 < MaxEventsPerCommand"
      using that(2) by (simp add: put_event_def split: if_splits)
    have "length evs - 1 + room b1 = MaxEventsPerCommand"
      using pe that(3) le by (auto simp: room_def scratch_def)
    then have "(of_nat MaxEventsPerCommand :: TradeID) = of_nat (length evs - 1) + of_nat (room b1)"
      by (metis of_nat_add)
    with that(1) pe show ?thesis by (simp add: trade_budget_def r(4))
  qed
  from assms(3-5) show ?thesis
  proof (cases rule: Apply_cases)
    case add
    with fin trade_budget_InternalAddOrder [OF r(1) c] show ?thesis by blast
  next
    case modify
    with fin trade_budget_InternalModifyOrder [OF r(1) c] show ?thesis by blast
  next
    case cancel
    with fin trade_budget_InternalCancelOrder [OF r(1)] show ?thesis by blast
  qed
qed

subsection \<open>Events of a command\<close>

lemma spec_apply_MakeAdd:
  "spec_apply now (MakeAdd cid p q side ot tif mt f) k illq nx qs =
     (let (code, fs, nx', qs') = spec_add now cid p q side ot tif mt f illq nx qs
      in (trade_events cid Standard k fs @
            [if code = Success then MakeOrderAccepted cid nx else MakeOrderRejected cid code], nx', qs'))"
  by (simp add: spec_apply_def command_defs cong: if_cong)

lemma trade_events_mem:
  "ev \<in> set (trade_events cid mt k fs) \<Longrightarrow> \<exists>i od r. (od, r) \<in> set fs \<and>
     ev = MakeTrade (mk_Trade i cid (m_ClientID od) (m_Price od) r (m_Side od) mt)"
  by (induction cid mt k fs rule: trade_events.induct) auto

lemma full_fills_mem: "(od, r) \<in> set (full_fills ds) \<Longrightarrow> od \<in> set ds"
  by (auto simp: full_fills_def)

lemma fill_queue_fills:
  assumes "fill_queue blocked q ts = (q', fs, ts')" and "(od, r) \<in> set fs"
  shows "od \<in> set ts"
  using fill_queue_priority [OF assms(1)] assms(2) full_fills_mem by fastforce

lemma fst_spec_add_clock:
  "spec_add now cid p q side ot tif mt f illq next qs = (code, fs, next', qs') \<Longrightarrow>
   \<exists>qs''. spec_add now' cid p q side ot tif mt f illq next qs = (code, fs, next', qs'')"
  unfolding spec_add_def by (auto simp: Let_def split: prod.splits if_splits)

text \<open>The events of a command do not depend on the clock.\<close>

lemma spec_modify_clock:
  assumes "spec_modify now cid oid p q nx qs = (code, fs, next1, qs1)"
  shows "\<exists>qs2. spec_modify now' cid oid p q nx qs = (code, fs, next1, qs2)"
proof (cases "find_order oid qs")
  case (Some od)
  obtain code2 fs2 next2 qs2 where a: "spec_add now cid p q (m_Side od) (m_OrderType od)
      (m_TimeInForce od) (m_MatchType od) (m_Flags od) False nx (remove_order oid qs)
      = (code2, fs2, next2, qs2)"
    by (metis prod_cases4)
  from fst_spec_add_clock [OF this, of now'] a Some assms show ?thesis
    by (auto simp: spec_modify_def split: if_splits)
qed (use assms in \<open>auto simp: spec_modify_def\<close>)

lemma fst_spec_apply_clock:
  "fst (spec_apply now cmd k illq nx qs) = fst (spec_apply now' cmd k illq nx qs)"
proof (cases "m_CommandData cmd")
  case (U_Add c)
  obtain code fs next1 qs1 where a: "spec_add now (add_clientID c) (add_price c) (add_quantity c)
     (add_side c) (add_order_type c) (add_tif c) (add_match_type c) (add_flags c) illq nx qs
     = (code, fs, next1, qs1)"
    by (metis prod_cases4)
  from fst_spec_add_clock [OF this, of now'] a U_Add show ?thesis by (auto simp: spec_apply_def)
next
  case (U_Modify c)
  obtain code fs next1 qs1 where a: "spec_modify now (mod_clientID c) (mod_orderID c)
     (mod_new_price c) (mod_new_quantity c) nx qs = (code, fs, next1, qs1)"
    by (metis prod_cases4)
  from spec_modify_clock [OF this, of now'] a U_Modify show ?thesis by (auto simp: spec_apply_def)
qed (simp add: spec_apply_def)

lemma Apply_replies:
  assumes "book_wf b" and "m_OrderCounter b \<noteq> - 1" and "command_ok cmd"
  shows "map_option fst (Apply now cmd b) =
    (let evs = fst (spec_apply now cmd (m_TradeCounter b) (illiquid cmd b) (m_OrderCounter b) (queues_of b))
     in if length evs \<le> MaxEventsPerCommand then Some evs else None)"
proof -
  obtain evs nx qs where e: "spec_apply now cmd (m_TradeCounter b) (illiquid cmd b) (m_OrderCounter b)
      (queues_of b) = (evs, nx, qs)" by (metis prod_cases3)
  from Apply_refines [OF assms e] e show ?thesis by (cases "length evs \<le> MaxEventsPerCommand") auto
qed

text \<open>The resting part of a new order is the order that was sent, reduced by what it traded.\<close>

lemma new_order_at_rest:
  assumes "fill_queue (price_blocked side ot p) q (qs (opposite side)) = (q', fs, ts')"
    and opp: "qs' (opposite side) = ts'"
    and same: "qs' side = (if q' \<noteq> 0 \<and> rests ot tif then insert_order side od (qs side) else qs side)"
    and none: "find_order i qs = None" and x: "find_order i qs' = Some x"
  shows "x = od \<and> q' \<noteq> 0 \<and> rests ot tif"
proof -
  from find_order_in [OF x] obtain s where xs: "x \<in> set (qs' s)" "m_OrderID x = i" by blast
  show ?thesis
  proof (cases "s = side")
    case True
    with xs same none show ?thesis by (auto simp: find_order_None_iff split: if_splits)
  next
    case False
    then have "x \<in> set ts'" using xs(1) opp by (simp add: neq_opposite)
    then obtain y where "y \<in> set (qs (opposite side))" "m_OrderID x = m_OrderID y"
      using fill_queue_ids [OF assms(1)] by blast
    with xs(2) none show ?thesis by (simp add: find_order_None_iff)
  qed
qed

subsection \<open>Which orders a new order meets\<close>

text \<open>The price of a resting order is acceptable to a new order: a buyer pays at most, a seller takes at
  least, its own price. \<open>within_reach\<close> is all that the new order could trade; \<open>expected_code\<close> is the
  answer it must get, from that total and whether it meets any order at all.\<close>

definition crosses :: "Side \<Rightarrow> Price \<Rightarrow> Price \<Rightarrow> bool" where
  "crosses side p x \<longleftrightarrow> (case side of Buy \<Rightarrow> sint x \<le> sint p | Sell \<Rightarrow> sint p \<le> sint x)"

definition within_reach :: "Side \<Rightarrow> OrderType \<Rightarrow> Price \<Rightarrow> Order list \<Rightarrow> nat" where
  "within_reach side ot p others =
     (\<Sum>od\<leftarrow>filter (\<lambda>od. ot = Market \<or> crosses side p (m_Price od)) others. unat (m_RemainingQuantity od))"

definition expected_code ::
  "OrderType \<Rightarrow> TimeInForce \<Rightarrow> MatchType \<Rightarrow> Flags \<Rightarrow> nat \<Rightarrow> nat \<Rightarrow> bool \<Rightarrow> ErrorCode" where
  "expected_code ot tif mt f wanted reach meets =
     (if mt \<noteq> Standard then InvalidRequest
      else if tif = FOK \<and> reach < wanted then InsufficientLiquidity
      else if ot = Limit \<and> HasFlag f PostOnly \<and> meets then PostOnlyViolation
      else if wanted \<le> reach then Success
      else case tif of
          IOC \<Rightarrow> Success | FOK \<Rightarrow> Success
        | GTC \<Rightarrow> (if ot = Market then InvalidOrderCombination else Success)
        | Day \<Rightarrow> (if ot = Market then InvalidOrderCombination else Success)
        | GTD \<Rightarrow> NotImplemented | ATO \<Rightarrow> NotImplemented
        | ATC \<Rightarrow> UnsupportedTimeInForce)"

lemma not_blocked_iff: "\<not> price_blocked side ot p x \<longleftrightarrow> ot = Market \<or> crosses side p x"
  by (cases side) (auto simp: price_blocked_def crosses_def word_sless_alt not_less)

lemma takeWhile_filter:
  "sorted_wrt R xs \<Longrightarrow> (\<And>x y. R x y \<Longrightarrow> \<not> P x \<Longrightarrow> \<not> P y) \<Longrightarrow> takeWhile P xs = filter P xs"
proof (induction xs)
  case (Cons x xs)
  then have "filter P xs = []" if "\<not> P x" using that by (auto simp: filter_empty_conv)
  with Cons show ?case by auto
qed simp

lemma reachable_within_reach:
  assumes "sorted_wrt (has_priority (opposite side)) ts"
  shows "reachable_quantity (price_blocked side ot p) ts = within_reach side ot p ts"
proof -
  have "takeWhile (\<lambda>t. \<not> price_blocked side ot p (m_Price t)) ts = filter (\<lambda>t. \<not> price_blocked side ot p (m_Price t)) ts"
    by (rule takeWhile_filter [OF assms]) (use price_blocked_mono in blast)
  then show ?thesis
    by (simp add: reachable_quantity_def within_reach_def not_blocked_iff resting_total_def)
qed

lemma spec_rejects_post_only_iff:
  assumes "sorted_wrt (has_priority (opposite side)) (qs (opposite side))"
  shows "spec_rejects_post_only p side qs \<longleftrightarrow> (\<exists>od\<in>set (qs (opposite side)). crosses side p (m_Price od))"
proof (cases "qs (opposite side)")
  case (Cons t ts)
  have "price_blocked side Limit p (m_Price y)" if "y \<in> set ts" "price_blocked side Limit p (m_Price t)" for y
    using that assms Cons price_blocked_mono [of side Limit p t y] by simp
  then have "crosses side p (m_Price t)" if "y \<in> set ts" "crosses side p (m_Price y)" for y
    using that not_blocked_iff [of side Limit p] by auto
  with Cons show ?thesis by (auto simp: spec_rejects_post_only_def not_blocked_iff)
qed (simp add: spec_rejects_post_only_def)

lemma fill_queue_reach:
  assumes "fill_queue (price_blocked side ot p) q ts = (q', fs, ts')"
    and "sorted_wrt (has_priority (opposite side)) ts"
  shows "filled fs = min (unat q) (within_reach side ot p ts)"
    and "q' = 0 \<longleftrightarrow> unat q \<le> within_reach side ot p ts"
    and "q' = q - of_nat (filled fs)"
proof -
  show f: "filled fs = min (unat q) (within_reach side ot p ts)"
    using fill_queue_amount [OF assms(1)] reachable_within_reach [OF assms(2)] by simp
  have t: "unat q = unat q' + filled fs" by (rule fill_queue_taker [OF assms(1)])
  have "q' = 0 \<longleftrightarrow> unat q' = 0" by (simp add: unat_eq_0)
  with t f show "q' = 0 \<longleftrightarrow> unat q \<le> within_reach side ot p ts" by linarith
  have "of_nat (unat q) = (of_nat (unat q' + filled fs) :: Quantity)" using t by (rule arg_cong)
  then show "q' = q - of_nat (filled fs)" by simp
qed

lemma spec_add_code:
  assumes "spec_add now cid p q side ot tif mt f illq next qs = (code, fs, next', qs')"
    and "sorted_wrt (has_priority (opposite side)) (qs (opposite side))"
    and "tif = FOK \<Longrightarrow> illq \<longleftrightarrow> within_reach side ot p (qs (opposite side)) < unat q"
  shows "code = expected_code ot tif mt f (unat q) (within_reach side ot p (qs (opposite side)))
    (\<exists>od\<in>set (qs (opposite side)). crosses side p (m_Price od))"
proof -
  obtain q1 fs1 ts1 where f: "fill_queue (price_blocked side ot p) q (qs (opposite side)) = (q1, fs1, ts1)"
    by (metis prod_cases3)
  note q1 = fill_queue_reach(2) [OF f assms(2)]
  show ?thesis
    using assms(1,3) unfolding spec_add_def f spec_rejects_post_only_iff [where qs = qs, OF assms(2)] expected_code_def
    by (cases tif) (auto simp: Let_def q1 split: if_splits)
qed

lemma find_new_order:
  assumes "fill_queue (price_blocked side ot p) q (qs (opposite side)) = (q', fs, ts')"
    and opp: "qs' (opposite side) = ts'"
    and same: "qs' side = (if q' \<noteq> 0 \<and> rests ot tif then insert_order side od (qs side) else qs side)"
    and none: "find_order i qs = None" and id: "m_OrderID od = i"
  shows "find_order i qs' = (if q' \<noteq> 0 \<and> rests ot tif then Some od else None)"
proof (cases "find_order i qs'")
  case None
  then have "od \<notin> set (qs' side)" using id by (auto simp: find_order_None_iff)
  with None same show ?thesis by auto
next
  case (Some x)
  with new_order_at_rest [where qs' = qs', OF assms(1) opp same none Some] show ?thesis by simp
qed

lemma spec_apply_MakeModify:
  "spec_apply now (MakeModify cid oid p q) k illq nx qs =
     (let (code, fs, nx', qs') = spec_modify now cid oid p q nx qs
      in (trade_events cid Standard k fs @
            [if code = Success then MakeModifyAccepted cid oid oid else MakeModifyRejected cid oid code], nx', qs'))"
  by (simp add: spec_apply_def command_defs cong: if_cong)

text \<open>The book without one order: its other side is whole, and neither the order's identifier nor the
  next one is in use.\<close>

lemma removed_order:
  assumes "book_wf b" and "find_order oid (queues_of b) = Some od"
  shows "remove_order oid (queues_of b) (opposite (m_Side od)) = queue (opposite (m_Side od)) b"
    and "find_order oid (remove_order oid (queues_of b)) = None"
    and "find_order (m_OrderCounter b) (remove_order oid (queues_of b)) = None"
proof -
  have "m_OrderID x \<noteq> oid" if "x \<in> set (queue (opposite (m_Side od)) b)" for x
    using find_order_unique [OF assms that] queue_ok(1) [OF assms(1) that] opposite_neq by metis
  then show "remove_order oid (queues_of b) (opposite (m_Side od)) = queue (opposite (m_Side od)) b"
    by (simp add: remove_order_def filter_id_conv)
  show "find_order oid (remove_order oid (queues_of b)) = None"
    by (simp add: find_order_None_iff remove_order_def)
  have "m_OrderID x \<noteq> m_OrderCounter b" if "x \<in> set (queue s b)" for s x
    using queue_ok(2) [OF assms(1) that] by auto
  then show "find_order (m_OrderCounter b) (remove_order oid (queues_of b)) = None"
    by (auto simp: find_order_None_iff remove_order_def)
qed

subsection \<open>Snapshots\<close>

lemma snapshot_side_best:
  assumes "book_wf b" and "length (levels s b) < 2 ^ 32" and shown: "shown_levels = snapshot_side 0 depth (levels s b)"
  shows "sorted_wrt (\<lambda>x y. side_lt s (s_price x) (s_price y)) shown_levels"
    and "od \<in> set (queue s b) \<Longrightarrow> m_Price od \<notin> s_price ` set shown_levels \<Longrightarrow> l \<in> set shown_levels \<Longrightarrow>
      side_lt s (s_price l) (m_Price od)"
proof -
  have eq: "shown_levels = map (\<lambda>(p, l). \<lparr>s_price = p, s_quantity = volume l\<rparr>) (take (unat depth) (levels s b))"
    using GetSnapshot_side [of "levels s b" 0 depth] assms(2) shown by simp
  have srt: "sorted_wrt (\<lambda>x y. side_lt s (fst x) (fst y)) (take (unat depth) (levels s b) @ drop (unat depth) (levels s b))"
    using book_wfD(1) [OF assms(1)] by (simp add: keys_sorted_def sorted_wrt_map)
  then show "sorted_wrt (\<lambda>x y. side_lt s (s_price x) (s_price y)) shown_levels"
    by (simp add: eq sorted_wrt_map sorted_wrt_append split_beta del: append_take_drop_id)
  assume od: "od \<in> set (queue s b)" and ns: "m_Price od \<notin> s_price ` set shown_levels" and l: "l \<in> set shown_levels"
  from od obtain p lvl n where "(p, lvl) \<in> set (levels s b)" "(n, od) \<in> set (orders lvl)"
    by (auto simp: queue_def)
  with level_orders_ok(3) [OF assms(1) this] have mem: "(m_Price od, lvl) \<in> set (levels s b)" by simp
  have "(m_Price od, lvl) \<notin> set (take (unat depth) (levels s b))"
    using ns by (force simp: eq)
  with mem have "(m_Price od, lvl) \<in> set (drop (unat depth) (levels s b))"
    by (metis Un_iff append_take_drop_id set_append)
  moreover from l obtain x where "x \<in> set (take (unat depth) (levels s b))" "s_price l = fst x"
    by (auto simp: eq split_beta)
  ultimately show "side_lt s (s_price l) (m_Price od)"
    using srt by (fastforce simp: sorted_wrt_append simp del: append_take_drop_id)
qed

subsection \<open>What closes a command\<close>

text \<open>The closing event is of the kind of the command and names its client and, for a modification or a
  cancellation, its order.\<close>

definition closes :: "CommandPayload \<Rightarrow> EventPayload \<Rightarrow> bool" where
  "closes cmd ev \<longleftrightarrow>
     (case m_CommandData cmd of
        U_Add c \<Rightarrow> (\<exists>oid. ev = MakeOrderAccepted (add_clientID c) oid) \<or>
          (\<exists>code. code \<noteq> Success \<and> ev = MakeOrderRejected (add_clientID c) code)
      | U_Modify c \<Rightarrow> ev = MakeModifyAccepted (mod_clientID c) (mod_orderID c) (mod_orderID c) \<or>
          (\<exists>code. code \<noteq> Success \<and> ev = MakeModifyRejected (mod_clientID c) (mod_orderID c) code)
      | U_Cancel c \<Rightarrow> ev = MakeCancelAccepted (can_clientID c) (can_orderID c) \<or>
          (\<exists>code. code \<noteq> Success \<and> ev = MakeCancelRejected (can_clientID c) (can_orderID c) code))"

lemma spec_apply_closes:
  assumes "command_ok cmd" and "m_CommandType cmd \<noteq> Cmd_None"
    and "spec_apply now cmd k illq next qs = (evs, next', qs')"
  obtains cid fs ev where "evs = trade_events cid Standard k fs @ [ev]" and "event_ok ev" and "closes cmd ev"
    and "m_CommandType cmd = Cmd_Cancel \<Longrightarrow> fs = []"
  using assms(1)
proof (cases rule: command_ok_cases)
  case none
  with assms(2) show thesis by (simp add: command_defs)
next
  case (add cid p q s ot tif mt f)
  obtain code fs next1 qs1 where "spec_add now cid p q s ot tif mt f illq next qs = (code, fs, next1, qs1)"
    by (metis prod_cases4)
  with add assms(3) show thesis
    by (intro that [of cid fs "if code = Success then MakeOrderAccepted cid next else MakeOrderRejected cid code"])
      (auto simp: spec_apply_def command_defs closes_def)
next
  case (modify cid oid p q)
  obtain code fs next1 qs1 where "spec_modify now cid oid p q next qs = (code, fs, next1, qs1)"
    by (metis prod_cases4)
  with modify assms(3) show thesis
    by (intro that [of cid fs "if code = Success then MakeModifyAccepted cid oid oid else MakeModifyRejected cid oid code"])
      (auto simp: spec_apply_def command_defs closes_def)
next
  case (cancel cid oid)
  obtain code qs1 where "spec_cancel cid oid qs = (code, qs1)" by force
  with cancel assms(3) show thesis
    by (intro that [of cid "[]" "if code = Success then MakeCancelAccepted cid oid else MakeCancelRejected cid oid code"])
      (auto simp: spec_apply_def command_defs closes_def)
qed

end
