(* ===== verification/Book_Sample.thy ===== *)
theory Book_Sample
  imports Book_Facts
begin

text \<open>
  A concrete book for the witnesses: two asks and one bid, entered by \<^verbatim>\<open>Apply\<close>. It is
  reachable, well formed and has exact volumes.
\<close>

definition sample_commands :: "CommandPayload list" where
  "sample_commands =
     [MakeAdd 1 100 5 Sell Limit GTC Standard Flags_None,
      MakeAdd 1 101 7 Sell Limit GTC Standard Flags_None,
      MakeAdd 2 90 8 Buy Limit GTC Standard Flags_None]"

fun sample_run :: "CommandPayload list \<Rightarrow> OrderBook \<Rightarrow> OrderBook" where
  "sample_run [] b = b"
| "sample_run (cmd # cmds) b = sample_run cmds (snd (the (Apply 0 cmd b)))"

definition sample_book :: OrderBook where
  "sample_book = sample_run sample_commands OrderBook_init"

definition sample_ask :: "OrderID \<Rightarrow> Price \<Rightarrow> Quantity \<Rightarrow> Order" where
  "sample_ask i p q = mk_Order 0 i 1 p q Sell Limit GTC Standard Flags_None"

definition sample_bid :: Order where
  "sample_bid = mk_Order 0 3 2 90 8 Buy Limit GTC Standard Flags_None"

fun sample_ok :: "CommandPayload list \<Rightarrow> OrderBook \<Rightarrow> bool" where
  "sample_ok [] b \<longleftrightarrow> True"
| "sample_ok (cmd # cmds) b \<longleftrightarrow> \<not> Option.is_none (Apply 0 cmd b) \<and> m_OrderCounter b \<noteq> - 1 \<and>
     sample_ok cmds (snd (the (Apply 0 cmd b)))"

lemma sample_run_reachable:
  "reachable b \<Longrightarrow> sample_ok cmds b \<Longrightarrow> \<forall>cmd\<in>set cmds. command_ok cmd \<Longrightarrow> reachable (sample_run cmds b)"
proof (induction cmds b rule: sample_run.induct)
  case (2 cmd cmds b)
  then obtain evs b' where ap: "Apply 0 cmd b = Some (evs, b')"
    by (auto simp: Option.is_none_def)
  with 2 have "book_step 0 cmd evs b b'" by (auto intro: book_step.intros)
  with 2(2) have "reachable b'" by (rule reachable.step)
  with 2 ap show ?case by simp
qed simp

lemma sample_run_exact:
  "book_wf b \<Longrightarrow> exact_volumes b \<Longrightarrow> sample_ok cmds b \<Longrightarrow>
   \<forall>cmd\<in>set cmds. command_ok cmd \<and> (\<forall>b. keeps_volumes cmd b) \<Longrightarrow> exact_volumes (sample_run cmds b)"
proof (induction cmds b rule: sample_run.induct)
  case (2 cmd cmds b)
  then obtain evs b' where ap: "Apply 0 cmd b = Some (evs, b')"
    by (auto simp: Option.is_none_def)
  with 2 have st: "book_step 0 cmd evs b b'" by (auto intro: book_step.intros)
  have "exact_volumes b'" using 2 ap exact_volumes_Apply by auto
  with 2 ap book_step_spec(1) [OF 2(2) st] show ?case by simp
qed simp

lemma sample_ok_commands: "sample_ok sample_commands OrderBook_init"
  by code_simp

lemma sample_reachable: "reachable sample_book"
  unfolding sample_book_def
  by (rule sample_run_reachable [OF reachable.init sample_ok_commands]) (simp add: sample_commands_def)

lemmas sample_wf = reachable_inv [OF sample_reachable, THEN conjunct1]

lemma sample_exact: "exact_volumes sample_book"
  unfolding sample_book_def
  by (rule sample_run_exact [OF book_wf_init exact_volumes_init sample_ok_commands])
    (simp add: sample_commands_def flag_defs HasFlag_def)

lemma sample_queues:
  "queue Buy sample_book = [sample_bid]"
  "queue Sell sample_book = [sample_ask 1 100 5, sample_ask 2 101 7]"
  by code_simp+

lemma sample_counters: "m_OrderCounter sample_book = 4" "m_TradeCounter sample_book = 1"
  by code_simp+

lemma sample_find:
  "FindOrder 1 sample_book = Some (Some (sample_ask 1 100 5))"
  "FindOrder 3 sample_book = Some (Some sample_bid)"
  "FindOrder 4 sample_book = Some None"
  by code_simp+

text \<open>The outcome of the operations the witnesses run on the sample book.\<close>

lemma is_Some_exists: "\<not> Option.is_none x \<Longrightarrow> \<exists>a b. x = Some (a, b)"
  by (cases x) auto

lemma map_fst_Some: "map_option (\<lambda>(a, b). f a b) x = Some v \<Longrightarrow> \<exists>a b. x = Some (a, b) \<and> f a b = v"
  by (cases x) auto

lemma sample_match:
  "\<exists>od b'. Match (mk_Order 0 9 2 101 9 Buy Limit GTC Standard Flags_None) sample_book = Some (od, b')"
  by (rule is_Some_exists) code_simp

lemma sample_match_stops:
  "\<exists>od b'. Match (mk_Order 0 9 2 100 9 Buy Limit GTC Standard Flags_None) sample_book = Some (od, b') \<and>
     m_RemainingQuantity od \<noteq> 0 \<and> sample_ask 2 101 7 \<in> set (queue Sell b')"
proof -
  have "map_option (\<lambda>(od, b'). m_RemainingQuantity od \<noteq> 0 \<and> sample_ask 2 101 7 \<in> set (queue Sell b'))
      (Match (mk_Order 0 9 2 100 9 Buy Limit GTC Standard Flags_None) sample_book) = Some True"
    by code_simp
  from map_fst_Some [OF this] show ?thesis by simp
qed

lemma sample_post_only:
  "\<exists>b'. InternalAddOrder 0 2 100 8 Buy Limit GTC Standard PostOnly sample_book = Some (PostOnlyViolation, b')"
proof -
  have "map_option (\<lambda>(code, b'). code) (InternalAddOrder 0 2 100 8 Buy Limit GTC Standard PostOnly sample_book)
      = Some PostOnlyViolation"
    by code_simp
  from map_fst_Some [OF this] show ?thesis by simp
qed

lemma sample_ioc:
  "\<exists>b'. InternalAddOrder 0 2 100 8 Buy Limit IOC Standard Flags_None sample_book = Some (Success, b')"
proof -
  have "map_option (\<lambda>(code, b'). code) (InternalAddOrder 0 2 100 8 Buy Limit IOC Standard Flags_None sample_book)
      = Some Success"
    by code_simp
  from map_fst_Some [OF this] show ?thesis by simp
qed

lemma sample_fok:
  "\<exists>b'. InternalAddOrder 0 2 101 12 Buy Limit FOK Standard Flags_None sample_book = Some (Success, b')"
proof -
  have "map_option (\<lambda>(code, b'). code) (InternalAddOrder 0 2 101 12 Buy Limit FOK Standard Flags_None sample_book)
      = Some Success"
    by code_simp
  from map_fst_Some [OF this] show ?thesis by simp
qed

lemma sample_reduce: "\<exists>code b'. InternalModifyOrder 0 1 1 100 2 sample_book = Some (code, b')"
  by (rule is_Some_exists) code_simp

lemma sample_add:
  "\<exists>evs b'. Apply 0 (MakeAdd 5 95 3 Sell Limit GTC Standard Flags_None) sample_book = Some (evs, b') \<and>
     last evs = MakeOrderAccepted 5 4"
proof -
  have "map_option (\<lambda>(evs, b'). last evs = MakeOrderAccepted 5 4)
      (Apply 0 (MakeAdd 5 95 3 Sell Limit GTC Standard Flags_None) sample_book) = Some True"
    by code_simp
  from map_fst_Some [OF this] show ?thesis by simp
qed

lemma sample_trade:
  "\<exists>ev t evs b'. Apply 0 (MakeAdd 5 90 3 Sell Limit GTC Standard Flags_None) sample_book = Some (evs, b') \<and>
     ev \<in> set evs \<and> m_EventData ev = U_Trade t"
proof -
  have "map_option (\<lambda>(evs, b'). m_EventType (hd evs) = Ev_Trade \<and> evs \<noteq> [])
      (Apply 0 (MakeAdd 5 90 3 Sell Limit GTC Standard Flags_None) sample_book) = Some True"
    by code_simp
  from map_fst_Some [OF this] obtain evs b' where
    a: "Apply 0 (MakeAdd 5 90 3 Sell Limit GTC Standard Flags_None) sample_book = Some (evs, b')"
      "m_EventType (hd evs) = Ev_Trade" "evs \<noteq> []" by auto
  have "book_step 0 (MakeAdd 5 90 3 Sell Limit GTC Standard Flags_None) evs sample_book b'"
    using a(1) by (intro book_step.intros) (simp_all add: sample_counters)
  note st = book_step_spec(3) [OF sample_wf this]
  from a(3) have "hd evs \<in> set evs" by simp
  with spec_apply_closes [OF _ _ st] have "event_ok (hd evs)"
    using trade_events_type by (metis Un_iff command_ok_make(2) m_CommandType_make(2) CommandType.distinct(1)
      set_append list.set(1,2) insertE empty_iff)
  with a(2) obtain t where "m_EventData (hd evs) = U_Trade t"
    by (cases "m_EventData (hd evs)") (auto simp: event_ok_def event_defs)
  with a(1) \<open>hd evs \<in> set evs\<close> show ?thesis by blast
qed

lemma sample_levels: "length (m_Bids sample_book) = 1" "length (m_Asks sample_book) = 2"
  by code_simp+

end
