(* ===== verification/Book_Quantity.thy ===== *)
theory Book_Quantity
  imports Book_Sample
begin

text \<open>
  Where the quantities go. \<open>traded\<close> adds up the trades of a list of events and \<open>requested\<close> is what a
  command asks for. What a command trades leaves the other side of the book and the new order
  alike, and no run of commands ends with more in the book and in its trades than was asked for.
\<close>

subsection \<open>Traded, requested and resting quantities\<close>

fun event_quantity :: "EventUnion \<Rightarrow> nat" where
  "event_quantity (U_Trade t) = unat (t_Quantity t)"
| "event_quantity _ = 0"

definition traded :: "EventPayload list \<Rightarrow> nat" where
  "traded evs = (\<Sum>ev\<leftarrow>evs. event_quantity (m_EventData ev))"

definition requested :: "CommandPayload \<Rightarrow> nat" where
  "requested cmd =
     (case m_CommandData cmd of
        U_Add c \<Rightarrow> unat (add_quantity c)
      | U_Modify c \<Rightarrow> unat (mod_new_quantity c)
      | U_Cancel c \<Rightarrow> 0)"

definition resting :: "queues \<Rightarrow> nat" where
  "resting qs = resting_total (qs Buy) + resting_total (qs Sell)"

lemma resting_sides: "resting qs = resting_total (qs s) + resting_total (qs (opposite s))"
  by (cases s) (simp_all add: resting_def)

lemma traded_simps [simp]:
  "traded [] = 0" "traded (ev # evs) = event_quantity (m_EventData ev) + traded evs"
  "traded (xs @ ys) = traded xs + traded ys"
  by (simp_all add: traded_def)

lemma traded_events [simp]: "traded (trade_events cid mt k fs) = filled fs"
  by (induction cid mt k fs rule: trade_events.induct) (simp_all add: MakeTrade_def mk_Trade_def)

lemma event_quantity_reply [simp]:
  "event_quantity (m_EventData (MakeOrderAccepted cid oid)) = 0"
  "event_quantity (m_EventData (MakeOrderRejected cid ec)) = 0"
  "event_quantity (m_EventData (MakeModifyAccepted cid oid oid')) = 0"
  "event_quantity (m_EventData (MakeModifyRejected cid oid ec)) = 0"
  "event_quantity (m_EventData (MakeCancelAccepted cid oid)) = 0"
  "event_quantity (m_EventData (MakeCancelRejected cid oid ec)) = 0"
  by (simp_all add: event_defs)

lemma resting_total_insert [simp]:
  "resting_total (insert_order s od xs) = unat (m_RemainingQuantity od) + resting_total xs"
  by (induction s od xs rule: insert_order.induct) simp_all

lemma resting_total_filter: "resting_total (filter P xs) \<le> resting_total xs"
  by (induction xs) auto

lemma resting_total_map:
  "(\<And>x. x \<in> set xs \<Longrightarrow> m_RemainingQuantity (g x) \<le> m_RemainingQuantity x) \<Longrightarrow>
   resting_total (map g xs) \<le> resting_total xs"
proof (induction xs)
  case (Cons x xs)
  then have "unat (m_RemainingQuantity (g x)) \<le> unat (m_RemainingQuantity x)"
    by (simp add: word_le_nat_alt)
  with Cons show ?case by (simp add: add_mono)
qed simp

subsection \<open>What one command does to them\<close>

lemma spec_add_quantity:
  assumes "spec_add now cid p q side ot tif mt f illq next qs = (code, fs, next', qs')"
  shows "filled fs \<le> unat q"
    and "resting_total (qs' (opposite side)) + filled fs = resting_total (qs (opposite side))"
    and "resting_total (qs' side) = resting_total (qs side) +
      (if code = Success \<and> rests ot tif then unat q - filled fs else 0)"
proof -
  have "filled fs \<le> unat q \<and>
    resting_total (qs' (opposite side)) + filled fs = resting_total (qs (opposite side)) \<and>
    resting_total (qs' side) = resting_total (qs side) +
      (if code = Success \<and> rests ot tif then unat q - filled fs else 0)"
    using assms
  proof (cases rule: spec_add_cases)
    case (matched q' ts')
    have "unat q = unat q' + filled fs" by (rule fill_queue_taker [OF matched(1)])
    with fill_queue_makers [OF matched(1)] matched(7-9) show ?thesis by auto
  qed auto
  then show "filled fs \<le> unat q"
    "resting_total (qs' (opposite side)) + filled fs = resting_total (qs (opposite side))"
    "resting_total (qs' side) = resting_total (qs side) +
      (if code = Success \<and> rests ot tif then unat q - filled fs else 0)" by blast+
qed

lemma spec_add_conserves:
  assumes "spec_add now cid p q side ot tif mt f illq next qs = (code, fs, next', qs')"
  shows "resting qs' + 2 * filled fs \<le> resting qs + unat q"
  using spec_add_quantity [OF assms] by (simp add: resting_sides [of _ side] split: if_splits)

lemma resting_remove: "resting (remove_order oid qs) \<le> resting qs"
  by (simp add: resting_def remove_order_def add_mono resting_total_filter)

lemma spec_modify_conserves:
  assumes "spec_modify now cid oid p q next qs = (code, fs, next', qs')"
    and unique: "\<And>od s x. find_order oid qs = Some od \<Longrightarrow> x \<in> set (qs s) \<Longrightarrow> m_OrderID x = oid \<Longrightarrow> x = od"
  shows "resting qs' + 2 * filled fs \<le> resting qs + unat q"
proof (cases "find_order oid qs")
  case (Some od)
  have rep: "resting (replace_order oid (od\<lparr>m_RemainingQuantity := q\<rparr>) qs) \<le> resting qs"
    if "q < m_RemainingQuantity od"
    unfolding resting_def replace_order_def using that unique [OF Some]
    by (intro add_mono resting_total_map) auto
  obtain code1 fs1 next1 qs1 where sa: "spec_add now cid p q (m_Side od) (m_OrderType od)
      (m_TimeInForce od) (m_MatchType od) (m_Flags od) False next (remove_order oid qs) = (code1, fs1, next1, qs1)"
    by (metis prod_cases4)
  from spec_add_conserves [OF this] resting_remove [of oid qs]
  have "resting qs1 + 2 * filled fs1 \<le> resting qs + unat q" by simp
  with assms(1) Some sa rep show ?thesis by (auto simp: spec_modify_def split: if_splits)
qed (use assms(1) in \<open>auto simp: spec_modify_def\<close>)

lemma spec_apply_conserves:
  assumes "spec_apply now cmd k illq next qs = (evs, next', qs')"
    and unique: "\<And>oid od s x. find_order oid qs = Some od \<Longrightarrow> x \<in> set (qs s) \<Longrightarrow> m_OrderID x = oid \<Longrightarrow> x = od"
  shows "resting qs' + 2 * traded evs \<le> resting qs + requested cmd"
proof (cases "m_CommandData cmd")
  case (U_Add c)
  obtain code fs next1 qs1 where "spec_add now (add_clientID c) (add_price c) (add_quantity c)
       (add_side c) (add_order_type c) (add_tif c) (add_match_type c) (add_flags c) illq next qs
       = (code, fs, next1, qs1)"
    by (metis prod_cases4)
  with spec_add_conserves [OF this] assms(1) U_Add show ?thesis
    by (auto simp: spec_apply_def requested_def split: if_splits)
next
  case (U_Modify c)
  obtain code fs next1 qs1 where sm: "spec_modify now (mod_clientID c) (mod_orderID c)
     (mod_new_price c) (mod_new_quantity c) next qs = (code, fs, next1, qs1)"
    by (metis prod_cases4)
  from spec_modify_conserves [OF this unique] sm assms(1) U_Modify show ?thesis
    by (auto simp: spec_apply_def requested_def split: if_splits)
next
  case (U_Cancel c)
  with assms(1) resting_remove [of "can_orderID c" qs] show ?thesis
    by (auto simp: spec_apply_def requested_def spec_cancel_def split: prod.splits option.splits if_splits)
qed

lemma book_step_conserves:
  assumes "reachable b" and "book_step now cmd evs b b'"
  shows "resting (queues_of b') + 2 * traded evs \<le> resting (queues_of b) + requested cmd"
proof -
  have wf: "book_wf b" using reachable_inv [OF assms(1)] by simp
  from spec_apply_conserves [OF book_step_spec(3) [OF wf assms(2)] find_order_unique [OF wf]]
  show ?thesis .
qed

lemma book_run_conserves:
  "book_run cmds evss b b' \<Longrightarrow> reachable b \<Longrightarrow>
   resting (queues_of b') + 2 * traded (concat evss) \<le>
     resting (queues_of b) + (\<Sum>cmd\<leftarrow>map snd cmds. requested cmd)"
proof (induction rule: book_run.induct)
  case (run_cons now cmd evs b b1 cmds evss b')
  from run_cons.prems run_cons.hyps(1) have "reachable b1" by (rule reachable.step)
  with run_cons.IH book_step_conserves [OF run_cons.prems run_cons.hyps(1)] show ?case by simp
qed simp

subsection \<open>The book makes no quantity\<close>

text \<open>C20: an order is conserved. What adding it trades is at most its quantity and is taken, to the
  last unit, from the other side of the book; its own side grows by exactly what is left when the
  order is accepted and may rest, and not at all otherwise.\<close>

theorem add_conserves_quantity:
  assumes "reachable b" and "book_step now (MakeAdd cid p q s ot tif mt f) evs b b'"
  shows "traded evs \<le> unat q \<and>
    resting_total (queue (opposite s) b') + traded evs = resting_total (queue (opposite s) b) \<and>
    resting_total (queue s b') = resting_total (queue s b) +
      (if m_EventType (last evs) = Ev_OrderAccepted \<and> rests ot tif then unat q - traded evs else 0)"
proof -
  have wf: "book_wf b" using reachable_inv [OF assms(1)] by simp
  note st = book_step_spec(3) [OF wf assms(2), unfolded spec_apply_MakeAdd]
  obtain code fs next1 qs1 where sa: "spec_add now cid p q s ot tif mt f
      (illiquid (MakeAdd cid p q s ot tif mt f) b) (m_OrderCounter b) (queues_of b) = (code, fs, next1, qs1)"
    by (metis prod_cases4)
  with st have "traded evs = filled fs" "m_EventType (last evs) = Ev_OrderAccepted \<longleftrightarrow> code = Success"
    "queues_of b' = qs1"
    by (auto split: if_splits)
  with spec_add_quantity [OF sa] show ?thesis by auto
qed

theorem add_conserves_quantity_witness:
  "\<exists>evs b'. Apply 0 (MakeAdd 2 100 8 Buy Limit GTC Standard Flags_None) sample_book = Some (evs, b') \<and>
     traded evs = 5 \<and> resting_total (queue Sell b') = 7 \<and> resting_total (queue Buy b') = 11"
proof -
  let ?cmd = "MakeAdd 2 100 8 Buy Limit GTC Standard Flags_None"
  have "map_option (\<lambda>(evs, b'). traded evs = 5 \<and> m_EventType (last evs) = Ev_OrderAccepted)
      (Apply 0 ?cmd sample_book) = Some True"
    by code_simp
  from map_fst_Some [OF this] obtain evs b' where ap: "Apply 0 ?cmd sample_book = Some (evs, b')"
    and evs: "traded evs = 5" "m_EventType (last evs) = Ev_OrderAccepted" by auto
  then have "book_step 0 ?cmd evs sample_book b'" by (intro applied) (simp_all add: sample_counters)
  from add_conserves_quantity [OF sample_reachable this] evs ap show ?thesis
    by (simp add: sample_queues rests_def sample_ask_def sample_bid_def)
qed

text \<open>No run makes quantity out of nothing. After any list of commands, what rests in the book and
  twice what was traded (each trade uses up a unit of the maker and one of the taker) is at most
  what the commands asked for.\<close>

theorem run_conserves_quantity:
  assumes "apply_all cmds OrderBook_init = Some (evss, b)"
    and "\<forall>cmd\<in>set (map snd cmds). command_ok cmd" and "length cmds < 2 ^ 64 - 1"
  shows "resting (queues_of b) + 2 * traded (concat evss) \<le> (\<Sum>cmd\<leftarrow>map snd cmds. requested cmd)"
  using book_run_conserves [OF apply_all_run_init [OF assms] reachable.init]
  by (simp add: resting_def)

theorem run_conserves_quantity_witness:
  "\<exists>evss b. apply_all (map (Pair 0) (sample_commands @ [MakeAdd 2 100 6 Buy Limit GTC Standard Flags_None]))
       OrderBook_init = Some (evss, b) \<and> traded (concat evss) = 5 \<and> resting (queues_of b) \<le> 16"
proof -
  let ?cmds = "map (Pair 0) (sample_commands @ [MakeAdd 2 100 6 Buy Limit GTC Standard Flags_None])"
  have "map_option (\<lambda>(evss, b). traded (concat evss)) (apply_all ?cmds OrderBook_init) = Some 5"
    by code_simp
  from map_fst_Some [OF this] obtain evss b where run: "apply_all ?cmds OrderBook_init = Some (evss, b)"
    and traded: "traded (concat evss) = 5" by auto
  have "\<forall>cmd\<in>set (map snd ?cmds). command_ok cmd" by (simp add: sample_commands_def)
  moreover have "(\<Sum>cmd\<leftarrow>map snd ?cmds. requested cmd) = 26" by code_simp
  ultimately have "resting (queues_of b) \<le> 16"
    using run_conserves_quantity [OF run] traded by (simp add: sample_commands_def)
  with run traded show ?thesis by blast
qed

text \<open>An order can be reduced to nothing and still rest: the next order that meets it trades a
  quantity of zero with it.\<close>

theorem reduced_to_zero_trades_nothing:
  "\<exists>evss b. apply_all (map (Pair 0) [MakeAdd 1 100 5 Sell Limit GTC Standard Flags_None, MakeModify 1 1 100 0])
       OrderBook_init = Some (evss, b) \<and>
     queue Sell b = [(sample_ask 1 100 5)\<lparr>m_RemainingQuantity := 0\<rparr>] \<and>
     (\<exists>b'. Apply 0 (MakeAdd 2 100 3 Buy Limit GTC Standard Flags_None) b =
        Some ([MakeTrade (mk_Trade 1 2 1 100 0 Sell Standard), MakeOrderAccepted 2 2], b'))"
proof -
  have "map_option (\<lambda>(evss, b). queue Sell b = [(sample_ask 1 100 5)\<lparr>m_RemainingQuantity := 0\<rparr>] \<and>
      map_option fst (Apply 0 (MakeAdd 2 100 3 Buy Limit GTC Standard Flags_None) b) =
        Some [MakeTrade (mk_Trade 1 2 1 100 0 Sell Standard), MakeOrderAccepted 2 2])
    (apply_all (map (Pair 0) [MakeAdd 1 100 5 Sell Limit GTC Standard Flags_None, MakeModify 1 1 100 0])
       OrderBook_init) = Some True"
    by code_simp
  from map_fst_Some [OF this] show ?thesis by (auto simp: map_option_case split: option.splits prod.splits)
qed

end
