(* ===== verification/Book_Properties.thy ===== *)
theory Book_Properties
  imports Book_Quantity
begin

text \<open>
  The properties of the order book and the matching strategy, each next to its application to
  the sample book. The proofs are short because the case analyses are in \<^verbatim>\<open>Book_Facts\<close>, the
  refinement in \<^verbatim>\<open>Book_Spec\<close>, the volumes in \<^verbatim>\<open>Book_Volume\<close> and the invariants in
  \<^verbatim>\<open>Book_Runs\<close>. The closed theorems at the end of some sections are runs that show an error
  of the code.
\<close>

subsection \<open>The specification of the book\<close>

text \<open>C1: \<^verbatim>\<open>Apply\<close> implements the specification: on a well-formed book, and unless a command
  produces more events than the scratch array holds, it returns the events of \<open>spec_apply\<close> (every
  branch of every handler, the errors included) and leaves a well-formed book with the queues
  and the order counter of the specification.\<close>

theorem Apply_implements_spec:
  assumes "book_wf b" and "m_OrderCounter b \<noteq> - 1" and "command_ok cmd"
    and "spec_apply now cmd (m_TradeCounter b) (illiquid cmd b) (m_OrderCounter b) (queues_of b) = (evs, next, qs)"
    and "length evs \<le> MaxEventsPerCommand"
  shows "\<exists>b'. Apply now cmd b = Some (evs, b') \<and> book_wf b' \<and> queues_of b' = qs \<and> m_OrderCounter b' = next"
  using assms by (rule Apply_refines(1))

theorem Apply_implements_spec_witness:
  "\<exists>b'. Apply 7 (MakeAdd 1 100 5 Buy Limit GTC Standard Flags_None) OrderBook_init = Some ([MakeOrderAccepted 1 1], b') \<and>
     book_wf b' \<and> queues_of b' = (\<lambda>s. case s of Buy \<Rightarrow> [mk_Order 7 1 1 100 5 Buy Limit GTC Standard Flags_None] | Sell \<Rightarrow> []) \<and> m_OrderCounter b' = 2"
proof (rule Apply_implements_spec [OF book_wf_init])
  show "m_OrderCounter OrderBook_init \<noteq> - 1" by (simp add: OrderBook_init_def)
  show "spec_apply 7 (MakeAdd 1 100 5 Buy Limit GTC Standard Flags_None) (m_TradeCounter OrderBook_init)
     (illiquid (MakeAdd 1 100 5 Buy Limit GTC Standard Flags_None) OrderBook_init)
     (m_OrderCounter OrderBook_init) (queues_of OrderBook_init) =
    ([MakeOrderAccepted 1 1], 2, \<lambda>s. case s of Buy \<Rightarrow> [mk_Order 7 1 1 100 5 Buy Limit GTC Standard Flags_None] | Sell \<Rightarrow> [])"
    by (auto simp: spec_apply_def spec_add_def command_defs spec_rejects_post_only_def fun_eq_iff mk_Order_def
        split: Side.split) (simp_all add: OrderBook_init_def)
qed (simp_all add: MaxEventsPerCommand_def)

text \<open>C2: \<^verbatim>\<open>Apply\<close> has a defined result exactly when the command produces at most 128
  events; past that the closing event is written behind the end of the scratch array, because
  only \<^verbatim>\<open>RecordFill\<close> guards its write.\<close>

theorem Apply_defined_iff:
  assumes "book_wf b" and "m_OrderCounter b \<noteq> - 1" and "command_ok cmd"
  shows "Apply now cmd b \<noteq> None \<longleftrightarrow>
    length (fst (spec_apply now cmd (m_TradeCounter b) (illiquid cmd b) (m_OrderCounter b)
      (queues_of b))) \<le> MaxEventsPerCommand"
  using Apply_refines [OF assms, of now] by (metis option.distinct(1) prod.collapse)

theorem Apply_defined_iff_witness:
  "Apply 0 (MakeCancel 1 2) OrderBook_init \<noteq> None \<longleftrightarrow>
    length (fst (spec_apply 0 (MakeCancel 1 2) (m_TradeCounter OrderBook_init)
      (illiquid (MakeCancel 1 2) OrderBook_init) (m_OrderCounter OrderBook_init)
      (queues_of OrderBook_init))) \<le> MaxEventsPerCommand"
  by (rule Apply_defined_iff) (simp_all add: book_wf_init, simp add: OrderBook_init_def)

text \<open>C3: every book reached from the constructor is well formed: the index finds exactly the
  resting orders, no level is empty, every order sits at its own side and price, and no order has
  more left than it asked for.\<close>

theorem reachable_well_formed: "reachable b \<Longrightarrow> book_wf b \<and> orders_ok (queues_of b)"
  using reachable_inv by blast

theorem reachable_well_formed_witness: "book_wf sample_book \<and> orders_ok (queues_of sample_book)"
  using sample_reachable by (rule reachable_well_formed)

text \<open>C4: a reachable book is never crossed: every bid is priced below every ask.\<close>

theorem reachable_uncrossed:
  assumes "reachable b" and "bid \<in> set (queue Buy b)" and "ask \<in> set (queue Sell b)"
  shows "m_Price bid <s m_Price ask"
  using reachable_inv [OF assms(1)] assms(2,3) by (simp add: uncrossed_def)

theorem reachable_uncrossed_witness: "m_Price sample_bid <s m_Price (sample_ask 1 100 5)"
  using sample_reachable by (rule reachable_uncrossed) (simp_all add: sample_queues)

text \<open>C5: both sides of a reachable book are in price-time order, best price first and lower
  order id first within a price, and no id occurs twice on a side.\<close>

theorem reachable_price_time_order:
  assumes "reachable b"
  shows "sorted_wrt (has_priority s) (queue s b) \<and> distinct (map m_OrderID (queue s b))"
  using reachable_inv [OF assms] queue_sorted queue_distinct by blast

theorem reachable_price_time_order_witness:
  "sorted_wrt (has_priority Sell) (queue Sell sample_book) \<and> distinct (map m_OrderID (queue Sell sample_book))"
  using sample_reachable by (rule reachable_price_time_order)

subsection \<open>Matching\<close>

text \<open>C6: \<^verbatim>\<open>Match\<close> returns on every well-formed book, and does what \<open>fill_queue\<close> says: it
  takes from the other side in queue order, leaves its own side alone, and appends one trade per
  fill to the events while there is room.\<close>

theorem Match_fills_queue:
  assumes "book_wf b"
  shows "\<exists>q' fs ts' b'.
    fill_queue (price_blocked (m_Side order) (m_OrderType order) (m_Price order))
      (m_RemainingQuantity order) (queue (opposite (m_Side order)) b) = (q', fs, ts') \<and>
    Match order b = Some (order\<lparr>m_RemainingQuantity := q'\<rparr>, b') \<and> book_wf b' \<and>
    queue (opposite (m_Side order)) b' = ts' \<and> queue (m_Side order) b' = queue (m_Side order) b \<and>
    scratch b' = scratch b @ take (MaxEventsPerCommand - m_ScratchCounter b)
      (trade_events (m_ClientID order) (m_MatchType order) (m_TradeCounter b) fs)"
proof -
  obtain q' fs ts' where f: "fill_queue (price_blocked (m_Side order) (m_OrderType order) (m_Price order))
      (m_RemainingQuantity order) (queue (opposite (m_Side order)) b) = (q', fs, ts')"
    by (metis prod_cases3)
  from Match_refines [OF assms f] show ?thesis unfolding room_def using f by metis
qed

theorem Match_fills_queue_witness:
  "\<exists>q' fs ts' b'.
    fill_queue (price_blocked Buy Limit 101) 9 (queue Sell sample_book) = (q', fs, ts') \<and>
    Match (mk_Order 0 9 2 101 9 Buy Limit GTC Standard Flags_None) sample_book =
      Some ((mk_Order 0 9 2 101 9 Buy Limit GTC Standard Flags_None)\<lparr>m_RemainingQuantity := q'\<rparr>, b') \<and>
    book_wf b' \<and> queue Sell b' = ts' \<and> queue Buy b' = queue Buy sample_book \<and>
    scratch b' = scratch sample_book @ take (MaxEventsPerCommand - m_ScratchCounter sample_book)
      (trade_events 2 Standard (m_TradeCounter sample_book) fs)"
  using Match_fills_queue [OF sample_wf, of "mk_Order 0 9 2 101 9 Buy Limit GTC Standard Flags_None"]
  by simp

text \<open>C7: strict priority and conservation: a match consumes a prefix of the other side's queue
  completely and at most one further order in part, and then nothing of the incoming order is
  left; what the incoming order loses is what the resting orders lose.\<close>

theorem Match_price_time_priority:
  assumes "book_wf b" and "Match order b = Some (order', b')"
  shows "(\<exists>done. queue (opposite (m_Side order)) b = done @ queue (opposite (m_Side order)) b' \<and>
      unat (m_RemainingQuantity order) = unat (m_RemainingQuantity order') + resting_total done) \<or>
    (\<exists>done t r rest. queue (opposite (m_Side order)) b = done @ t # rest \<and>
      queue (opposite (m_Side order)) b' = t\<lparr>m_RemainingQuantity := m_RemainingQuantity t - r\<rparr> # rest \<and>
      0 < r \<and> r < m_RemainingQuantity t \<and> m_RemainingQuantity order' = 0 \<and>
      unat (m_RemainingQuantity order) = resting_total done + unat r)"
proof -
  from Match_spec [OF assms] obtain fs where
    f: "fill_queue (price_blocked (m_Side order) (m_OrderType order) (m_Price order))
      (m_RemainingQuantity order) (queue (opposite (m_Side order)) b)
      = (m_RemainingQuantity order', fs, queue (opposite (m_Side order)) b')" .
  note taker = fill_queue_taker [OF f]
  let ?ts = "queue (opposite (m_Side order)) b" and ?ts' = "queue (opposite (m_Side order)) b'"
  from fill_queue_priority [OF f] show ?thesis
  proof (elim disjE exE conjE)
    fix d assume "?ts = d @ ?ts'" and "fs = full_fills d"
    with taker show ?thesis by (intro disjI1 exI [of _ d]) simp
  next
    fix d t k rest
    assume "?ts = d @ t # rest" and "fs = full_fills d @ [(t, k)]" and "m_RemainingQuantity order' = 0"
      and "0 < k" and "k < m_RemainingQuantity t"
      and "?ts' = t\<lparr>m_RemainingQuantity := m_RemainingQuantity t - k\<rparr> # rest"
    with taker show ?thesis
      by (intro disjI2 exI [of _ d] exI [of _ t] exI [of _ k] exI [of _ rest]) simp
  qed
qed

theorem Match_price_time_priority_witness:
  "\<exists>od b'. Match (mk_Order 0 9 2 101 9 Buy Limit GTC Standard Flags_None) sample_book = Some (od, b') \<and>
    ((\<exists>done. queue Sell sample_book = done @ queue Sell b' \<and>
      9 = unat (m_RemainingQuantity od) + resting_total done) \<or>
    (\<exists>done t r rest. queue Sell sample_book = done @ t # rest \<and>
      queue Sell b' = t\<lparr>m_RemainingQuantity := m_RemainingQuantity t - r\<rparr> # rest \<and>
      0 < r \<and> r < m_RemainingQuantity t \<and> m_RemainingQuantity od = 0 \<and>
      9 = resting_total done + unat r))"
proof -
  obtain od b' where m: "Match (mk_Order 0 9 2 101 9 Buy Limit GTC Standard Flags_None) sample_book = Some (od, b')"
    using sample_match by blast
  from Match_price_time_priority [OF sample_wf this] m show ?thesis by (intro exI conjI) simp_all
qed

text \<open>A match gives up only when nothing is left within reach: if the incoming order is not
  filled, it is not a market order and every order still on the other side is priced beyond its
  limit (signed comparison).\<close>

theorem Match_stops_out_of_reach:
  assumes "book_wf b" and "Match order b = Some (order', b')" and "m_RemainingQuantity order' \<noteq> 0"
    and "t \<in> set (queue (opposite (m_Side order)) b')"
  shows "m_OrderType order \<noteq> Market \<and>
    (case m_Side order of Buy \<Rightarrow> m_Price order <s m_Price t | Sell \<Rightarrow> m_Price t <s m_Price order)"
proof -
  from Match_spec [OF assms(1,2)] obtain fs where
    f: "fill_queue (price_blocked (m_Side order) (m_OrderType order) (m_Price order))
      (m_RemainingQuantity order) (queue (opposite (m_Side order)) b)
      = (m_RemainingQuantity order', fs, queue (opposite (m_Side order)) b')" .
  show ?thesis
    using fill_queue_exhausts [OF f assms(3) queue_sorted [OF assms(1)] assms(4)]
    by (simp add: price_blocked_def)
qed

theorem Match_stops_out_of_reach_witness:
  "\<exists>od b'. Match (mk_Order 0 9 2 100 9 Buy Limit GTC Standard Flags_None) sample_book = Some (od, b') \<and>
     m_RemainingQuantity od \<noteq> 0 \<and> 100 <s m_Price (sample_ask 2 101 7)"
proof -
  let ?od = "mk_Order 0 9 2 100 9 Buy Limit GTC Standard Flags_None"
  obtain od b' where m: "Match ?od sample_book = Some (od, b')" "m_RemainingQuantity od \<noteq> 0"
    "sample_ask 2 101 7 \<in> set (queue Sell b')"
    using sample_match_stops by blast
  from Match_stops_out_of_reach [OF sample_wf m(1,2), of "sample_ask 2 101 7"] m show ?thesis by auto
qed

subsection \<open>Adding an order\<close>

text \<open>C8: the result of \<^verbatim>\<open>InternalAddOrder\<close> on a well-formed book, from the resting orders
  alone. It always returns, and
  the code is \<open>expected_code\<close> of what is within reach on the other side, the sum of what is left of
  the orders whose price the new order accepts (all of them for a market order), and of whether any of
  them is met at all: \<^verbatim>\<open>InvalidRequest\<close> for a non-standard match type; else
  \<^verbatim>\<open>InsufficientLiquidity\<close> for a fill-or-kill order with less than its quantity within reach;
  else \<^verbatim>\<open>PostOnlyViolation\<close> for a post-only limit order that meets some order; each
  with the book untouched. Otherwise the order is matched, and the code is \<^verbatim>\<open>Success\<close> if it is
  filled, is immediate-or-cancel, or rests, and an error for the rest of an order that may not
  rest. For fill-or-kill orders the volumes must be exact and the other side total less than
  \<open>2 ^ 64\<close>.\<close>

theorem add_result_codes:
  assumes "book_wf b" and "m_OrderCounter b \<noteq> - 1"
    and "tif = FOK \<Longrightarrow> exact_volumes b \<and> resting_total (queue (opposite side) b) < 2 ^ 64"
  shows "\<exists>b'. InternalAddOrder now cid p q side ot tif mt f b =
      Some (expected_code ot tif mt f (unat q) (within_reach side ot p (queue (opposite side) b))
        (\<exists>od\<in>set (queue (opposite side) b). crosses side p (m_Price od)), b') \<and>
    (mt \<noteq> Standard \<or> tif = FOK \<and> within_reach side ot p (queue (opposite side) b) < unat q \<or>
       ot = Limit \<and> HasFlag f PostOnly \<and> (\<exists>od\<in>set (queue (opposite side) b). crosses side p (m_Price od)) \<longrightarrow>
     b' = b)"
proof -
  note srt = queue_sorted [OF assms(1), of "opposite side"]
  obtain code fs next1 qs1 where sa: "spec_add now cid p q side ot tif mt f
      (fok_rejected p q side ot b) (m_OrderCounter b) (queues_of b) = (code, fs, next1, qs1)"
    by (metis prod_cases4)
  from InternalAddOrder_refines [OF assms(1,2) this] obtain b' where
    b': "InternalAddOrder now cid p q side ot tif mt f b = Some (code, b')" by blast
  have illq: "fok_rejected p q side ot b \<longleftrightarrow> within_reach side ot p (queue (opposite side) b) < unat q" if "tif = FOK"
    using fok_rejected_iff [OF assms(1)] assms(3) that reachable_within_reach [OF srt] by simp
  note code = spec_add_code [where qs = "queues_of b", OF sa srt illq]
  from add_early [OF b'] code show ?thesis
    by (intro exI [of _ b'] conjI) (auto simp: b' expected_code_def split: if_splits)
qed

theorem add_result_codes_witness:
  "InternalAddOrder 0 2 100 8 Buy Limit GTC Standard PostOnly sample_book = Some (PostOnlyViolation, sample_book) \<and>
   InternalAddOrder 0 2 101 13 Buy Limit FOK Standard Flags_None sample_book = Some (InsufficientLiquidity, sample_book)"
proof -
  have c: "m_OrderCounter sample_book \<noteq> - 1" by (simp add: sample_counters)
  have x: "\<exists>od\<in>set (queue (opposite Buy) sample_book). crosses Buy 100 (m_Price od)"
    by (simp add: sample_queues crosses_def sample_ask_def)
  have r: "within_reach Buy Limit 101 (queue (opposite Buy) sample_book) = 12"
    by (simp add: sample_queues within_reach_def crosses_def sample_ask_def)
  have t: "resting_total (queue (opposite Buy) sample_book) < 2 ^ 64" by (simp add: sample_queues sample_ask_def)
  have "HasFlag PostOnly PostOnly" by (simp add: HasFlag_def PostOnly_def)
  with add_result_codes [OF sample_wf c, of GTC Buy 0 2 100 8 Limit Standard PostOnly] x
    add_result_codes [OF sample_wf c, of FOK Buy 0 2 101 13 Limit Standard Flags_None] r t sample_exact
  show ?thesis by (auto simp: expected_code_def)
qed

text \<open>C9: a post-only limit order never takes liquidity: whatever the result, the other side's
  queue is what it was.\<close>

theorem add_post_only_never_trades:
  assumes "book_wf b" and "m_OrderCounter b \<noteq> - 1" and "HasFlag f PostOnly"
    and "InternalAddOrder now cid p q side Limit tif mt f b = Some (code, b')"
  shows "queue (opposite side) b' = queue (opposite side) b"
proof -
  from InternalAddOrder_spec [OF assms(1,2,4)] obtain fs qs where
    s: "spec_add now cid p q side Limit tif mt f (fok_rejected p q side Limit b) (m_OrderCounter b)
      (queues_of b) = (code, fs, m_OrderCounter b', qs)" and q: "\<And>s. queue s b' = qs s" by blast
  from s show ?thesis
    by (cases rule: spec_add_cases) (use q assms(3) post_only_no_fill(1) in auto)
qed

theorem add_post_only_never_trades_witness:
  "\<exists>b'. InternalAddOrder 0 2 100 8 Buy Limit GTC Standard PostOnly sample_book = Some (PostOnlyViolation, b') \<and>
     queue Sell b' = queue Sell sample_book"
proof -
  obtain b' where b': "InternalAddOrder 0 2 100 8 Buy Limit GTC Standard PostOnly sample_book = Some (PostOnlyViolation, b')"
    using sample_post_only by blast
  have "m_OrderCounter sample_book \<noteq> - 1" "HasFlag PostOnly PostOnly"
    by (simp_all add: sample_counters HasFlag_def PostOnly_def)
  from add_post_only_never_trades [OF sample_wf this b'] b' show ?thesis by simp
qed

text \<open>Immediate-or-cancel, fill-or-kill and market orders never rest: their own side is what it
  was, and their id is not found afterwards.\<close>

theorem add_never_rests:
  assumes "book_wf b" and "m_OrderCounter b \<noteq> - 1" and "tif \<in> {IOC, FOK} \<or> ot = Market"
    and "InternalAddOrder now cid p q side ot tif mt f b = Some (code, b')"
  shows "queue side b' = queue side b \<and> FindOrder (m_OrderCounter b) b' = Some None"
proof -
  from InternalAddOrder_spec [OF assms(1,2,4)] obtain fs qs where
    s: "spec_add now cid p q side ot tif mt f (fok_rejected p q side ot b) (m_OrderCounter b)
      (queues_of b) = (code, fs, m_OrderCounter b', qs)" and q: "\<And>s. queue s b' = qs s"
    and w: "book_wf b'" by blast
  have nr: "\<not> rests ot tif" using assms(3) by (auto simp: rests_def)
  from s have sd: "queue side b' = queue side b"
    by (cases rule: spec_add_cases) (use q nr in auto)
  have sub: "m_OrderID ` set (queue s b') \<subseteq> m_OrderID ` set (queue s b)" for s
  proof (cases "s = side")
    case False
    from s show ?thesis
      by (cases rule: spec_add_cases) (use q False fill_queue_ids in \<open>auto simp: neq_opposite\<close>)
  qed (simp add: sd)
  have "m_OrderID od \<noteq> m_OrderCounter b" if "od \<in> set (queue s b')" for od s
  proof -
    from that sub obtain od' where "od' \<in> set (queue s b)" "m_OrderID od = m_OrderID od'" by blast
    with queue_ok(2) [OF assms(1)] show ?thesis by (metis less_irrefl)
  qed
  then have "find_order (m_OrderCounter b) (queues_of b') = None"
    by (auto simp: find_order_def find_None_iff)
  with sd show ?thesis by (simp add: FindOrder_find [OF w])
qed

theorem add_never_rests_witness:
  "\<exists>b'. InternalAddOrder 0 2 100 8 Buy Limit IOC Standard Flags_None sample_book = Some (Success, b') \<and>
     queue Buy b' = [sample_bid] \<and> FindOrder 4 b' = Some None"
proof -
  obtain b' where b': "InternalAddOrder 0 2 100 8 Buy Limit IOC Standard Flags_None sample_book = Some (Success, b')"
    using sample_ioc by blast
  from add_never_rests [OF sample_wf _ _ b'] b' show ?thesis by (simp add: sample_counters sample_queues)
qed

text \<open>C10: fill-or-kill is all or nothing on a book with exact volumes whose other side totals less
  than \<open>2 ^ 64\<close>: the order either executes its whole quantity or leaves the book untouched.\<close>

theorem fok_all_or_nothing:
  assumes "book_wf b" and "m_OrderCounter b \<noteq> - 1" and "exact_volumes b"
    and "resting_total (queue (opposite side) b) < 2 ^ 64"
    and "InternalAddOrder now cid p q side ot FOK mt f b = Some (code, b')"
  shows "if code = Success
    then resting_total (queue (opposite side) b) = resting_total (queue (opposite side) b') + unat q
    else b' = b"
proof -
  from InternalAddOrder_spec [OF assms(1,2,5)] obtain fs qs where
    s: "spec_add now cid p q side ot FOK mt f (fok_rejected p q side ot b) (m_OrderCounter b)
      (queues_of b) = (code, fs, m_OrderCounter b', qs)" and q: "\<And>s. queue s b' = qs s" by blast
  from s show ?thesis
  proof (cases rule: spec_add_cases)
    case rejected
    with add_early [OF assms(5)] show ?thesis by auto
  next
    case (matched q' ts')
    then have "unat q \<le> reachable_quantity (price_blocked side ot p) (queue (opposite side) b)"
      using fok_rejected_iff [OF assms(1,3,4)] by (simp add: not_less)
    then have "filled fs = unat q" using fill_queue_amount [OF matched(1)] by simp
    with fill_queue_makers [OF matched(1)] matched(7,9) q show ?thesis by simp
  qed
qed

theorem fok_all_or_nothing_witness:
  "\<exists>code b'. InternalAddOrder 0 2 101 12 Buy Limit FOK Standard Flags_None sample_book = Some (code, b') \<and>
     code = Success \<and> resting_total (queue Sell sample_book) = resting_total (queue Sell b') + 12"
proof -
  obtain b' where b': "InternalAddOrder 0 2 101 12 Buy Limit FOK Standard Flags_None sample_book = Some (Success, b')"
    using sample_fok by blast
  have "m_OrderCounter sample_book \<noteq> - 1" "resting_total (queue (opposite Buy) sample_book) < 2 ^ 64"
    by (simp_all add: sample_counters sample_queues sample_ask_def)
  from fok_all_or_nothing [OF sample_wf this(1) sample_exact this(2) b'] b' show ?thesis by simp
qed

text \<open>C11: an accepted order gets an id no resting order has, the counter moves past it, and if
  the order is found afterwards it is the client's order, with the price, side and size asked
  for, something left, and a type and time in force that may rest.\<close>

theorem accepted_order_gets_fresh_id:
  assumes "book_wf b" and "m_OrderCounter b \<noteq> - 1"
    and "Apply now (MakeAdd cid p q side ot tif mt f) b = Some (evs, b')"
    and "last evs = MakeOrderAccepted cid oid"
  shows "oid = m_OrderCounter b \<and> FindOrder oid b = Some None \<and> m_OrderCounter b' = oid + 1 \<and>
    (case FindOrder oid b' of
       Some (Some od) \<Rightarrow> m_ClientID od = cid \<and> m_Side od = side \<and> m_Price od = p \<and>
         m_IntialQuantity od = q \<and> rests ot tif \<and> m_RemainingQuantity od \<noteq> 0
     | Some None \<Rightarrow> True | None \<Rightarrow> False)"
proof -
  let ?cmd = "MakeAdd cid p q side ot tif mt f" and ?id = "m_OrderCounter b"
  have stp: "book_step now ?cmd evs b b'" using assms(2,3) by (intro book_step.intros) simp_all
  note st = book_step_spec [OF assms(1) stp]
  obtain code fs next' qs' where sa: "spec_add now cid p q side ot tif mt f (illiquid ?cmd b)
      ?id (queues_of b) = (code, fs, next', qs')"
    by (metis prod_cases4)
  with st(3) have evs: "evs = trade_events cid Standard (m_TradeCounter b) fs @
      [if code = Success then MakeOrderAccepted cid ?id else MakeOrderRejected cid code]"
    and post: "m_OrderCounter b' = next'" "queues_of b' = qs'"
    by (simp_all add: spec_apply_MakeAdd)
  from evs assms(4) have code: "code = Success" and oid: "oid = ?id"
    by (auto simp: event_defs split: if_splits)
  have none: "find_order ?id (queues_of b) = None"
    unfolding find_order_None_iff using queue_ok(2) [OF assms(1)] by (metis less_irrefl)
  from sa show ?thesis
  proof (cases rule: spec_add_cases)
    case (matched q' ts')
    note at_rest = new_order_at_rest [where qs = "queues_of b" and qs' = qs', OF matched(1,7,8) none]
    show ?thesis
    proof (cases "find_order ?id (queues_of b')")
      case None
      with oid none matched(5) post(1) show ?thesis
        by (simp add: FindOrder_find [OF assms(1)] FindOrder_find [OF st(1)])
    next
      case (Some od)
      with at_rest [of od] post(2) oid none matched(5) post(1) show ?thesis
        by (simp add: FindOrder_find [OF assms(1)] FindOrder_find [OF st(1)])
    qed
  qed (use code in simp)
qed

theorem accepted_order_gets_fresh_id_witness:
  "\<exists>evs b'. Apply 0 (MakeAdd 5 95 3 Sell Limit GTC Standard Flags_None) sample_book = Some (evs, b') \<and>
     FindOrder 4 sample_book = Some None \<and> m_OrderCounter b' = 5"
proof -
  obtain evs b' where a: "Apply 0 (MakeAdd 5 95 3 Sell Limit GTC Standard Flags_None) sample_book = Some (evs, b')"
    "last evs = MakeOrderAccepted 5 4"
    using sample_add by blast
  from accepted_order_gets_fresh_id [OF sample_wf _ this] a show ?thesis by (simp add: sample_counters)
qed

text \<open>The volume error of an in-place reduction breaks fill-or-kill: an ask of 100 is reduced
  to 10, its level then shows 190, and a fill-or-kill buy of 150 is accepted after executing 10.\<close>

theorem fok_filled_in_part_after_reduction:
  "map_option (\<lambda>(evss, b). (evss, queue Buy b, queue Sell b))
     (apply_all
       [(0, MakeAdd 1 100 100 Sell Limit GTC Standard Flags_None),
        (0, MakeModify 1 1 100 10),
        (0, MakeAdd 2 100 150 Buy Limit FOK Standard Flags_None)] OrderBook_init) =
   Some ([[MakeOrderAccepted 1 1], [MakeModifyAccepted 1 1 1],
          [MakeTrade (mk_Trade 1 2 1 100 10 Sell Standard), MakeOrderAccepted 2 2]], [], [])"
  by code_simp

text \<open>An order that may not rest is rejected after it has traded: a market order with time in
  force GTC executes 5 and is then answered with \<^verbatim>\<open>InvalidOrderCombination\<close>.\<close>

theorem rejected_order_has_traded:
  "map_option (\<lambda>(evss, b). (evss, queue Sell b))
     (apply_all
       [(0, MakeAdd 1 100 5 Sell Limit GTC Standard Flags_None),
        (0, MakeAdd 2 0 8 Buy Market GTC Standard Flags_None)] OrderBook_init) =
   Some ([[MakeOrderAccepted 1 1],
          [MakeTrade (mk_Trade 1 2 1 100 5 Sell Standard), MakeOrderRejected 2 InvalidOrderCombination]], [])"
  by code_simp

subsection \<open>Cancelling and modifying\<close>

text \<open>C12: cancelling by the owner removes exactly that order: it succeeds, the id is no longer
  found, every other id is found as before, and the queues lose this order only.\<close>

theorem cancel_removes_exactly:
  assumes "book_wf b" and "FindOrder oid b = Some (Some od)"
  shows "\<exists>b'. InternalCancelOrder (m_ClientID od) oid b = Some (Success, b') \<and> book_wf b' \<and>
    FindOrder oid b' = Some None \<and> (\<forall>oid'. oid' \<noteq> oid \<longrightarrow> FindOrder oid' b' = FindOrder oid' b) \<and>
    (\<forall>s. queue s b' = filter (\<lambda>x. m_OrderID x \<noteq> oid) (queue s b))"
proof -
  have find: "find_order oid (queues_of b) = Some od"
    using assms FindOrder_find by simp
  then have "spec_cancel (m_ClientID od) oid (queues_of b) = (Success, remove_order oid (queues_of b))"
    by (simp add: spec_cancel_def)
  from InternalCancelOrder_refines [OF assms(1) this] obtain b' where
    b': "InternalCancelOrder (m_ClientID od) oid b = Some (Success, b')" "book_wf b'"
      "queues_of b' = remove_order oid (queues_of b)" by blast
  have "find_order oid' (remove_order oid qs) = (if oid' = oid then None else find_order oid' qs)" for oid' qs
  proof -
    have "find (\<lambda>x. m_OrderID x = oid') (filter (\<lambda>x. m_OrderID x \<noteq> oid) xs) =
        (if oid' = oid then None else find (\<lambda>x. m_OrderID x = oid') xs)" for xs
      by (induction xs) auto
    from this [of "qs Buy @ qs Sell"] show ?thesis
      by (simp add: find_order_def remove_order_def)
  qed
  with b' have "FindOrder oid' b' = (if oid' = oid then Some None else FindOrder oid' b)" for oid'
    by (simp add: FindOrder_find [OF b'(2)] FindOrder_find [OF assms(1)])
  with b' show ?thesis by (auto simp: remove_order_def fun_eq_iff)
qed

theorem cancel_removes_exactly_witness:
  "\<exists>b'. InternalCancelOrder 1 1 sample_book = Some (Success, b') \<and> book_wf b' \<and> FindOrder 1 b' = Some None \<and>
     queue Sell b' = [sample_ask 2 101 7] \<and> queue Buy b' = [sample_bid]"
  using cancel_removes_exactly [OF sample_wf sample_find(1)]
  by (auto simp: sample_queues sample_ask_def sample_bid_def)

text \<open>C13: only the owner may cancel or modify: any other client is answered
  \<^verbatim>\<open>Unauthorized\<close> and the book does not change.\<close>

theorem foreign_client_refused:
  assumes "book_wf b" and "FindOrder oid b = Some (Some od)" and "m_ClientID od \<noteq> cid"
  shows "InternalCancelOrder cid oid b = Some (Unauthorized, b) \<and>
    InternalModifyOrder now cid oid p q b = Some (Unauthorized, b)"
proof -
  from assms(2) obtain e where e: "m_Orders b oid = Some e" "deref e b = Some od"
    by (auto simp: FindOrder_def split: option.splits)
  then obtain lvl where "get_level (level_it e) b = Some lvl" by (auto simp: deref_Some_iff)
  with e assms(3) show ?thesis
    by (simp_all add: InternalCancelOrder_def InternalModifyOrder_def)
qed

theorem foreign_client_refused_witness:
  "InternalCancelOrder 9 1 sample_book = Some (Unauthorized, sample_book) \<and>
   InternalModifyOrder 0 9 1 50 50 sample_book = Some (Unauthorized, sample_book)"
  using foreign_client_refused [OF sample_wf sample_find(1), of 9 0 50 50] by (simp add: sample_ask_def)

text \<open>C14: reducing an order at its price keeps its place in the queue and changes nothing but its
  remaining quantity.\<close>

theorem reduce_keeps_position:
  assumes "book_wf b" and "FindOrder oid b = Some (Some od)" and "m_ClientID od = cid"
    and "q < m_RemainingQuantity od" and "m_OrderCounter b \<noteq> - 1"
  shows "\<exists>b'. InternalModifyOrder now cid oid (m_Price od) q b = Some (Success, b') \<and> book_wf b' \<and>
    FindOrder oid b' = Some (Some (od\<lparr>m_RemainingQuantity := q\<rparr>)) \<and>
    (\<forall>s. queue s b' = map (\<lambda>x. if m_OrderID x = oid then od\<lparr>m_RemainingQuantity := q\<rparr> else x) (queue s b)) \<and>
    m_OrderCounter b' = m_OrderCounter b \<and> scratch b' = scratch b"
proof -
  let ?od = "od\<lparr>m_RemainingQuantity := q\<rparr>"
  have find: "find_order oid (queues_of b) = Some od" using assms FindOrder_find by simp
  then have id: "m_OrderID od = oid" using find_order_in by blast
  have ctr: "spec_modify now cid oid (m_Price od) q (m_OrderCounter b) (queues_of b) =
      (Success, [], m_OrderCounter b, replace_order oid ?od (queues_of b))"
    using find assms(3,4) by (simp add: spec_modify_def less_not_sym)
  from InternalModifyOrder_refines [OF assms(1) assms(5) this] obtain b' where
    b': "InternalModifyOrder now cid oid (m_Price od) q b = Some (Success, b')" "book_wf b'"
      "queues_of b' = replace_order oid ?od (queues_of b)" "m_OrderCounter b' = m_OrderCounter b"
      "scratch b' = scratch b"
    by auto
  moreover have "FindOrder oid b' = Some (Some ?od)"
    using find_order_replace [of oid "queues_of b" ?od] find id b'(3) by (simp add: FindOrder_find [OF b'(2)])
  ultimately show ?thesis by (auto simp: replace_order_def fun_eq_iff)
qed

theorem reduce_keeps_position_witness:
  "\<exists>b'. InternalModifyOrder 0 1 1 100 2 sample_book = Some (Success, b') \<and>
     queue Sell b' = [(sample_ask 1 100 5)\<lparr>m_RemainingQuantity := 2\<rparr>, sample_ask 2 101 7]"
  using reduce_keeps_position [OF sample_wf sample_find(1), of 1 2 0]
  by (auto simp: sample_queues sample_counters sample_ask_def)

text \<open>C15: a modification by the owner that changes the price or raises the quantity is a cancellation
  followed by a new order, and retires the id: when the command has a defined result, the order is no
  longer found under it. A post-only limit order whose new price meets
  an order of the other side is answered \<^verbatim>\<open>ModifyRejected\<close> and is gone. In every other case the
  modified order trades as much as is within its reach and what is left of it rests under the next
  identifier, with its client, side, type, time in force and flags; but
  \<^verbatim>\<open>ModifyAccepted\<close> reports the old identifier as the new one.\<close>

theorem modify_that_moves_retires_the_id:
  assumes "book_wf b" and "m_OrderCounter b \<noteq> - 1" and "FindOrder oid b = Some (Some od)"
    and "m_ClientID od = cid" and "p \<noteq> m_Price od \<or> m_RemainingQuantity od < q"
    and "Apply now (MakeModify cid oid p q) b = Some (evs, b')"
  shows "FindOrder oid b' = Some None \<and>
    (let others = queue (opposite (m_Side od)) b in
     if m_OrderType od = Limit \<and> HasFlag (m_Flags od) PostOnly \<and> (\<exists>x\<in>set others. crosses (m_Side od) p (m_Price x))
     then evs = [MakeModifyRejected cid oid InvalidModify] \<and>
       (\<forall>s. queue s b' = filter (\<lambda>x. m_OrderID x \<noteq> oid) (queue s b))
     else last evs = MakeModifyAccepted cid oid oid \<and>
       traded evs = min (unat q) (within_reach (m_Side od) (m_OrderType od) p others) \<and>
       FindOrder (m_OrderCounter b) b' = Some (if traded evs = unat q then None
         else Some ((mk_Order now (m_OrderCounter b) cid p q (m_Side od) (m_OrderType od) (m_TimeInForce od)
           Standard (m_Flags od))\<lparr>m_RemainingQuantity := q - of_nat (traded evs)\<rparr>)))"
proof -
  let ?id = "m_OrderCounter b" and ?s = "m_Side od" and ?qs = "remove_order oid (queues_of b)"
  have find: "find_order oid (queues_of b) = Some od" using assms FindOrder_find by simp
  then obtain s where od: "od \<in> set (queue s b)" "m_OrderID od = oid" using find_order_in by blast
  note ok = queue_ok [OF assms(1) od(1)]
  have stp: "book_step now (MakeModify cid oid p q) evs b b'" using assms(2,6) by (intro applied) simp_all
  note st = book_step_spec [OF assms(1) stp]
  obtain code fs next1 qs1 where sa: "spec_add now cid p q ?s (m_OrderType od)
      (m_TimeInForce od) (m_MatchType od) (m_Flags od) False ?id ?qs = (code, fs, next1, qs1)"
    by (metis prod_cases4)
  with st(3) find assms(4,5) have evs: "evs = trade_events cid Standard (m_TradeCounter b) fs @
      [if code = Success then MakeModifyAccepted cid oid oid else MakeModifyRejected cid oid InvalidModify]"
    and post: "queues_of b' = qs1"
    by (auto simp: spec_apply_MakeModify spec_modify_def split: if_splits)
  note opp = removed_order(1) [OF assms(1) find] and gone = removed_order(2) [OF assms(1) find]
    and new = removed_order(3) [OF assms(1) find]
  have "find_order oid qs1 = None" using find_after_add [OF sa gone] od(2) ok(2) by auto
  then have retired: "FindOrder oid b' = Some None" by (simp add: FindOrder_find [OF st(1)] post)
  note srt = queue_sorted [OF assms(1), of "opposite ?s"]
  note po = spec_rejects_post_only_iff [where qs = ?qs and side = ?s, unfolded opp, OF srt]
  have rest: "rests (m_OrderType od) (m_TimeInForce od)" using ok by (auto simp: rests_def)
  from sa show ?thesis
  proof (cases rule: spec_add_cases)
    case rejected
    then have "code = PostOnlyViolation" using ok(4,5) by auto
    with rejected have "m_OrderType od = Limit \<and> HasFlag (m_Flags od) PostOnly \<and>
        (\<exists>x\<in>set (queue (opposite ?s) b). crosses ?s p (m_Price x))" by (simp only: po simp_thms)
    moreover have "\<forall>s. queue s b' = filter (\<lambda>x. m_OrderID x \<noteq> oid) (queue s b)"
      using post rejected(4) by (simp add: remove_order_def fun_eq_iff)
    moreover have "evs = [MakeModifyRejected cid oid InvalidModify]"
      using evs rejected(2) \<open>code = PostOnlyViolation\<close> by simp
    ultimately show ?thesis using retired by (simp only: Let_def if_P simp_thms)
  next
    case (matched q' ts')
    note reach = fill_queue_reach [OF matched(1) [unfolded opp] srt]
    have tr: "traded evs = filled fs" by (simp add: evs)
    have q': "traded evs = unat q \<longleftrightarrow> q' = 0" using reach(1,2) tr by linarith
    have "find_order ?id qs1 = (if q' \<noteq> 0 \<and> rests (m_OrderType od) (m_TimeInForce od) then
        Some ((mk_Order now ?id cid p q ?s (m_OrderType od) (m_TimeInForce od) (m_MatchType od) (m_Flags od))
          \<lparr>m_RemainingQuantity := q'\<rparr>) else None)"
      by (rule find_new_order [where qs' = qs1, OF matched(1,7,8) new]) simp
    then have "FindOrder ?id b' = Some (if traded evs = unat q then None
         else Some ((mk_Order now ?id cid p q ?s (m_OrderType od) (m_TimeInForce od) Standard (m_Flags od))
           \<lparr>m_RemainingQuantity := q - of_nat (traded evs)\<rparr>))"
      using rest ok(5) q' reach(3) tr by (simp add: FindOrder_find [OF st(1)] post)
    moreover have "code = Success" using matched(9) rest by simp
    then have "last evs = MakeModifyAccepted cid oid oid" by (simp add: evs)
    moreover note matched(4) [unfolded po]
    ultimately show ?thesis using retired reach(1) tr by (simp only: Let_def if_not_P simp_thms)
  qed
qed

text \<open>The bid of the sample book is moved to 100, where it trades 5, and 3 of it rest under the identifier 4.\<close>

theorem modify_that_moves_retires_the_id_witness:
  "\<exists>evs b'. Apply 0 (MakeModify 2 3 100 8) sample_book = Some (evs, b') \<and> FindOrder 3 b' = Some None \<and>
     last evs = MakeModifyAccepted 2 3 3 \<and> traded evs = 5 \<and>
     FindOrder 4 b' = Some (Some ((mk_Order 0 4 2 100 8 Buy Limit GTC Standard Flags_None)\<lparr>m_RemainingQuantity := 3\<rparr>))"
proof -
  have "map_option (\<lambda>(evs, b'). True) (Apply 0 (MakeModify 2 3 100 8) sample_book) = Some True" by code_simp
  from map_fst_Some [OF this] obtain evs b' where
    ap: "Apply 0 (MakeModify 2 3 100 8) sample_book = Some (evs, b')" by blast
  have c: "m_OrderCounter sample_book \<noteq> - 1" by (simp add: sample_counters)
  have r: "within_reach Buy Limit 100 (queue Sell sample_book) = 5"
    by (simp add: sample_queues within_reach_def crosses_def sample_ask_def)
  have "\<not> HasFlag Flags_None PostOnly" by (simp add: HasFlag_def flag_defs)
  with modify_that_moves_retires_the_id [OF sample_wf c sample_find(2) _ _ ap] r ap show ?thesis
    by (auto simp: sample_bid_def sample_counters)
qed

text \<open>A rejected modification loses the order: the bid is cancelled first, the post-only
  check then refuses the new price, and the client is told \<^verbatim>\<open>ModifyRejected\<close>.\<close>

theorem rejected_modify_loses_order:
  "map_option (\<lambda>(evss, b). (evss, queue Buy b, map m_OrderID (queue Sell b)))
     (apply_all
       [(0, MakeAdd 1 100 5 Sell Limit GTC Standard Flags_None),
        (0, MakeAdd 2 90 8 Buy Limit GTC Standard PostOnly),
        (0, MakeModify 2 2 100 8)] OrderBook_init) =
   Some ([[MakeOrderAccepted 1 1], [MakeOrderAccepted 2 2], [MakeModifyRejected 2 2 InvalidModify]], [], [1])"
  by code_simp

subsection \<open>Volumes\<close>

text \<open>C16: the volume of every level stays the sum of what its orders have left, under every
  command that adds no hidden order and reduces none in place.\<close>

theorem exact_volumes_kept:
  assumes "book_wf b" and "m_OrderCounter b \<noteq> - 1" and "command_ok cmd" and "exact_volumes b"
    and "keeps_volumes cmd b" and "Apply now cmd b = Some (evs, b')"
  shows "exact_volumes b'"
  using assms by (rule exact_volumes_Apply)

theorem exact_volumes_kept_witness:
  "\<exists>evs b'. Apply 0 (MakeAdd 5 95 3 Sell Limit GTC Standard Flags_None) sample_book = Some (evs, b') \<and> exact_volumes b'"
proof -
  obtain evs b' where a: "Apply 0 (MakeAdd 5 95 3 Sell Limit GTC Standard Flags_None) sample_book = Some (evs, b')"
    using sample_add by blast
  have "exact_volumes b'"
    by (rule exact_volumes_kept [OF sample_wf _ _ sample_exact _ a])
      (simp_all add: sample_counters flag_defs HasFlag_def)
  with a show ?thesis by blast
qed

text \<open>Reducing a visible order in place moves its level's volume the wrong way: the gap between
  the volume and the orders widens by twice the reduction, and no other level changes.\<close>

theorem reduction_inflates_volume:
  assumes "book_wf b" and "m_Orders b oid = Some e" and "deref e b = Some od"
    and "m_ClientID od = cid" and "q < m_RemainingQuantity od" and "\<not> HasFlag (m_Flags od) Hidden"
    and "InternalModifyOrder now cid oid (m_Price od) q b = Some (code, b')"
  shows "volume_gap it b' = (if it = level_it e
    then volume_gap it b + 2 * (m_RemainingQuantity od - q) else volume_gap it b)"
  using assms by (rule volume_gap_reduce)

theorem reduction_inflates_volume_witness:
  "\<exists>code b'. InternalModifyOrder 0 1 1 100 2 sample_book = Some (code, b') \<and>
     volume_gap (Sell, 100) b' = volume_gap (Sell, 100) sample_book + 6"
proof -
  obtain e where e: "m_Orders sample_book 1 = Some e" "deref e sample_book = Some (sample_ask 1 100 5)"
    using sample_find(1) by (auto simp: FindOrder_def split: option.splits)
  have it: "level_it e = (Sell, 100)"
    using book_wfD(3) [OF sample_wf e(2)] by (simp add: resting_ok_def sample_ask_def prod_eq_iff)
  obtain code b' where m: "InternalModifyOrder 0 1 1 100 2 sample_book = Some (code, b')"
    using sample_reduce by blast
  with reduction_inflates_volume [OF sample_wf e, of 1 2 0 code b' "(Sell, 100)"] it show ?thesis
    by (auto simp: sample_ask_def flag_defs HasFlag_def)
qed

text \<open>Executing a hidden order subtracts its quantity from a volume that never counted it:
  after a hidden 50 is bought, the level with a visible 5 shows \<open>2 ^ 64 - 45\<close>.\<close>

theorem hidden_fill_underflows_volume:
  "map_option (\<lambda>(evss, b). (GetAskVolumeAtPrice 100 b, map m_RemainingQuantity (queue Sell b)))
     (apply_all
       [(0, MakeAdd 1 100 50 Sell Limit GTC Standard Hidden),
        (0, MakeAdd 1 100 5 Sell Limit GTC Standard Flags_None),
        (0, MakeAdd 2 100 50 Buy Limit GTC Standard Flags_None)] OrderBook_init) =
   Some (5 - 50, [5])"
  by code_simp

subsection \<open>Queries\<close>

text \<open>\<^verbatim>\<open>FindOrder\<close> never follows a dangling iterator and returns the resting order with
  the id, or nothing when there is none.\<close>

theorem FindOrder_finds_resting:
  assumes "book_wf b"
  shows "FindOrder oid b = Some (find (\<lambda>od. m_OrderID od = oid) (queue Buy b @ queue Sell b))"
  using FindOrder_find [OF assms] by (simp add: find_order_def)

theorem FindOrder_finds_resting_witness:
  "FindOrder 2 sample_book = Some (find (\<lambda>od. m_OrderID od = 2) (queue Buy sample_book @ queue Sell sample_book))"
  using sample_wf by (rule FindOrder_finds_resting)

text \<open>\<^verbatim>\<open>GetBestBid\<close> and \<^verbatim>\<open>GetBestAsk\<close> never take the front of an empty list: they
  point to the order with the highest priority of their side, or are null when the side is empty.\<close>

theorem best_quote_is_queue_head:
  assumes "book_wf b"
  shows "(case GetBestBid b of Some (Some e) \<Rightarrow> deref e b = Some (hd (queue Buy b)) \<and> queue Buy b \<noteq> []
          | Some None \<Rightarrow> queue Buy b = [] | None \<Rightarrow> False) \<and>
    (case GetBestAsk b of Some (Some e) \<Rightarrow> deref e b = Some (hd (queue Sell b)) \<and> queue Sell b \<noteq> []
          | Some None \<Rightarrow> queue Sell b = [] | None \<Rightarrow> False)"
proof -
  have "case front_of s b of Some (Some e) \<Rightarrow> deref e b = Some (hd (queue s b)) \<and> queue s b \<noteq> []
          | Some None \<Rightarrow> queue s b = [] | None \<Rightarrow> False" for s
    using front_of_eq_queue [OF assms, of s] by (auto split: option.splits)
  then show ?thesis by (simp add: GetBestBid_def GetBestAsk_def)
qed

theorem best_quote_is_queue_head_witness:
  "(case GetBestBid sample_book of
      Some (Some e) \<Rightarrow> deref e sample_book = Some (hd (queue Buy sample_book)) \<and> queue Buy sample_book \<noteq> []
    | Some None \<Rightarrow> queue Buy sample_book = [] | None \<Rightarrow> False) \<and>
   (case GetBestAsk sample_book of
      Some (Some e) \<Rightarrow> deref e sample_book = Some (hd (queue Sell sample_book)) \<and> queue Sell sample_book \<noteq> []
    | Some None \<Rightarrow> queue Sell sample_book = [] | None \<Rightarrow> False)"
  using sample_wf by (rule best_quote_is_queue_head)

text \<open>C17: on a well-formed book with fewer than \<open>2 ^ 32\<close> levels on each side (the counter of the loop
  has 32 bits), a snapshot of depth \<open>d\<close> shows the first \<open>d\<close> levels of each side with their prices and
  volumes, best first: bids strictly falling and asks strictly rising in price, and every resting order
  whose price is not shown has a worse price than everything that is.\<close>

theorem snapshot_shows_best_levels:
  assumes "book_wf b" and "length (m_Bids b) < 2 ^ 32" and "length (m_Asks b) < 2 ^ 32"
    and "snapshot = GetSnapshot depth b"
  shows "snapshot =
    \<lparr>s_bids = map (\<lambda>(p, l). \<lparr>s_price = p, s_quantity = volume l\<rparr>) (take (unat depth) (m_Bids b)),
     s_asks = map (\<lambda>(p, l). \<lparr>s_price = p, s_quantity = volume l\<rparr>) (take (unat depth) (m_Asks b)),
     s_trades = []\<rparr> \<and>
    sorted_wrt (\<lambda>x y. sint (s_price y) < sint (s_price x)) (s_bids snapshot) \<and>
    sorted_wrt (\<lambda>x y. sint (s_price x) < sint (s_price y)) (s_asks snapshot) \<and>
    (\<forall>od\<in>set (queue Buy b). m_Price od \<in> s_price ` set (s_bids snapshot) \<or>
       (\<forall>l\<in>set (s_bids snapshot). sint (m_Price od) < sint (s_price l))) \<and>
    (\<forall>od\<in>set (queue Sell b). m_Price od \<in> s_price ` set (s_asks snapshot) \<or>
       (\<forall>l\<in>set (s_asks snapshot). sint (s_price l) < sint (m_Price od)))"
proof -
  have sd: "s_bids snapshot = snapshot_side 0 depth (levels Buy b)" "s_asks snapshot = snapshot_side 0 depth (levels Sell b)"
    by (simp_all add: assms(4) GetSnapshot_def)
  note bids = snapshot_side_best [OF assms(1) _ sd(1)] and asks = snapshot_side_best [OF assms(1) _ sd(2)]
  have "snapshot =
    \<lparr>s_bids = map (\<lambda>(p, l). \<lparr>s_price = p, s_quantity = volume l\<rparr>) (take (unat depth) (m_Bids b)),
     s_asks = map (\<lambda>(p, l). \<lparr>s_price = p, s_quantity = volume l\<rparr>) (take (unat depth) (m_Asks b)),
     s_trades = []\<rparr>"
    using GetSnapshot_side [of "m_Bids b" 0 depth] GetSnapshot_side [of "m_Asks b" 0 depth] assms(2-4)
    by (simp add: GetSnapshot_def)
  moreover from bids(1) asks(1) have
    "sorted_wrt (\<lambda>x y. sint (s_price y) < sint (s_price x)) (s_bids snapshot)"
    "sorted_wrt (\<lambda>x y. sint (s_price x) < sint (s_price y)) (s_asks snapshot)"
    using assms(2,3) by (simp_all add: word_sless_alt)
  moreover from bids(2) asks(2) have
    "\<forall>od\<in>set (queue Buy b). m_Price od \<in> s_price ` set (s_bids snapshot) \<or>
       (\<forall>l\<in>set (s_bids snapshot). sint (m_Price od) < sint (s_price l))"
    "\<forall>od\<in>set (queue Sell b). m_Price od \<in> s_price ` set (s_asks snapshot) \<or>
       (\<forall>l\<in>set (s_asks snapshot). sint (s_price l) < sint (m_Price od))"
    using assms(2,3) by (auto simp: word_sless_alt)
  ultimately show ?thesis by blast
qed

text \<open>Of the asks at 100 and 101, a snapshot of depth 1 shows the one at 100.\<close>

theorem snapshot_shows_best_levels_witness:
  "map s_price (s_asks (GetSnapshot 1 sample_book)) = [100] \<and> sample_ask 2 101 7 \<in> set (queue Sell sample_book) \<and>
   list_all (\<lambda>l. sint (s_price l) < sint (m_Price (sample_ask 2 101 7))) (s_asks (GetSnapshot 1 sample_book))"
proof -
  have "length (m_Bids sample_book) < 2 ^ 32" "length (m_Asks sample_book) < 2 ^ 32"
    by (simp_all add: sample_levels)
  from snapshot_shows_best_levels [OF sample_wf this refl, of 1]
  have "\<forall>od\<in>set (queue Sell sample_book). m_Price od \<in> s_price ` set (s_asks (GetSnapshot 1 sample_book)) \<or>
      (\<forall>l\<in>set (s_asks (GetSnapshot 1 sample_book)). sint (s_price l) < sint (m_Price od))" by blast
  moreover have shown: "map s_price (s_asks (GetSnapshot 1 sample_book)) = [100]" by code_simp
  then have "s_price ` set (s_asks (GetSnapshot 1 sample_book)) = {100}"
    by (metis list.set(1,2) list.set_map)
  moreover have "sample_ask 2 101 7 \<in> set (queue Sell sample_book)" by (simp add: sample_queues)
  moreover have "m_Price (sample_ask 2 101 7) = 101" by (simp add: sample_ask_def)
  ultimately show ?thesis using shown by (fastforce simp: list_all_iff)
qed

subsection \<open>Events\<close>

text \<open>C18: how commands are answered. The empty command yields no event and leaves the queues. A
  cancellation always has a defined result, a single event. Whenever an addition or a modification has a
  defined result, it is answered by trade events followed by exactly one event that closes the
  command: of its kind, with its client and, for a modification, its order. Every event has the tag of
  its data.\<close>

theorem command_reply_shape:
  assumes "book_wf b" and "m_OrderCounter b \<noteq> - 1" and "command_ok cmd"
  shows "(m_CommandType cmd = Cmd_None \<longrightarrow>
      (\<exists>b'. Apply now cmd b = Some ([], b') \<and> queues_of b' = queues_of b)) \<and>
    (m_CommandType cmd = Cmd_Cancel \<longrightarrow> (\<exists>ev b'. Apply now cmd b = Some ([ev], b') \<and> closes cmd ev)) \<and>
    (\<forall>evs b'. m_CommandType cmd \<noteq> Cmd_None \<and> Apply now cmd b = Some (evs, b') \<longrightarrow>
      (\<exists>trades ev. evs = trades @ [ev] \<and> closes cmd ev \<and> event_ok ev \<and>
         (\<forall>t\<in>set trades. m_EventType t = Ev_Trade \<and> event_ok t)))"
proof (intro conjI impI allI)
  obtain evs nx qs where sp: "spec_apply now cmd (m_TradeCounter b) (illiquid cmd b) (m_OrderCounter b)
      (queues_of b) = (evs, nx, qs)"
    by (metis prod_cases3)
  note ap = Apply_refines(1) [OF assms sp]
  show "\<exists>b'. Apply now cmd b = Some ([], b') \<and> queues_of b' = queues_of b" if "m_CommandType cmd = Cmd_None"
  proof -
    from assms(3) that have "cmd = CommandPayload_default" by (cases rule: command_ok_cases) (simp_all add: command_defs)
    with sp have "evs = []" "qs = queues_of b" by (auto simp: spec_apply_def command_defs)
    with ap show ?thesis by auto
  qed
  show "\<exists>ev b'. Apply now cmd b = Some ([ev], b') \<and> closes cmd ev" if "m_CommandType cmd = Cmd_Cancel"
  proof -
    from that have "m_CommandType cmd \<noteq> Cmd_None" by simp
    from spec_apply_closes [OF assms(3) this sp] that obtain cid ev where
      "evs = trade_events cid Standard (m_TradeCounter b) [] @ [ev]" "closes cmd ev" by metis
    with ap show ?thesis by (auto simp: MaxEventsPerCommand_def)
  qed
  fix evs' b' assume run: "m_CommandType cmd \<noteq> Cmd_None \<and> Apply now cmd b = Some (evs', b')"
  then have "book_step now cmd evs' b b'" using assms(2,3) by (intro applied) simp_all
  from spec_apply_closes [OF assms(3) _ book_step_spec(3) [OF assms(1) this]] run show
    "\<exists>trades ev. evs' = trades @ [ev] \<and> closes cmd ev \<and> event_ok ev \<and>
       (\<forall>t\<in>set trades. m_EventType t = Ev_Trade \<and> event_ok t)"
    using trade_events_type by metis
qed

theorem command_reply_shape_witness:
  "(\<exists>evs b' trades ev. Apply 0 (MakeAdd 5 95 3 Sell Limit GTC Standard Flags_None) sample_book = Some (evs, b') \<and>
     evs = trades @ [ev] \<and> closes (MakeAdd 5 95 3 Sell Limit GTC Standard Flags_None) ev) \<and>
   (\<exists>ev b'. Apply 0 (MakeCancel 2 3) sample_book = Some ([ev], b') \<and> closes (MakeCancel 2 3) ev)"
proof -
  obtain evs b' where a: "Apply 0 (MakeAdd 5 95 3 Sell Limit GTC Standard Flags_None) sample_book = Some (evs, b')"
    using sample_add by blast
  have c: "m_OrderCounter sample_book \<noteq> - 1" by (simp add: sample_counters)
  from command_reply_shape [OF sample_wf c, of "MakeAdd 5 95 3 Sell Limit GTC Standard Flags_None" 0] a
    command_reply_shape [OF sample_wf c, of "MakeCancel 2 3" 0] show ?thesis by fastforce
qed

text \<open>Trades are numbered consecutively: the counter moves by the number of trade events of
  the command.\<close>

theorem trade_numbers_consecutive:
  assumes "book_wf b" and "m_OrderCounter b \<noteq> - 1" and "command_ok cmd" and "m_CommandType cmd \<noteq> Cmd_None"
    and "Apply now cmd b = Some (evs, b')"
  shows "m_TradeCounter b' = m_TradeCounter b + of_nat (length evs - 1)"
  using assms by (rule trade_budget_Apply)

theorem trade_numbers_consecutive_witness:
  "\<exists>evs b'. Apply 0 (MakeAdd 5 95 3 Sell Limit GTC Standard Flags_None) sample_book = Some (evs, b') \<and>
     m_TradeCounter b' = 1 + of_nat (length evs - 1)"
proof -
  obtain evs b' where a: "Apply 0 (MakeAdd 5 95 3 Sell Limit GTC Standard Flags_None) sample_book = Some (evs, b')"
    using sample_add by blast
  with trade_numbers_consecutive [OF sample_wf _ _ _ a] show ?thesis by (simp add: sample_counters)
qed

text \<open>C19: the trade events of an added order swap the roles: the \<^verbatim>\<open>maker order id\<close> is the client
  id of the incoming order, the \<^verbatim>\<open>taker order id\<close> the client id of a resting order at the
  trade's price, and the \<^verbatim>\<open>taker side\<close> the side of the resting order.\<close>

theorem trades_name_clients_in_swapped_roles:
  assumes "book_wf b" and "m_OrderCounter b \<noteq> - 1"
    and "Apply now (MakeAdd cid p q side ot tif mt f) b = Some (evs, b')"
    and "ev \<in> set evs" and "m_EventData ev = U_Trade t"
  shows "t_MakerOrderID t = cid \<and> t_TakerSide t = opposite side \<and>
    (\<exists>od\<in>set (queue (opposite side) b). t_TakerOrderID t = m_ClientID od \<and> t_Price t = m_Price od \<and>
       \<not> price_blocked side ot p (t_Price t))"
proof -
  let ?cmd = "MakeAdd cid p q side ot tif mt f"
  have "book_step now ?cmd evs b b'" using assms(2,3) by (intro book_step.intros) simp_all
  note st = book_step_spec(3) [OF assms(1) this]
  obtain code fs next' qs' where sa: "spec_add now cid p q side ot tif mt f (illiquid ?cmd b)
      (m_OrderCounter b) (queues_of b) = (code, fs, next', qs')"
    by (metis prod_cases4)
  with st have evs: "evs = trade_events cid Standard (m_TradeCounter b) fs @
      [if code = Success then MakeOrderAccepted cid (m_OrderCounter b) else MakeOrderRejected cid code]"
    by (simp add: spec_apply_MakeAdd)
  with assms(4,5) have "ev \<in> set (trade_events cid Standard (m_TradeCounter b) fs)"
    by (auto simp: event_defs split: if_splits)
  from trade_events_mem [OF this] obtain i od r where od: "(od, r) \<in> set fs"
    and ev: "ev = MakeTrade (mk_Trade i cid (m_ClientID od) (m_Price od) r (m_Side od) Standard)"
    by blast
  have t: "t = mk_Trade i cid (m_ClientID od) (m_Price od) r (m_Side od) Standard"
    using ev assms(5) by (simp add: event_defs)
  from sa show ?thesis
  proof (cases rule: spec_add_cases)
    case (matched q' ts')
    note q = fill_queue_fills [OF matched(1) od] fill_queue_not_blocked [OF matched(1) od]
    with queue_ok(1) [OF assms(1) q(1)] show ?thesis by (auto simp: t mk_Trade_def)
  qed (use od in simp)
qed

theorem trades_name_clients_in_swapped_roles_witness:
  "\<exists>ev t evs b'. Apply 0 (MakeAdd 5 90 3 Sell Limit GTC Standard Flags_None) sample_book = Some (evs, b') \<and>
     ev \<in> set evs \<and> m_EventData ev = U_Trade t \<and> t_MakerOrderID t = 5 \<and> t_TakerSide t = Buy"
proof -
  obtain ev t evs b' where a: "Apply 0 (MakeAdd 5 90 3 Sell Limit GTC Standard Flags_None) sample_book = Some (evs, b')"
    "ev \<in> set evs" "m_EventData ev = U_Trade t"
    using sample_trade by blast
  from trades_name_clients_in_swapped_roles [OF sample_wf _ this] a show ?thesis
    by (auto simp: sample_counters)
qed

text \<open>C21: the reply to a command does not depend on the clock, nor does whether there is one.\<close>

theorem replies_do_not_depend_on_clock:
  assumes "book_wf b" and "m_OrderCounter b \<noteq> - 1" and "command_ok cmd"
  shows "map_option fst (Apply now cmd b) = map_option fst (Apply now' cmd b)"
  unfolding Apply_replies [OF assms]
    fst_spec_apply_clock [of now cmd "m_TradeCounter b" "illiquid cmd b" "m_OrderCounter b" "queues_of b" now'] ..

theorem replies_do_not_depend_on_clock_witness:
  "map_option fst (Apply 0 (MakeAdd 5 95 3 Sell Limit GTC Standard Flags_None) sample_book) =
   map_option fst (Apply 1000 (MakeAdd 5 95 3 Sell Limit GTC Standard Flags_None) sample_book)"
  by (rule replies_do_not_depend_on_clock [OF sample_wf]) (simp_all add: sample_counters)

end
