(* ===== verification/Byte_Codec.thy ===== *)
theory Byte_Codec
  imports Payloads
begin

text \<open>
  The byte layout of the records that are copied as memory: \<^verbatim>\<open>CommandPayload\<close> (40 bytes),
  \<^verbatim>\<open>EventPayload\<close> (64 bytes) and \<^verbatim>\<open>Trade\<close> (56 bytes), with the sizes the code
  asserts, and \<^verbatim>\<open>Serialize\<close> and \<^verbatim>\<open>Deserialize\<close>, which are
  \<^verbatim>\<open>memcpy\<close>. The byte order of the machine is the parameter \<open>be\<close>. The bytes of a union
  outside its active member, and a member no constructor writes, hold what the memory held: that
  is the parameter \<open>mem\<close>. \<^verbatim>\<open>Deserialize\<close> does not validate; bytes that name no
  enumerator have no value in the model's types and yield \<open>None\<close>.

  The locale \<open>fixed_size_codec\<close> states the contract of such a record and proves that a
  concatenation of records reads back as the list; commands, events and trades interpret it, and
  the audit journals rest on it.
\<close>

subsection \<open>Words as bytes\<close>

fun bytes_of :: "nat \<Rightarrow> 'a::len word \<Rightarrow> u8 list" where
  "bytes_of 0 w = []"
| "bytes_of (Suc n) w = ucast w # bytes_of n (drop_bit 8 w)"

fun of_bytes :: "u8 list \<Rightarrow> 'a::len word" where
  "of_bytes [] = 0"
| "of_bytes (x # xs) = ucast x OR push_bit 8 (of_bytes xs)"

lemma length_bytes_of [simp]: "length (bytes_of n w) = n"
  by (induction n w rule: bytes_of.induct) simp_all

lemma of_bytes_bytes_of: "of_bytes (bytes_of n w) = (take_bit (8 * n) w :: 'a::len word)"
proof (induction n w rule: bytes_of.induct)
  case (2 n w)
  show ?case
  proof (rule bit_word_eqI)
    fix k assume "k < LENGTH('a)"
    then show "bit (of_bytes (bytes_of (Suc n) w) :: 'a word) k = bit (take_bit (8 * Suc n) w) k"
      by (cases "k < 8") (auto simp: 2 bit_simps)
  qed
qed simp

text \<open>The bytes of an integer in memory, for either byte order of the machine.\<close>

definition word_bytes :: "bool \<Rightarrow> nat \<Rightarrow> 'a::len word \<Rightarrow> u8 list" where
  "word_bytes big_endian n w = (if big_endian then rev (bytes_of n w) else bytes_of n w)"

definition read_word :: "bool \<Rightarrow> nat \<Rightarrow> nat \<Rightarrow> u8 list \<Rightarrow> 'a::len word" where
  "read_word big_endian off n bs =
     of_bytes (let field = take n (drop off bs) in if big_endian then rev field else field)"

lemma length_word_bytes [simp]: "length (word_bytes be n w) = n"
  by (simp add: word_bytes_def)

lemma read_word_word_bytes:
  assumes "8 * n = LENGTH('a)" and "take n (drop off bs) = word_bytes be n w"
  shows "read_word be off n bs = (w :: 'a::len word)"
  using assms by (simp add: read_word_def word_bytes_def of_bytes_bytes_of)

subsection \<open>Enumerators as bytes\<close>

fun side_byte :: "Side \<Rightarrow> u8" where
  "side_byte Buy = 0" | "side_byte Sell = 1"

fun order_type_byte :: "OrderType \<Rightarrow> u8" where
  "order_type_byte Limit = 0" | "order_type_byte Market = 1" | "order_type_byte Complex = 2"
| "order_type_byte Stop = 3" | "order_type_byte StopLimit = 4" | "order_type_byte MarketIfTouched = 5"
| "order_type_byte LimitIfTouched = 6" | "order_type_byte Pegged = 7"

fun tif_byte :: "TimeInForce \<Rightarrow> u8" where
  "tif_byte GTC = 0" | "tif_byte Day = 1" | "tif_byte IOC = 2" | "tif_byte FOK = 3"
| "tif_byte GTD = 4" | "tif_byte ATO = 5" | "tif_byte ATC = 6"

fun match_type_byte :: "MatchType \<Rightarrow> u8" where
  "match_type_byte Standard = 0" | "match_type_byte Midpoint = 1"
| "match_type_byte HiddenLiquidity = 2" | "match_type_byte Auction = 3"

fun command_type_byte :: "CommandType \<Rightarrow> u8" where
  "command_type_byte Cmd_None = 0" | "command_type_byte Cmd_Add = 1"
| "command_type_byte Cmd_Modify = 2" | "command_type_byte Cmd_Cancel = 3"

fun event_type_byte :: "EventType \<Rightarrow> u8" where
  "event_type_byte Ev_None = 0" | "event_type_byte Ev_OrderAccepted = 1"
| "event_type_byte Ev_OrderRejected = 2" | "event_type_byte Ev_ModifyAccepted = 3"
| "event_type_byte Ev_ModifyRejected = 4" | "event_type_byte Ev_CancelAccepted = 5"
| "event_type_byte Ev_CancelRejected = 6" | "event_type_byte Ev_Trade = 7"

fun error_byte :: "ErrorCode \<Rightarrow> u8" where
  "error_byte Err_None = 0" | "error_byte Success = 1" | "error_byte InvalidRequest = 2"
| "error_byte InvalidModify = 3" | "error_byte InvalidCancel = 4"
| "error_byte InsufficientLiquidity = 5" | "error_byte PostOnlyViolation = 6"
| "error_byte InvalidOrderCombination = 7" | "error_byte NotImplemented = 8"
| "error_byte UnsupportedTimeInForce = 9" | "error_byte Unauthorized = 10"

definition byte_side :: "u8 \<Rightarrow> Side option" where
  "byte_side x = find (\<lambda>e. side_byte e = x) [Buy, Sell]"

definition byte_order_type :: "u8 \<Rightarrow> OrderType option" where
  "byte_order_type x = find (\<lambda>e. order_type_byte e = x)
     [Limit, Market, Complex, Stop, StopLimit, MarketIfTouched, LimitIfTouched, Pegged]"

definition byte_tif :: "u8 \<Rightarrow> TimeInForce option" where
  "byte_tif x = find (\<lambda>e. tif_byte e = x) [GTC, Day, IOC, FOK, GTD, ATO, ATC]"

definition byte_match_type :: "u8 \<Rightarrow> MatchType option" where
  "byte_match_type x = find (\<lambda>e. match_type_byte e = x) [Standard, Midpoint, HiddenLiquidity, Auction]"

definition byte_command_type :: "u8 \<Rightarrow> CommandType option" where
  "byte_command_type x = find (\<lambda>e. command_type_byte e = x) [Cmd_None, Cmd_Add, Cmd_Modify, Cmd_Cancel]"

definition byte_event_type :: "u8 \<Rightarrow> EventType option" where
  "byte_event_type x = find (\<lambda>e. event_type_byte e = x)
     [Ev_None, Ev_OrderAccepted, Ev_OrderRejected, Ev_ModifyAccepted, Ev_ModifyRejected,
      Ev_CancelAccepted, Ev_CancelRejected, Ev_Trade]"

definition byte_error :: "u8 \<Rightarrow> ErrorCode option" where
  "byte_error x = find (\<lambda>e. error_byte e = x)
     [Err_None, Success, InvalidRequest, InvalidModify, InvalidCancel, InsufficientLiquidity,
      PostOnlyViolation, InvalidOrderCombination, NotImplemented, UnsupportedTimeInForce, Unauthorized]"

lemma enum_roundtrip [codec_simps]:
  "byte_side (side_byte s) = Some s"
  "byte_order_type (order_type_byte ot) = Some ot"
  "byte_tif (tif_byte tif) = Some tif"
  "byte_match_type (match_type_byte mt) = Some mt"
  "byte_command_type (command_type_byte ct) = Some ct"
  "byte_event_type (event_type_byte et) = Some et"
  "byte_error (error_byte ec) = Some ec"
  by (cases s, simp_all add: byte_side_def) (cases ot, simp_all add: byte_order_type_def,
      cases tif, simp_all add: byte_tif_def, cases mt, simp_all add: byte_match_type_def,
      cases ct, simp_all add: byte_command_type_def, cases et, simp_all add: byte_event_type_def,
      cases ec, simp_all add: byte_error_def)

lemmas enum_byte_simps =
  side_byte.simps order_type_byte.simps tif_byte.simps match_type_byte.simps command_type_byte.simps
  event_type_byte.simps error_byte.simps

subsection \<open>Records read back in sequence\<close>

function decode_all :: "nat \<Rightarrow> (u8 list \<Rightarrow> 'a option) \<Rightarrow> u8 list \<Rightarrow> 'a list option" where
  "decode_all sz dec bs =
     (if bs = [] then Some []
      else if sz = 0 \<or> length bs < sz then None
      else do { x \<leftarrow> dec (take sz bs); xs \<leftarrow> decode_all sz dec (drop sz bs); Some (x # xs) })"
  by auto
termination by (relation "measure (\<lambda>(_, _, bs). length bs)") auto

declare decode_all.simps [simp del]

locale fixed_size_codec =
  fixes sz :: nat and enc :: "'a \<Rightarrow> u8 list" and dec :: "u8 list \<Rightarrow> 'b option"
    and seen :: "'a \<Rightarrow> 'b" and valid :: "'a \<Rightarrow> bool"
  assumes sz_pos: "0 < sz"
    and length_enc: "valid x \<Longrightarrow> length (enc x) = sz"
    and dec_enc: "valid x \<Longrightarrow> dec (enc x) = Some (seen x)"
begin

lemma decode_all_enc:
  "\<forall>x\<in>set xs. valid x \<Longrightarrow> decode_all sz dec (concat (map enc xs)) = Some (map seen xs)"
proof (induction xs)
  case (Cons x xs)
  have "decode_all sz dec (enc x @ bs) =
      do { y \<leftarrow> dec (enc x); ys \<leftarrow> decode_all sz dec bs; Some (y # ys) }" for bs
    using Cons.prems length_enc [of x] sz_pos by (subst decode_all.simps) auto
  with Cons dec_enc [of x] show ?case by simp
qed (simp add: decode_all.simps)

lemma length_concat_enc: "\<forall>x\<in>set xs. valid x \<Longrightarrow> length (concat (map enc xs)) = sz * length xs"
  by (induction xs) (simp_all add: length_enc)

end

subsection \<open>Command payloads\<close>

definition union_bytes :: "u8 list \<Rightarrow> u8 list \<Rightarrow> u8 list" where
  "union_bytes mem member = member @ drop (length member) mem"

fun command_member_bytes :: "bool \<Rightarrow> CommandUnion \<Rightarrow> u8 list" where
  "command_member_bytes be (U_Add c) =
     word_bytes be 8 (add_clientID c) @ word_bytes be 8 (add_price c) @
     word_bytes be 8 (add_quantity c) @ word_bytes be 2 (add_flags c) @
     [side_byte (add_side c), order_type_byte (add_order_type c), tif_byte (add_tif c),
      match_type_byte (add_match_type c), 0, 0]"
| "command_member_bytes be (U_Modify c) =
     word_bytes be 8 (mod_clientID c) @ word_bytes be 8 (mod_orderID c) @
     word_bytes be 8 (mod_new_price c) @ word_bytes be 8 (mod_new_quantity c)"
| "command_member_bytes be (U_Cancel c) =
     word_bytes be 8 (can_clientID c) @ word_bytes be 8 (can_orderID c)"

definition Command_Serialize :: "bool \<Rightarrow> u8 list \<Rightarrow> CommandPayload \<Rightarrow> u8 list" where
  "Command_Serialize be mem cmd =
     union_bytes mem (command_member_bytes be (m_CommandData cmd)) @
     [command_type_byte (m_CommandType cmd)] @ replicate 7 0"

definition Command_Deserialize :: "bool \<Rightarrow> u8 list \<Rightarrow> CommandPayload option" where
  "Command_Deserialize be src =
     (if length src < 40 then None
      else do {
        tag \<leftarrow> byte_command_type (src ! 32);
        data \<leftarrow>
          (case tag of
             Cmd_Modify \<Rightarrow> Some (U_Modify
               \<lparr>mod_clientID = read_word be 0 8 src, mod_orderID = read_word be 8 8 src,
                mod_new_price = read_word be 16 8 src, mod_new_quantity = read_word be 24 8 src\<rparr>)
           | Cmd_Cancel \<Rightarrow> Some (U_Cancel
               \<lparr>can_clientID = read_word be 0 8 src, can_orderID = read_word be 8 8 src\<rparr>)
           | _ \<Rightarrow> do {
               side \<leftarrow> byte_side (src ! 26);
               order_type \<leftarrow> byte_order_type (src ! 27);
               tif \<leftarrow> byte_tif (src ! 28);
               match_type \<leftarrow> byte_match_type (src ! 29);
               Some (U_Add \<lparr>add_clientID = read_word be 0 8 src, add_price = read_word be 8 8 src,
                 add_quantity = read_word be 16 8 src, add_flags = read_word be 24 2 src,
                 add_side = side, add_order_type = order_type, add_tif = tif,
                 add_match_type = match_type\<rparr>) });
        Some \<lparr>m_CommandType = tag, m_CommandData = data\<rparr> })"

lemma length_command_member_bytes [simp]:
  "length (command_member_bytes be u) = (case u of U_Cancel _ \<Rightarrow> 16 | _ \<Rightarrow> 32)"
  by (cases u) simp_all

lemma length_Command_Serialize:
  "length mem = 32 \<Longrightarrow> length (Command_Serialize be mem cmd) = 40"
  by (simp add: Command_Serialize_def union_bytes_def split: CommandUnion.split)

lemma read_word_append [codec_simps]:
  "8 * n = LENGTH('a) \<Longrightarrow> read_word be 0 n (word_bytes be n w @ rest) = (w :: 'a::len word)"
  by (rule read_word_word_bytes) simp_all

lemma read_word_skip [codec_simps]:
  "length pre \<le> off \<Longrightarrow> read_word be off n (pre @ rest) = read_word be (off - length pre) n rest"
  by (simp add: read_word_def)

lemmas Command_bytes = Command_Deserialize_def Command_Serialize_def union_bytes_def

lemma Command_roundtrip:
  assumes "length mem = 32" and "command_ok cmd"
  shows "Command_Deserialize be (Command_Serialize be mem cmd) = Some cmd"
  using assms(2)
proof (cases rule: command_ok_cases)
  case none
  then have m: "m_CommandType cmd = Cmd_None" "m_CommandData cmd = U_Add zero_AddCmd"
    by (simp_all add: command_defs)
  show ?thesis
    using assms(1) by (cases cmd) (use m in \<open>simp add: Command_bytes nth_append codec_simps del: enum_byte_simps\<close>)
next
  case (add cid p q s ot tif mt f)
  with assms(1) show ?thesis
    by (simp add: Command_bytes command_defs nth_append codec_simps del: enum_byte_simps)
next
  case (modify cid oid p q)
  with assms(1) show ?thesis
    by (simp add: Command_bytes command_defs nth_append codec_simps del: enum_byte_simps)
next
  case (cancel cid oid)
  with assms(1) show ?thesis
    by (simp add: Command_bytes command_defs nth_append codec_simps del: enum_byte_simps)
qed


subsection \<open>Trades\<close>

definition Trade_bytes :: "bool \<Rightarrow> u8 list \<Rightarrow> Trade \<Rightarrow> u8 list" where
  "Trade_bytes be mem t =
     word_bytes be 8 (t_TradeID t) @ word_bytes be 8 (t_MakerOrderID t) @
     word_bytes be 8 (t_TakerOrderID t) @ word_bytes be 8 (t_Price t) @
     word_bytes be 8 (t_Quantity t) @
     (case t_Timestamp t of Some time \<Rightarrow> word_bytes be 8 time | None \<Rightarrow> take 8 (drop 40 mem)) @
     [side_byte (t_TakerSide t), match_type_byte (t_MatchType t)] @ replicate 6 0"

definition Trade_of_bytes :: "bool \<Rightarrow> u8 list \<Rightarrow> Trade option" where
  "Trade_of_bytes be src =
     (if length src < 56 then None
      else do {
        side \<leftarrow> byte_side (src ! 48);
        match_type \<leftarrow> byte_match_type (src ! 49);
        Some \<lparr>t_TradeID = read_word be 0 8 src, t_MakerOrderID = read_word be 8 8 src,
              t_TakerOrderID = read_word be 16 8 src, t_Price = read_word be 24 8 src,
              t_Quantity = read_word be 32 8 src, t_Timestamp = Some (read_word be 40 8 src),
              t_TakerSide = side, t_MatchType = match_type\<rparr> })"

text \<open>A member that was never written reads back as whatever the memory held.\<close>

definition trade_seen :: "bool \<Rightarrow> u8 list \<Rightarrow> Trade \<Rightarrow> Trade" where
  "trade_seen be mem t = t\<lparr>t_Timestamp :=
     Some (case t_Timestamp t of Some time \<Rightarrow> time | None \<Rightarrow> read_word be 40 8 mem)\<rparr>"

lemma length_Trade_bytes [simp]: "length mem = 56 \<Longrightarrow> length (Trade_bytes be mem t) = 56"
  by (simp add: Trade_bytes_def split: option.split)

lemma read_word_take [codec_simps]:
  "n \<le> k \<Longrightarrow> read_word be 0 n (take k xs @ rest) = read_word be 0 n (take k xs)" if "k \<le> length xs"
  using that by (simp add: read_word_def)

lemma Trade_roundtrip:
  assumes "length mem = 56"
  shows "Trade_of_bytes be (Trade_bytes be mem t) = Some (trade_seen be mem t)"
proof (cases "t_Timestamp t")
  case None
  have "read_word be 0 8 (take 8 (drop 40 mem)) = (read_word be 40 8 mem :: u64)"
    by (simp add: read_word_def)
  with assms None show ?thesis
    by (cases t) (simp add: Trade_of_bytes_def Trade_bytes_def trade_seen_def nth_append codec_simps
        del: enum_byte_simps)
next
  case (Some time)
  with assms show ?thesis
    by (cases t) (simp add: Trade_of_bytes_def Trade_bytes_def trade_seen_def nth_append codec_simps
        del: enum_byte_simps)
qed

subsection \<open>Event payloads\<close>

fun event_member_bytes :: "bool \<Rightarrow> u8 list \<Rightarrow> EventUnion \<Rightarrow> u8 list" where
  "event_member_bytes be mem (U_OrderAccepted cid oid) = word_bytes be 8 cid @ word_bytes be 8 oid"
| "event_member_bytes be mem (U_OrderRejected cid ec) =
     word_bytes be 8 cid @ [error_byte ec] @ replicate 7 0"
| "event_member_bytes be mem (U_ModifyAccepted cid old new) =
     word_bytes be 8 cid @ word_bytes be 8 old @ word_bytes be 8 new"
| "event_member_bytes be mem (U_ModifyRejected cid oid ec) =
     word_bytes be 8 cid @ word_bytes be 8 oid @ [error_byte ec] @ replicate 7 0"
| "event_member_bytes be mem (U_CancelAccepted cid oid) = word_bytes be 8 cid @ word_bytes be 8 oid"
| "event_member_bytes be mem (U_CancelRejected cid oid ec) =
     word_bytes be 8 cid @ word_bytes be 8 oid @ [error_byte ec] @ replicate 7 0"
| "event_member_bytes be mem (U_Trade t) = Trade_bytes be mem t"

definition Event_Serialize :: "bool \<Rightarrow> u8 list \<Rightarrow> EventPayload \<Rightarrow> u8 list" where
  "Event_Serialize be mem ev =
     union_bytes mem (event_member_bytes be mem (m_EventData ev)) @
     [event_type_byte (m_EventType ev)] @ replicate 7 0"

definition Event_Deserialize :: "bool \<Rightarrow> u8 list \<Rightarrow> EventPayload option" where
  "Event_Deserialize be src =
     (if length src < 64 then None
      else do {
        tag \<leftarrow> byte_event_type (src ! 56);
        data \<leftarrow>
          (case tag of
             Ev_OrderRejected \<Rightarrow> do {
               ec \<leftarrow> byte_error (src ! 8); Some (U_OrderRejected (read_word be 0 8 src) ec) }
           | Ev_ModifyAccepted \<Rightarrow>
               Some (U_ModifyAccepted (read_word be 0 8 src) (read_word be 8 8 src) (read_word be 16 8 src))
           | Ev_ModifyRejected \<Rightarrow> do {
               ec \<leftarrow> byte_error (src ! 16);
               Some (U_ModifyRejected (read_word be 0 8 src) (read_word be 8 8 src) ec) }
           | Ev_CancelAccepted \<Rightarrow> Some (U_CancelAccepted (read_word be 0 8 src) (read_word be 8 8 src))
           | Ev_CancelRejected \<Rightarrow> do {
               ec \<leftarrow> byte_error (src ! 16);
               Some (U_CancelRejected (read_word be 0 8 src) (read_word be 8 8 src) ec) }
           | Ev_Trade \<Rightarrow> map_option U_Trade (Trade_of_bytes be (take 56 src))
           | _ \<Rightarrow> Some (U_OrderAccepted (read_word be 0 8 src) (read_word be 8 8 src)));
        Some \<lparr>m_EventType = tag, m_EventData = data\<rparr> })"

definition event_seen :: "bool \<Rightarrow> u8 list \<Rightarrow> EventPayload \<Rightarrow> EventPayload" where
  "event_seen be mem ev =
     (case m_EventData ev of U_Trade t \<Rightarrow> ev\<lparr>m_EventData := U_Trade (trade_seen be mem t)\<rparr> | _ \<Rightarrow> ev)"

lemma length_event_member_bytes:
  "length mem = 56 \<Longrightarrow> length (event_member_bytes be mem u) \<le> 56"
  by (cases u) simp_all

lemma length_Event_Serialize: "length mem = 56 \<Longrightarrow> length (Event_Serialize be mem ev) = 64"
  using length_event_member_bytes [of mem be "m_EventData ev"]
  by (simp add: Event_Serialize_def union_bytes_def)

lemmas Event_bytes = Event_Deserialize_def Event_Serialize_def union_bytes_def

lemma Event_roundtrip:
  assumes "length mem = 56" and "event_ok ev"
  shows "Event_Deserialize be (Event_Serialize be mem ev) = Some (event_seen be mem ev)"
proof -
  obtain tag data where ev: "ev = \<lparr>m_EventType = tag, m_EventData = data\<rparr>" by (cases ev) auto
  show ?thesis
  proof (cases "tag = event_tag data")
    case True
    then show ?thesis
      using assms(1) Trade_roundtrip [OF assms(1)]
      by (cases data) (simp_all add: ev Event_bytes event_seen_def nth_append codec_simps del: enum_byte_simps)
  next
    case False
    with assms(2) have "tag = Ev_None" "data = U_OrderAccepted 0 0"
      by (auto simp: ev event_ok_def EventPayload_default_def)
    with assms(1) show ?thesis
      by (simp add: ev Event_bytes event_seen_def nth_append codec_simps del: enum_byte_simps)
  qed
qed

subsection \<open>The three record types as codecs\<close>

text \<open>Each record is paired with the memory its object was built in.\<close>

interpretation command_codec: fixed_size_codec 40 "\<lambda>(mem, cmd). Command_Serialize be mem cmd"
    "Command_Deserialize be" snd "\<lambda>(mem, cmd). length mem = 32 \<and> command_ok cmd" for be
  by unfold_locales (auto simp: length_Command_Serialize Command_roundtrip)

interpretation event_codec: fixed_size_codec 64 "\<lambda>(mem, ev). Event_Serialize be mem ev"
    "Event_Deserialize be" "\<lambda>(mem, ev). event_seen be mem ev" "\<lambda>(mem, ev). length mem = 56 \<and> event_ok ev" for be
  by unfold_locales (auto simp: length_Event_Serialize Event_roundtrip)

interpretation trade_codec: fixed_size_codec 56 "\<lambda>(mem, t). Trade_bytes be mem t"
    "Trade_of_bytes be" "\<lambda>(mem, t). trade_seen be mem t" "\<lambda>(mem, t). length mem = 56" for be
  by unfold_locales (auto simp: Trade_roundtrip)

subsection \<open>Properties\<close>

text \<open>C22: serialising a command and reading it back gives the command, for every command a
  factory or the default constructor builds, whatever the machine's byte order and whatever the
  bytes of the union outside its active member; the record takes 40 bytes.\<close>

theorem command_roundtrip:
  assumes "command_ok cmd" and "length mem = 32"
  shows "length (Command_Serialize be mem cmd) = 40 \<and>
    Command_Deserialize be (Command_Serialize be mem cmd) = Some cmd"
  using assms by (simp add: length_Command_Serialize Command_roundtrip)

theorem command_roundtrip_witness:
  "length (Command_Serialize False (replicate 32 255) (MakeCancel 7 258)) = 40 \<and>
   Command_Deserialize False (Command_Serialize False (replicate 32 255) (MakeCancel 7 258)) =
     Some (MakeCancel 7 258)"
  by (rule command_roundtrip) simp_all

text \<open>C23: serialising an event and reading it back gives the event, except that the time stamp
  of a trade, which no constructor writes, reads back as whatever the memory held; the record
  takes 64 bytes.\<close>

theorem event_roundtrip:
  assumes "event_ok ev" and "length mem = 56"
  shows "length (Event_Serialize be mem ev) = 64 \<and>
    Event_Deserialize be (Event_Serialize be mem ev) =
      Some (case m_EventData ev of
              U_Trade t \<Rightarrow> MakeTrade (t\<lparr>t_Timestamp := Some (case t_Timestamp t of
                 Some time \<Rightarrow> time | None \<Rightarrow> read_word be 40 8 mem)\<rparr>)
            | _ \<Rightarrow> ev)"
proof -
  have "event_seen be mem ev = (case m_EventData ev of
              U_Trade t \<Rightarrow> MakeTrade (t\<lparr>t_Timestamp := Some (case t_Timestamp t of
                 Some time \<Rightarrow> time | None \<Rightarrow> read_word be 40 8 mem)\<rparr>)
            | _ \<Rightarrow> ev)"
    using assms(1) by (cases ev) (auto simp: event_seen_def trade_seen_def event_ok_def MakeTrade_def
        EventPayload_default_def split: EventUnion.splits)
  with assms show ?thesis by (simp add: length_Event_Serialize Event_roundtrip)
qed

theorem event_roundtrip_witness:
  "length (Event_Serialize True (replicate 56 1) (MakeTrade (mk_Trade 1 2 3 100 5 Sell Standard))) = 64 \<and>
   Event_Deserialize True (Event_Serialize True (replicate 56 1) (MakeTrade (mk_Trade 1 2 3 100 5 Sell Standard))) =
     Some (MakeTrade ((mk_Trade 1 2 3 100 5 Sell Standard)\<lparr>t_Timestamp := Some 0x0101010101010101\<rparr>))"
proof -
  have "read_word True 40 8 (replicate 56 1) = (0x0101010101010101 :: i64)" by code_simp
  moreover have "event_ok (MakeTrade (mk_Trade 1 2 3 100 5 Sell Standard))" by simp
  moreover have "m_EventData (MakeTrade t) = U_Trade t" for t by (simp add: MakeTrade_def)
  ultimately show ?thesis
    using event_roundtrip [of "MakeTrade (mk_Trade 1 2 3 100 5 Sell Standard)" "replicate 56 1" True]
    by (simp add: mk_Trade_def)
qed

end
