(* ===== verification/Struct_Layout.thy ===== *)
theory Struct_Layout
  imports Byte_Codec
begin

text \<open>
  Where the members of the payload classes lie in memory. \<open>ctype\<close> describes an object type,
  \<open>size_of\<close>, \<open>align_of\<close> and \<open>offsets\<close> lay it out as the ABI of the 64-bit platforms does (each member
  at the next multiple of its alignment, the end rounded up to the alignment of the whole, integers
  aligned to their size). The classes are transcribed member by member; the theorems say that the
  sizes the code asserts hold, that no byte is implicit padding, and that the encodings of
  commands and events put every member at its offset.
\<close>

subsection \<open>Object types\<close>

datatype ctype =
    C_int nat
  | C_array ctype nat
  | C_struct nat "(string \<times> ctype) list"
  | C_union nat "(string \<times> ctype) list"

definition round_up :: "nat \<Rightarrow> nat \<Rightarrow> nat" where
  "round_up a n = (n + (a - 1)) div a * a"

text \<open>Members are placed one after the other; a member is a pair of its size and its alignment.\<close>

fun place :: "nat \<Rightarrow> (nat \<times> nat) list \<Rightarrow> nat list \<times> nat" where
  "place pos [] = ([], pos)"
| "place pos ((sz, al) # ms) =
     (let start = round_up al pos; (offs, fin) = place (start + sz) ms in (start # offs, fin))"

fun align_of :: "ctype \<Rightarrow> nat" where
  "align_of (C_int n) = n"
| "align_of (C_array t n) = align_of t"
| "align_of (C_struct a ms) = fold max (map (\<lambda>m. align_of (snd m)) ms) a"
| "align_of (C_union a ms) = fold max (map (\<lambda>m. align_of (snd m)) ms) a"

fun size_of :: "ctype \<Rightarrow> nat" where
  "size_of (C_int n) = n"
| "size_of (C_array t n) = n * size_of t"
| "size_of (C_struct a ms) = round_up (align_of (C_struct a ms))
     (snd (place 0 (map (\<lambda>m. (size_of (snd m), align_of (snd m))) ms)))"
| "size_of (C_union a ms) = round_up (align_of (C_union a ms)) (fold max (map (\<lambda>m. size_of (snd m)) ms) 0)"

fun members :: "ctype \<Rightarrow> (string \<times> ctype) list" where
  "members (C_struct a ms) = ms"
| "members (C_union a ms) = ms"
| "members _ = []"

fun offsets :: "ctype \<Rightarrow> nat list" where
  "offsets (C_struct a ms) = fst (place 0 (map (\<lambda>m. (size_of (snd m), align_of (snd m))) ms))"
| "offsets (C_union a ms) = replicate (length ms) 0"
| "offsets _ = []"

definition offset_of :: "ctype \<Rightarrow> string \<Rightarrow> nat option" where
  "offset_of t name = map_of (zip (map fst (members t)) (offsets t)) name"

text \<open>The bytes of a member in the bytes of the object.\<close>

definition member_bytes :: "ctype \<Rightarrow> string \<Rightarrow> u8 list \<Rightarrow> u8 list option" where
  "member_bytes t name bs = do {
     start \<leftarrow> offset_of t name;
     u \<leftarrow> map_of (members t) name;
     Some (take (size_of u) (drop start bs)) }"

text \<open>No byte of the object lies outside its members.\<close>

fun padding_free :: "ctype \<Rightarrow> bool" where
  "padding_free (C_struct a ms) \<longleftrightarrow> size_of (C_struct a ms) = (\<Sum>m\<leftarrow>ms. size_of (snd m))"
| "padding_free _ \<longleftrightarrow> True"

subsection \<open>The layout rule\<close>

lemma round_up_props:
  assumes "0 < a"
  shows "a dvd round_up a n" and "n \<le> round_up a n" and "round_up a n < n + a"
proof -
  show "a dvd round_up a n" by (simp add: round_up_def)
  have m: "(n + (a - 1)) mod a + round_up a n = n + (a - 1)"
    unfolding round_up_def by (simp add: mod_div_mult_eq)
  moreover have "(n + (a - 1)) mod a < a" using assms by simp
  ultimately show "n \<le> round_up a n" using assms by linarith
  show "round_up a n < n + a" using m assms by linarith
qed

lemma place_props:
  assumes "place pos ms = (offs, fin)" and "\<forall>(sz, al)\<in>set ms. 0 < al"
  shows "length offs = length ms \<and> pos \<le> fin \<and>
    (\<forall>i<length ms. snd (ms ! i) dvd offs ! i \<and> pos \<le> offs ! i \<and> offs ! i + fst (ms ! i) \<le> fin \<and>
       (\<forall>j<i. offs ! j + fst (ms ! j) \<le> offs ! i))"
  using assms
proof (induction pos ms arbitrary: offs fin rule: place.induct)
  case (2 pos sz al ms)
  let ?start = "round_up al pos"
  obtain offs1 where p: "place (?start + sz) ms = (offs1, fin)" and offs: "offs = ?start # offs1"
    using "2.prems"(1) by (auto simp: Let_def split: prod.splits)
  have al: "0 < al" using "2.prems"(2) by simp
  note r = round_up_props [OF al, of pos]
  from "2.IH" [OF refl p] "2.prems"(2)
  have ih: "length offs1 = length ms" "?start + sz \<le> fin"
    "\<And>i. i < length ms \<Longrightarrow> snd (ms ! i) dvd offs1 ! i \<and> ?start + sz \<le> offs1 ! i \<and>
       offs1 ! i + fst (ms ! i) \<le> fin \<and> (\<forall>j<i. offs1 ! j + fst (ms ! j) \<le> offs1 ! i)" by auto
  have "snd (((sz, al) # ms) ! i) dvd offs ! i \<and> pos \<le> offs ! i \<and>
      offs ! i + fst (((sz, al) # ms) ! i) \<le> fin \<and>
      (\<forall>j<i. offs ! j + fst (((sz, al) # ms) ! j) \<le> offs ! i)" if "i < length ((sz, al) # ms)" for i
  proof (cases i)
    case 0
    with r ih(2) show ?thesis by (simp add: offs)
  next
    case (Suc k)
    with that ih(3) [of k] r(2) show ?thesis
      by (auto simp: offs less_Suc_eq_0_disj)
  qed
  with ih(1,2) r(2) show ?case by (simp add: offs)
qed simp

lemma fold_max_ge_nat: "(a :: nat) \<le> fold max xs a \<and> (\<forall>x\<in>set xs. x \<le> fold max xs a)"
proof (induction xs arbitrary: a)
  case (Cons x xs)
  from Cons [of "max x a"] show ?case by auto
qed simp

text \<open>Members of a struct are aligned, in order, disjoint and inside the object, whose size is a
  multiple of its alignment.\<close>

lemma struct_layout:
  assumes "0 < a" and "\<forall>m\<in>set ms. 0 < align_of (snd m)" and t: "t = C_struct a ms"
  shows "align_of t dvd size_of t \<and> length (offsets t) = length ms \<and>
    (\<forall>i<length ms. align_of (snd (ms ! i)) dvd offsets t ! i \<and>
       offsets t ! i + size_of (snd (ms ! i)) \<le> size_of t \<and>
       (\<forall>j<i. offsets t ! j + size_of (snd (ms ! j)) \<le> offsets t ! i))"
proof -
  let ?ms = "map (\<lambda>m. (size_of (snd m), align_of (snd m))) ms"
  obtain offs fin where p: "place 0 ?ms = (offs, fin)" by fastforce
  have al: "0 < align_of t" using assms(1) fold_max_ge_nat [of a "map (\<lambda>m. align_of (snd m)) ms"]
    by (auto simp: t)
  have "fin \<le> size_of t" using round_up_props(2) [OF al, of fin] p by (simp add: t)
  moreover have "align_of t dvd size_of t" using round_up_props(1) [OF al] by (simp add: t)
  moreover have "\<forall>(sz, al)\<in>set ?ms. 0 < al" using assms(2) by auto
  ultimately show ?thesis using place_props [OF p] p by (auto simp: t)
qed

subsection \<open>The classes of the program\<close>

text \<open>Identifiers, prices, quantities and times are 64 bits wide, \<^verbatim>\<open>Flags\<close> and
  \<^verbatim>\<open>ExecutionInstructions\<close> have the underlying type \<^verbatim>\<open>u16\<close>, the other enumerations
  \<^verbatim>\<open>u8\<close>. The anonymous unions have no alignment of their own.\<close>

definition Add_layout :: ctype where
  "Add_layout = C_struct 8
     [(''clientID'', C_int 8), (''price'', C_int 8), (''quantity'', C_int 8),
      (''flags'', C_int 2), (''side'', C_int 1), (''order_type'', C_int 1),
      (''tif'', C_int 1), (''match_type'', C_int 1), (''pad'', C_array (C_int 1) 2)]"

definition Modify_layout :: ctype where
  "Modify_layout = C_struct 8
     [(''clientID'', C_int 8), (''orderID'', C_int 8), (''new_price'', C_int 8),
      (''new_quantity'', C_int 8)]"

definition Cancel_layout :: ctype where
  "Cancel_layout = C_struct 8
     [(''clientID'', C_int 8), (''orderID'', C_int 8)]"

definition CommandPayload_layout :: ctype where
  "CommandPayload_layout = C_struct 8
     [(''m_Data'', C_union 1 [(''add'', Add_layout), (''modify'', Modify_layout), (''cancel'', Cancel_layout)]),
      (''m_CommandType'', C_int 1), (''m_Padding'', C_array (C_int 1) 7)]"

definition OrderAccepted_layout :: ctype where
  "OrderAccepted_layout = C_struct 8
     [(''clientID'', C_int 8), (''orderID'', C_int 8)]"

definition OrderRejected_layout :: ctype where
  "OrderRejected_layout = C_struct 8
     [(''clientID'', C_int 8), (''errorCode'', C_int 1), (''pad'', C_array (C_int 1) 7)]"

definition ModifyAccepted_layout :: ctype where
  "ModifyAccepted_layout = C_struct 8
     [(''clientID'', C_int 8), (''old_orderID'', C_int 8), (''new_orderID'', C_int 8)]"

definition ModifyRejected_layout :: ctype where
  "ModifyRejected_layout = C_struct 8
     [(''clientID'', C_int 8), (''orderID'', C_int 8), (''errorCode'', C_int 1),
      (''pad'', C_array (C_int 1) 7)]"

definition CancelAccepted_layout :: ctype where
  "CancelAccepted_layout = C_struct 8
     [(''clientID'', C_int 8), (''orderID'', C_int 8)]"

definition CancelRejected_layout :: ctype where
  "CancelRejected_layout = C_struct 8
     [(''clientID'', C_int 8), (''orderID'', C_int 8), (''errorCode'', C_int 1),
      (''pad'', C_array (C_int 1) 7)]"

definition Trade_layout :: ctype where
  "Trade_layout = C_struct 8
     [(''m_TradeID'', C_int 8), (''m_MakerOrderID'', C_int 8),
      (''m_TakerOrderID'', C_int 8), (''m_Price'', C_int 8), (''m_Quantity'', C_int 8),
      (''m_Timestamp'', C_int 8), (''m_TakerSide'', C_int 1), (''m_MatchType'', C_int 1),
      (''m_Padding'', C_array (C_int 1) 6)]"

definition EventPayload_layout :: ctype where
  "EventPayload_layout = C_struct 8
     [(''m_Data'', C_union 1
        [(''order_acc'', OrderAccepted_layout), (''order_rej'', OrderRejected_layout),
         (''mod_acc'', ModifyAccepted_layout), (''mod_rej'', ModifyRejected_layout),
         (''cancel_acc'', CancelAccepted_layout), (''cancel_rej'', CancelRejected_layout),
         (''trade'', Trade_layout)]),
      (''m_EventType'', C_int 1), (''m_Padding'', C_array (C_int 1) 7)]"

definition Order_layout :: ctype where
  "Order_layout = C_struct 64
     [(''m_OrderID'', C_int 8), (''m_ClientID'', C_int 8), (''m_Price'', C_int 8),
      (''m_IntialQuantity'', C_int 8), (''m_RemainingQuantity'', C_int 8),
      (''m_Timestamp'', C_int 8), (''m_Flags'', C_int 2), (''m_ExecInst'', C_int 2),
      (''m_Side'', C_int 1), (''m_OrderType'', C_int 1), (''m_TimeInForce'', C_int 1),
      (''m_MatchType'', C_int 1), (''m_Padding'', C_array (C_int 1) 8)]"

definition SnapshotLevel_layout :: ctype where
  "SnapshotLevel_layout = C_struct 1
     [(''price'', C_int 8), (''quantity'', C_int 8)]"

lemmas command_layouts = Add_layout_def Modify_layout_def Cancel_layout_def CommandPayload_layout_def
lemmas event_layouts = OrderAccepted_layout_def OrderRejected_layout_def ModifyAccepted_layout_def
  ModifyRejected_layout_def CancelAccepted_layout_def CancelRejected_layout_def Trade_layout_def
  EventPayload_layout_def

text \<open>The sizes the code asserts at compile time.\<close>

definition size_asserts :: "(ctype \<times> nat) list" where
  "size_asserts =
     [(Add_layout, 32), (Modify_layout, 32), (Cancel_layout, 16), (CommandPayload_layout, 40),
      (OrderAccepted_layout, 16), (OrderRejected_layout, 16), (ModifyAccepted_layout, 24),
      (ModifyRejected_layout, 24), (CancelAccepted_layout, 16), (CancelRejected_layout, 24),
      (Trade_layout, 56), (EventPayload_layout, 64), (Order_layout, 64), (SnapshotLevel_layout, 16)]"

lemma member_bytes_at:
  "map_option (\<lambda>u. (offset_of t n, size_of u)) (map_of (members t) n) = Some (Some start, k) \<Longrightarrow>
   member_bytes t n bs = Some (take k (drop start bs))"
  by (auto simp: member_bytes_def)

lemma command_members:
  "member_bytes CommandPayload_layout ''m_Data'' bs = Some (take 32 (drop 0 bs))"
  "member_bytes CommandPayload_layout ''m_CommandType'' bs = Some (take 1 (drop 32 bs))"
  "member_bytes Add_layout ''clientID'' bs = Some (take 8 (drop 0 bs))"
  "member_bytes Add_layout ''price'' bs = Some (take 8 (drop 8 bs))"
  "member_bytes Add_layout ''quantity'' bs = Some (take 8 (drop 16 bs))"
  "member_bytes Add_layout ''flags'' bs = Some (take 2 (drop 24 bs))"
  "member_bytes Add_layout ''side'' bs = Some (take 1 (drop 26 bs))"
  "member_bytes Add_layout ''order_type'' bs = Some (take 1 (drop 27 bs))"
  "member_bytes Add_layout ''tif'' bs = Some (take 1 (drop 28 bs))"
  "member_bytes Add_layout ''match_type'' bs = Some (take 1 (drop 29 bs))"
  "member_bytes Modify_layout ''clientID'' bs = Some (take 8 (drop 0 bs))"
  "member_bytes Modify_layout ''orderID'' bs = Some (take 8 (drop 8 bs))"
  "member_bytes Modify_layout ''new_price'' bs = Some (take 8 (drop 16 bs))"
  "member_bytes Modify_layout ''new_quantity'' bs = Some (take 8 (drop 24 bs))"
  "member_bytes Cancel_layout ''clientID'' bs = Some (take 8 (drop 0 bs))"
  "member_bytes Cancel_layout ''orderID'' bs = Some (take 8 (drop 8 bs))"
  by (rule member_bytes_at; code_simp)+

lemma event_members:
  "member_bytes EventPayload_layout ''m_Data'' bs = Some (take 56 (drop 0 bs))"
  "member_bytes EventPayload_layout ''m_EventType'' bs = Some (take 1 (drop 56 bs))"
  "member_bytes OrderAccepted_layout ''clientID'' bs = Some (take 8 (drop 0 bs))"
  "member_bytes OrderAccepted_layout ''orderID'' bs = Some (take 8 (drop 8 bs))"
  "member_bytes OrderRejected_layout ''clientID'' bs = Some (take 8 (drop 0 bs))"
  "member_bytes OrderRejected_layout ''errorCode'' bs = Some (take 1 (drop 8 bs))"
  "member_bytes ModifyAccepted_layout ''clientID'' bs = Some (take 8 (drop 0 bs))"
  "member_bytes ModifyAccepted_layout ''old_orderID'' bs = Some (take 8 (drop 8 bs))"
  "member_bytes ModifyAccepted_layout ''new_orderID'' bs = Some (take 8 (drop 16 bs))"
  "member_bytes ModifyRejected_layout ''clientID'' bs = Some (take 8 (drop 0 bs))"
  "member_bytes ModifyRejected_layout ''orderID'' bs = Some (take 8 (drop 8 bs))"
  "member_bytes ModifyRejected_layout ''errorCode'' bs = Some (take 1 (drop 16 bs))"
  "member_bytes CancelAccepted_layout ''clientID'' bs = Some (take 8 (drop 0 bs))"
  "member_bytes CancelAccepted_layout ''orderID'' bs = Some (take 8 (drop 8 bs))"
  "member_bytes CancelRejected_layout ''clientID'' bs = Some (take 8 (drop 0 bs))"
  "member_bytes CancelRejected_layout ''orderID'' bs = Some (take 8 (drop 8 bs))"
  "member_bytes CancelRejected_layout ''errorCode'' bs = Some (take 1 (drop 16 bs))"
  "member_bytes Trade_layout ''m_TradeID'' bs = Some (take 8 (drop 0 bs))"
  "member_bytes Trade_layout ''m_MakerOrderID'' bs = Some (take 8 (drop 8 bs))"
  "member_bytes Trade_layout ''m_TakerOrderID'' bs = Some (take 8 (drop 16 bs))"
  "member_bytes Trade_layout ''m_Price'' bs = Some (take 8 (drop 24 bs))"
  "member_bytes Trade_layout ''m_Quantity'' bs = Some (take 8 (drop 32 bs))"
  "member_bytes Trade_layout ''m_Timestamp'' bs = Some (take 8 (drop 40 bs))"
  "member_bytes Trade_layout ''m_TakerSide'' bs = Some (take 1 (drop 48 bs))"
  "member_bytes Trade_layout ''m_MatchType'' bs = Some (take 1 (drop 49 bs))"
  by (rule member_bytes_at; code_simp)+

subsection \<open>Properties\<close>

text \<open>Every size the code asserts at compile time is right, and the explicit padding is complete:
  no byte of these classes lies outside their members, so the only
  bytes of a copy that no member names are those of a union behind a shorter active member.\<close>

theorem asserted_sizes_hold:
  "list_all (\<lambda>(t, n). size_of t = n \<and> padding_free t) size_asserts"
  by code_simp

text \<open>C24: the bytes a command is serialised to follow the layout of its class: the tag and every
  member of the active union member lie at their offsets, in either byte order.\<close>

theorem command_bytes_follow_layout:
  assumes "length mem = 32" and "bs = Command_Serialize be mem cmd"
  shows "member_bytes CommandPayload_layout ''m_CommandType'' bs = Some [command_type_byte (m_CommandType cmd)] \<and>
    (\<exists>d. member_bytes CommandPayload_layout ''m_Data'' bs = Some d \<and>
      (case m_CommandData cmd of
         U_Add c \<Rightarrow>
           member_bytes Add_layout ''clientID'' d = Some (word_bytes be 8 (add_clientID c)) \<and>
           member_bytes Add_layout ''price'' d = Some (word_bytes be 8 (add_price c)) \<and>
           member_bytes Add_layout ''quantity'' d = Some (word_bytes be 8 (add_quantity c)) \<and>
           member_bytes Add_layout ''flags'' d = Some (word_bytes be 2 (add_flags c)) \<and>
           member_bytes Add_layout ''side'' d = Some [side_byte (add_side c)] \<and>
           member_bytes Add_layout ''order_type'' d = Some [order_type_byte (add_order_type c)] \<and>
           member_bytes Add_layout ''tif'' d = Some [tif_byte (add_tif c)] \<and>
           member_bytes Add_layout ''match_type'' d = Some [match_type_byte (add_match_type c)]
       | U_Modify c \<Rightarrow>
           member_bytes Modify_layout ''clientID'' d = Some (word_bytes be 8 (mod_clientID c)) \<and>
           member_bytes Modify_layout ''orderID'' d = Some (word_bytes be 8 (mod_orderID c)) \<and>
           member_bytes Modify_layout ''new_price'' d = Some (word_bytes be 8 (mod_new_price c)) \<and>
           member_bytes Modify_layout ''new_quantity'' d = Some (word_bytes be 8 (mod_new_quantity c))
       | U_Cancel c \<Rightarrow>
           member_bytes Cancel_layout ''clientID'' d = Some (word_bytes be 8 (can_clientID c)) \<and>
           member_bytes Cancel_layout ''orderID'' d = Some (word_bytes be 8 (can_orderID c))))"
  using assms by (cases "m_CommandData cmd")
    (simp_all add: command_members Command_Serialize_def union_bytes_def)

theorem command_bytes_follow_layout_witness:
  "member_bytes CommandPayload_layout ''m_CommandType''
     (Command_Serialize False (replicate 32 255) (MakeCancel 7 258)) = Some [3]"
  using command_bytes_follow_layout [OF _ refl, of "replicate 32 255" False "MakeCancel 7 258"]
  by (simp add: MakeCancel_def)

text \<open>The same for events: the tag, the members of the active union member, and for a trade the
  members of the nested class, with a time stamp no constructor wrote left as the memory was.\<close>

theorem event_bytes_follow_layout:
  assumes "length mem = 56" and "bs = Event_Serialize be mem ev"
  shows "member_bytes EventPayload_layout ''m_EventType'' bs = Some [event_type_byte (m_EventType ev)] \<and>
    (\<exists>d. member_bytes EventPayload_layout ''m_Data'' bs = Some d \<and>
      (case m_EventData ev of
         U_OrderAccepted cid oid \<Rightarrow>
           member_bytes OrderAccepted_layout ''clientID'' d = Some (word_bytes be 8 cid) \<and>
           member_bytes OrderAccepted_layout ''orderID'' d = Some (word_bytes be 8 oid)
       | U_OrderRejected cid ec \<Rightarrow>
           member_bytes OrderRejected_layout ''clientID'' d = Some (word_bytes be 8 cid) \<and>
           member_bytes OrderRejected_layout ''errorCode'' d = Some [error_byte ec]
       | U_ModifyAccepted cid old new \<Rightarrow>
           member_bytes ModifyAccepted_layout ''clientID'' d = Some (word_bytes be 8 cid) \<and>
           member_bytes ModifyAccepted_layout ''old_orderID'' d = Some (word_bytes be 8 old) \<and>
           member_bytes ModifyAccepted_layout ''new_orderID'' d = Some (word_bytes be 8 new)
       | U_ModifyRejected cid oid ec \<Rightarrow>
           member_bytes ModifyRejected_layout ''clientID'' d = Some (word_bytes be 8 cid) \<and>
           member_bytes ModifyRejected_layout ''orderID'' d = Some (word_bytes be 8 oid) \<and>
           member_bytes ModifyRejected_layout ''errorCode'' d = Some [error_byte ec]
       | U_CancelAccepted cid oid \<Rightarrow>
           member_bytes CancelAccepted_layout ''clientID'' d = Some (word_bytes be 8 cid) \<and>
           member_bytes CancelAccepted_layout ''orderID'' d = Some (word_bytes be 8 oid)
       | U_CancelRejected cid oid ec \<Rightarrow>
           member_bytes CancelRejected_layout ''clientID'' d = Some (word_bytes be 8 cid) \<and>
           member_bytes CancelRejected_layout ''orderID'' d = Some (word_bytes be 8 oid) \<and>
           member_bytes CancelRejected_layout ''errorCode'' d = Some [error_byte ec]
       | U_Trade t \<Rightarrow>
           member_bytes Trade_layout ''m_TradeID'' d = Some (word_bytes be 8 (t_TradeID t)) \<and>
           member_bytes Trade_layout ''m_MakerOrderID'' d = Some (word_bytes be 8 (t_MakerOrderID t)) \<and>
           member_bytes Trade_layout ''m_TakerOrderID'' d = Some (word_bytes be 8 (t_TakerOrderID t)) \<and>
           member_bytes Trade_layout ''m_Price'' d = Some (word_bytes be 8 (t_Price t)) \<and>
           member_bytes Trade_layout ''m_Quantity'' d = Some (word_bytes be 8 (t_Quantity t)) \<and>
           member_bytes Trade_layout ''m_Timestamp'' d = Some (case t_Timestamp t of Some time \<Rightarrow> word_bytes be 8 time | None \<Rightarrow> take 8 (drop 40 mem)) \<and>
           member_bytes Trade_layout ''m_TakerSide'' d = Some [side_byte (t_TakerSide t)] \<and>
           member_bytes Trade_layout ''m_MatchType'' d = Some [match_type_byte (t_MatchType t)]))"
proof -
  have "length (event_member_bytes be mem (m_EventData ev)) \<le> 56" by (rule length_event_member_bytes [OF assms(1)])
  with assms show ?thesis
    by (cases "m_EventData ev")
      (simp_all add: event_members Event_Serialize_def union_bytes_def Trade_bytes_def split: option.split)
qed

end
