(* ===== verification/Queue_Contract.thy ===== *)
theory Queue_Contract
  imports Prelude
begin

text \<open>
  The interface the engine's users of queues rely on, as a locale. The mutex-guarded queue and the
  ring buffer interpret it, each in its own theory.
\<close>

subsection \<open>The contract of a queue\<close>

text \<open>What the users of a queue rely on, whether it is the mutex-guarded queue or the ring
  buffer: \<open>push\<close> answers whether it took the element, \<open>pop\<close> yields the oldest element, and
  \<open>contents\<close> is the sequence between them.\<close>

locale fifo_queue =
  fixes contents :: "'q \<Rightarrow> 'a list" and ok :: "'q \<Rightarrow> bool" and accepts :: "'q \<Rightarrow> bool"
    and push :: "'a \<Rightarrow> 'q \<Rightarrow> bool \<times> 'q" and pop :: "'q \<Rightarrow> 'a option \<times> 'q"
  assumes push_taken: "ok q \<Longrightarrow> accepts q \<Longrightarrow>
      fst (push x q) \<and> ok (snd (push x q)) \<and> contents (snd (push x q)) = contents q @ [x]"
    and push_refused: "ok q \<Longrightarrow> \<not> accepts q \<Longrightarrow>
      \<not> fst (push x q) \<and> ok (snd (push x q)) \<and> contents (snd (push x q)) = contents q"
    and pop_ok: "ok q \<Longrightarrow> ok (snd (pop q))"
    and pop_contents: "ok q \<Longrightarrow> contents q = (case fst (pop q) of None \<Rightarrow> [] | Some x \<Rightarrow> [x]) @ contents (snd (pop q))"
    and pop_empty: "ok q \<Longrightarrow> fst (pop q) = None \<longleftrightarrow> contents q = []"
begin

lemma pop_Cons:
  "ok q \<Longrightarrow> contents q = x # xs \<Longrightarrow> fst (pop q) = Some x \<and> contents (snd (pop q)) = xs"
  using pop_contents [of q] pop_empty [of q] by (auto split: option.splits)

lemma pop_Nil: "ok q \<Longrightarrow> contents q = [] \<Longrightarrow> fst (pop q) = None \<and> contents (snd (pop q)) = []"
  using pop_contents [of q] pop_empty [of q] by (auto split: option.splits)

end

text \<open>Runs of a queue: what goes in, in order, is what comes out followed by what is left. A
  run is a list of operations, \<open>Inl x\<close> for a push of \<open>x\<close> and \<open>Inr ()\<close> for a pop.\<close>

fun queue_run ::
  "('a \<Rightarrow> 'q \<Rightarrow> bool \<times> 'q) \<Rightarrow> ('q \<Rightarrow> 'a option \<times> 'q) \<Rightarrow> ('a + unit) list \<Rightarrow> 'q \<Rightarrow> 'a list \<times> 'a list \<times> 'q"
where
  "queue_run push pop [] q = ([], [], q)"
| "queue_run push pop (Inl x # ops) q =
     (let (taken, q1) = push x q; (ins, outs, q2) = queue_run push pop ops q1
      in (if taken then x # ins else ins, outs, q2))"
| "queue_run push pop (Inr _ # ops) q =
     (let (res, q1) = pop q; (ins, outs, q2) = queue_run push pop ops q1
      in (ins, (case res of None \<Rightarrow> outs | Some x \<Rightarrow> x # outs), q2))"

context fifo_queue
begin

lemma run_fifo:
  "ok q \<Longrightarrow> queue_run push pop ops q = (ins, outs, q') \<Longrightarrow>
   ok q' \<and> contents q @ ins = outs @ contents q'"
proof (induction ops arbitrary: q ins outs q')
  case (Cons op ops)
  show ?case
  proof (cases op)
    case (Inl x)
    obtain taken q1 where p: "push x q = (taken, q1)" by force
    obtain ins1 outs1 q2 where r: "queue_run push pop ops q1 = (ins1, outs1, q2)" by (metis prod_cases3)
    from push_taken [OF Cons.prems(1), of x] push_refused [OF Cons.prems(1), of x] p
    have "ok q1" "contents q1 = contents q @ (if taken then [x] else [])" by (auto split: if_splits)
    with Cons.IH [OF _ r] Cons.prems(2) Inl p r show ?thesis by (auto split: if_splits)
  next
    case (Inr u)
    obtain res q1 where p: "pop q = (res, q1)" by force
    obtain ins1 outs1 q2 where r: "queue_run push pop ops q1 = (ins1, outs1, q2)" by (metis prod_cases3)
    have "ok q1" "contents q = (case res of None \<Rightarrow> [] | Some x \<Rightarrow> [x]) @ contents q1"
      using pop_ok [OF Cons.prems(1)] pop_contents [OF Cons.prems(1)] p by simp_all
    with Cons.IH [OF _ r] Cons.prems(2) Inr p r show ?thesis by (auto split: option.splits)
  qed
qed simp

end

end
