(* ===== verification/Thread_Safe_Queue.thy ===== *)
theory Thread_Safe_Queue
  imports Queue_Contract
begin

text \<open>
  \<^verbatim>\<open>src/src/Data-Structures/ThreadSafeQueue.hpp\<close>: the unbounded queue under a mutex,
  its closing, and its condition variable as a step relation over the threads blocked in
  \<^verbatim>\<open>wait_and_pop\<close>.
\<close>

subsection \<open>The mutex-guarded queue\<close>

text \<open>Every member function locks the mutex for its whole body, so each is one atomic step.
  \<open>try_pop\<close> returns the value it would write through its reference, or \<open>None\<close> for
  \<^verbatim>\<open>false\<close>; the outer option of \<open>wait_and_pop\<close> is \<open>None\<close> while the caller stays blocked.\<close>

record 'a ThreadSafeQueue =
  m_Queue :: "'a list"
  m_Closed :: bool

definition TSQ_init :: "'a ThreadSafeQueue" where
  "TSQ_init = \<lparr>m_Queue = [], m_Closed = False\<rparr>"

definition close :: "'a ThreadSafeQueue \<Rightarrow> 'a ThreadSafeQueue" where
  "close q = q\<lparr>m_Closed := True\<rparr>"

definition is_closed :: "'a ThreadSafeQueue \<Rightarrow> bool" where
  "is_closed q = m_Closed q"

definition push :: "'a \<Rightarrow> 'a ThreadSafeQueue \<Rightarrow> bool \<times> 'a ThreadSafeQueue" where
  "push value q = (if m_Closed q then (False, q) else (True, q\<lparr>m_Queue := m_Queue q @ [value]\<rparr>))"

definition try_pop :: "'a ThreadSafeQueue \<Rightarrow> 'a option \<times> 'a ThreadSafeQueue" where
  "try_pop q = (case m_Queue q of [] \<Rightarrow> (None, q) | x # xs \<Rightarrow> (Some x, q\<lparr>m_Queue := xs\<rparr>))"

definition wait_ready :: "'a ThreadSafeQueue \<Rightarrow> bool" where
  "wait_ready q \<longleftrightarrow> m_Closed q \<or> m_Queue q \<noteq> []"

definition wait_and_pop :: "'a ThreadSafeQueue \<Rightarrow> ('a option \<times> 'a ThreadSafeQueue) option" where
  "wait_and_pop q =
     (if wait_ready q
      then Some (case m_Queue q of [] \<Rightarrow> (None, q) | x # xs \<Rightarrow> (Some x, q\<lparr>m_Queue := xs\<rparr>))
      else None)"

definition queue_empty :: "'a ThreadSafeQueue \<Rightarrow> bool" where
  "queue_empty q \<longleftrightarrow> m_Queue q = []"

definition queue_size :: "'a ThreadSafeQueue \<Rightarrow> nat" where
  "queue_size q = length (m_Queue q)"

interpretation tsq: fifo_queue m_Queue "\<lambda>_. True" "\<lambda>q. \<not> m_Closed q" push try_pop
  by unfold_locales (auto simp: push_def try_pop_def split: list.splits)

lemma push_open [simp]: "\<not> m_Closed q \<Longrightarrow> push x q = (True, q\<lparr>m_Queue := m_Queue q @ [x]\<rparr>)"
  by (simp add: push_def)

lemma try_pop_simps [simp]:
  "m_Queue q = [] \<Longrightarrow> try_pop q = (None, q)"
  "m_Queue q = x # xs \<Longrightarrow> try_pop q = (Some x, q\<lparr>m_Queue := xs\<rparr>)"
  by (simp_all add: try_pop_def)

lemma m_Closed_push [simp]: "m_Closed (snd (push x q)) = m_Closed q"
  by (simp add: push_def)

lemma m_Closed_try_pop [simp]: "m_Closed (snd (try_pop q)) = m_Closed q"
  by (simp add: try_pop_def split: list.splits)

subsection \<open>The condition variable\<close>

text \<open>Threads blocked in \<^verbatim>\<open>wait_and_pop\<close>. A push or a close finishes its critical section
  before it notifies, so the notification is a step of its own: \<open>cv_pending\<close> counts the
  \<^verbatim>\<open>notify_one\<close> calls that are still to come, \<open>cv_pending_all\<close> says that a
  \<^verbatim>\<open>notify_all\<close> is. A notified thread is in \<open>cv_woken\<close> until it has the mutex again and
  re-checks the predicate; wake-ups may be spurious.\<close>

record 'a CVQueue =
  cv_queue :: "'a ThreadSafeQueue"
  cv_waiting :: "nat set"
  cv_woken :: "nat set"
  cv_pending :: nat
  cv_pending_all :: bool

definition cv_init :: "'a CVQueue" where
  "cv_init = \<lparr>cv_queue = TSQ_init, cv_waiting = {}, cv_woken = {}, cv_pending = 0, cv_pending_all = False\<rparr>"

inductive cv_step :: "'a CVQueue \<Rightarrow> 'a CVQueue \<Rightarrow> bool" where
  cv_push: "push x (cv_queue c) = (True, q) \<Longrightarrow>
    cv_step c (c\<lparr>cv_queue := q, cv_pending := cv_pending c + 1\<rparr>)"
| cv_push_closed: "push x (cv_queue c) = (False, q) \<Longrightarrow> cv_step c (c\<lparr>cv_queue := q\<rparr>)"
| cv_close: "cv_step c (c\<lparr>cv_queue := close (cv_queue c), cv_pending_all := True\<rparr>)"
| cv_notify_one: "0 < cv_pending c \<Longrightarrow> t \<in> cv_waiting c \<Longrightarrow>
    cv_step c (c\<lparr>cv_pending := cv_pending c - 1, cv_waiting := cv_waiting c - {t},
                 cv_woken := insert t (cv_woken c)\<rparr>)"
| cv_notify_nobody: "0 < cv_pending c \<Longrightarrow> cv_waiting c = {} \<Longrightarrow>
    cv_step c (c\<lparr>cv_pending := cv_pending c - 1\<rparr>)"
| cv_notify_all: "cv_pending_all c \<Longrightarrow>
    cv_step c (c\<lparr>cv_pending_all := False, cv_waiting := {}, cv_woken := cv_woken c \<union> cv_waiting c\<rparr>)"
| cv_spurious: "t \<in> cv_waiting c \<Longrightarrow>
    cv_step c (c\<lparr>cv_waiting := cv_waiting c - {t}, cv_woken := insert t (cv_woken c)\<rparr>)"
| cv_try_pop: "try_pop (cv_queue c) = (r, q) \<Longrightarrow> cv_step c (c\<lparr>cv_queue := q\<rparr>)"
| cv_enter_ready: "wait_and_pop (cv_queue c) = Some (r, q) \<Longrightarrow> cv_step c (c\<lparr>cv_queue := q\<rparr>)"
| cv_enter_block: "wait_and_pop (cv_queue c) = None \<Longrightarrow> t \<notin> cv_waiting c \<union> cv_woken c \<Longrightarrow>
    cv_step c (c\<lparr>cv_waiting := insert t (cv_waiting c)\<rparr>)"
| cv_resume: "t \<in> cv_woken c \<Longrightarrow> wait_and_pop (cv_queue c) = Some (r, q) \<Longrightarrow>
    cv_step c (c\<lparr>cv_queue := q, cv_woken := cv_woken c - {t}\<rparr>)"
| cv_block_again: "t \<in> cv_woken c \<Longrightarrow> wait_and_pop (cv_queue c) = None \<Longrightarrow>
    cv_step c (c\<lparr>cv_woken := cv_woken c - {t}, cv_waiting := insert t (cv_waiting c)\<rparr>)"

inductive cv_reachable :: "'a CVQueue \<Rightarrow> bool" where
  cv_start: "cv_reachable cv_init"
| cv_next: "cv_reachable c \<Longrightarrow> cv_step c c' \<Longrightarrow> cv_reachable c'"

text \<open>No wake-up is lost: elements that blocked threads could take are covered by notifications
  under way or by threads already woken, and after a close nobody stays blocked.\<close>

definition cv_inv :: "'a CVQueue \<Rightarrow> bool" where
  "cv_inv c \<longleftrightarrow> finite (cv_waiting c) \<and> finite (cv_woken c) \<and> cv_waiting c \<inter> cv_woken c = {} \<and>
     (cv_waiting c \<noteq> {} \<longrightarrow>
        length (m_Queue (cv_queue c)) \<le> cv_pending c + card (cv_woken c) \<and>
        (m_Closed (cv_queue c) \<longrightarrow> cv_pending_all c))"

lemma wait_and_pop_None: "wait_and_pop q = None \<longleftrightarrow> \<not> m_Closed q \<and> m_Queue q = []"
  by (simp add: wait_and_pop_def wait_ready_def)

lemma wait_and_pop_Some:
  "wait_and_pop q = Some (r, q') \<Longrightarrow>
   length (m_Queue q') = length (m_Queue q) - 1 \<and> m_Closed q' = m_Closed q"
  by (auto simp: wait_and_pop_def split: if_splits list.splits)

lemma try_pop_result:
  "try_pop q = (r, q') \<Longrightarrow> length (m_Queue q') = length (m_Queue q) - 1 \<and> m_Closed q' = m_Closed q"
  by (auto simp: try_pop_def split: list.splits)

lemma cv_step_inv: "cv_step c c' \<Longrightarrow> cv_inv c \<Longrightarrow> cv_inv c'"
proof (induction rule: cv_step.induct)
  case (cv_push x c q)
  then show ?case by (auto simp: cv_inv_def push_def split: if_splits)
next
  case (cv_push_closed x c q)
  then show ?case by (auto simp: cv_inv_def push_def split: if_splits)
next
  case (cv_close c)
  then show ?case by (auto simp: cv_inv_def close_def)
next
  case (cv_notify_one c t)
  then have "t \<notin> cv_woken c" by (auto simp: cv_inv_def)
  with cv_notify_one show ?case by (auto simp: cv_inv_def)
next
  case (cv_notify_all c)
  then show ?case by (auto simp: cv_inv_def)
next
  case (cv_spurious t c)
  then have "t \<notin> cv_woken c" by (auto simp: cv_inv_def)
  with cv_spurious show ?case by (auto simp: cv_inv_def)
next
  case (cv_try_pop c r q)
  with try_pop_result [OF cv_try_pop(1)] show ?case by (auto simp: cv_inv_def)
next
  case (cv_enter_ready c r q)
  with wait_and_pop_Some [OF cv_enter_ready(1)] show ?case by (auto simp: cv_inv_def)
next
  case (cv_resume t c r q)
  then have "0 < card (cv_woken c)"
    by (auto simp: cv_inv_def card_gt_0_iff)
  with cv_resume wait_and_pop_Some [OF cv_resume(2)] show ?case by (auto simp: cv_inv_def)
next
  case (cv_block_again t c)
  then show ?case by (auto simp: cv_inv_def wait_and_pop_None)
qed (auto simp: cv_inv_def wait_and_pop_None)

lemma cv_reachable_inv: "cv_reachable c \<Longrightarrow> cv_inv c"
proof (induction rule: cv_reachable.induct)
  case cv_start
  show ?case by (simp add: cv_inv_def cv_init_def)
qed (rule cv_step_inv)

subsection \<open>Properties\<close>

text \<open>The mutex-guarded queue is first in, first out under every sequence of pushes and pops,
  starting from any queue: what was in it followed by what was taken is what came out followed by
  what is left.\<close>

theorem thread_safe_queue_fifo:
  assumes "queue_run push try_pop ops q = (ins, outs, q')"
  shows "m_Queue q @ ins = outs @ m_Queue q'"
  using tsq.run_fifo [OF _ assms] by simp

theorem thread_safe_queue_fifo_witness:
  "queue_run push try_pop [Inl 1, Inl 2, Inr (), Inl (3 :: nat)] TSQ_init =
     ([1, 2, 3], [1], \<lparr>m_Queue = [2, 3], m_Closed = False\<rparr>) \<and>
   m_Queue TSQ_init @ [1, 2, 3] = [1] @ [2, 3 :: nat]"
proof -
  have r: "queue_run push try_pop [Inl 1, Inl 2, Inr (), Inl (3 :: nat)] TSQ_init =
     ([1, 2, 3], [1], \<lparr>m_Queue = [2, 3], m_Closed = False\<rparr>)"
    by (simp add: TSQ_init_def)
  from thread_safe_queue_fifo [OF this] r show ?thesis by simp
qed

text \<open>A closed queue refuses every push and is drained before \<^verbatim>\<open>wait_and_pop\<close> reports the
  end: it blocks exactly while the queue is open and empty, and answers \<^verbatim>\<open>false\<close> exactly when
  it is closed and empty.\<close>

theorem closed_queue_drains:
  "push x (close q) = (False, close q) \<and>
   (wait_and_pop q = None \<longleftrightarrow> \<not> is_closed q \<and> queue_empty q) \<and>
   (wait_and_pop q = Some (None, q) \<longleftrightarrow> is_closed q \<and> queue_empty q) \<and>
   wait_and_pop (q\<lparr>m_Queue := y # ys\<rparr>) = Some (Some y, q\<lparr>m_Queue := ys\<rparr>)"
  by (auto simp: push_def close_def wait_and_pop_def wait_ready_def is_closed_def queue_empty_def
      split: list.splits)

text \<open>C25: no wake-up is lost. In every interleaving of pushes, pops, closes, notifications and
  spurious wake-ups, if a thread is blocked in \<^verbatim>\<open>wait_and_pop\<close> while the queue holds an
  element or is closed, then a notification is still to come or another thread has been woken.\<close>

theorem no_lost_wakeup:
  assumes "cv_reachable c" and "t \<in> cv_waiting c" and "wait_ready (cv_queue c)"
  shows "0 < cv_pending c \<or> cv_pending_all c \<or> cv_woken c \<noteq> {}"
proof -
  have "cv_inv c" using assms(1) by (rule cv_reachable_inv)
  with assms(2,3) show ?thesis
    by (cases "m_Queue (cv_queue c)") (auto simp: cv_inv_def wait_ready_def)
qed

lemma cv_blocked_then_push:
  "cv_reachable (cv_init\<lparr>cv_waiting := {0}, cv_queue := \<lparr>m_Queue = [True], m_Closed = False\<rparr>, cv_pending := 1\<rparr>)"
proof -
  have "cv_step (cv_init :: bool CVQueue) (cv_init\<lparr>cv_waiting := insert 0 (cv_waiting (cv_init :: bool CVQueue))\<rparr>)"
    by (rule cv_enter_block [where c = "cv_init :: bool CVQueue" and t = 0]) (simp_all add: cv_init_def TSQ_init_def wait_and_pop_None)
  then have r: "cv_reachable (cv_init\<lparr>cv_waiting := {0}\<rparr> :: bool CVQueue)"
    using cv_next [OF cv_start] by (simp add: cv_init_def)
  have "cv_step (cv_init\<lparr>cv_waiting := {0}\<rparr>)
      (cv_init\<lparr>cv_waiting := {0}, cv_queue := \<lparr>m_Queue = [True], m_Closed = False\<rparr>, cv_pending := 1\<rparr>)"
    using cv_push [of True "cv_init\<lparr>cv_waiting := {0}\<rparr>"] by (simp add: cv_init_def TSQ_init_def)
  with r show ?thesis by (rule cv_next)
qed

theorem no_lost_wakeup_witness:
  "let c = cv_init\<lparr>cv_waiting := {0}, cv_queue := \<lparr>m_Queue = [True], m_Closed = False\<rparr>, cv_pending := 1\<rparr>
   in 0 < cv_pending c \<or> cv_pending_all c \<or> cv_woken c \<noteq> {}"
  unfolding Let_def
  by (rule no_lost_wakeup [OF cv_blocked_then_push, of 0]) (simp_all add: wait_ready_def)

end
