(* ===== verification/Spsc_Ring.thy ===== *)
theory Spsc_Ring
  imports Queue_Contract
begin

text \<open>
  \<^verbatim>\<open>src/src/Data-Structures/SPSC-Queue.hpp\<close>: the single-producer single-consumer ring.
  First the two operations run by one thread, which interpret the queue contract; then both
  threads as step machines with one step per shared access, the invariant that ties the wrapped
  32-bit indices to counters that never wrap, and first-in-first-out order and absence of data
  races for every interleaving.
\<close>

unbundle bit_operations_syntax

subsection \<open>The ring\<close>

text \<open>\<open>k\<close> is the logarithm of the template argument \<^verbatim>\<open>Size\<close>, which its requires clause makes
  a positive power of two; it is a \<^verbatim>\<open>u32\<close>, so \<open>k < 32\<close>.\<close>

record 'a SPSC_Queue =
  m_Buffer :: "'a list"
  m_Head :: u32
  m_TailCache :: u32
  m_Tail :: u32
  m_HeadCache :: u32

definition BitMask :: "nat \<Rightarrow> u32" where
  "BitMask k = 2 ^ k - 1"

definition SPSC_init :: "nat \<Rightarrow> 'a \<Rightarrow> 'a SPSC_Queue" where
  "SPSC_init k dflt = \<lparr>m_Buffer = replicate (2 ^ k) dflt, m_Head = 0, m_TailCache = 0, m_Tail = 0,
     m_HeadCache = 0\<rparr>"

definition next_slot :: "nat \<Rightarrow> u32 \<Rightarrow> u32" where
  "next_slot k i = (i + 1) AND BitMask k"

definition spsc_write :: "nat \<Rightarrow> 'a \<Rightarrow> 'a SPSC_Queue \<Rightarrow> 'a SPSC_Queue" where
  "spsc_write k val q = q\<lparr>m_Buffer := (m_Buffer q)[unat (m_Head q) := val]\<rparr>"

text \<open>The two operations run by one thread after the other.\<close>

definition spsc_push :: "nat \<Rightarrow> 'a \<Rightarrow> 'a SPSC_Queue \<Rightarrow> bool \<times> 'a SPSC_Queue" where
  "spsc_push k val q =
     (let curr_tail = m_TailCache q; next_head = next_slot k (m_Head q);
          q1 = (if next_head = curr_tail then q\<lparr>m_TailCache := m_Tail q\<rparr> else q)
      in if next_head = curr_tail \<and> next_head = m_TailCache q1 then (False, q1)
         else (True, (spsc_write k val q1)\<lparr>m_Head := next_head\<rparr>))"

definition spsc_pop :: "nat \<Rightarrow> 'a SPSC_Queue \<Rightarrow> 'a option \<times> 'a SPSC_Queue" where
  "spsc_pop k q =
     (let curr_head = m_HeadCache q;
          q1 = (if m_Tail q = curr_head then q\<lparr>m_HeadCache := m_Head q\<rparr> else q)
      in if m_Tail q = curr_head \<and> m_Tail q = m_HeadCache q1 then (None, q1)
         else (Some (m_Buffer q1 ! unat (m_Tail q)), q1\<lparr>m_Tail := next_slot k (m_Tail q)\<rparr>))"

subsection \<open>Slots and counters\<close>

text \<open>An index into the ring stands for a counter that never wraps, modulo the size.\<close>

lemma unat_next_slot:
  assumes "k < 32" and "unat i = n mod 2 ^ k"
  shows "unat (next_slot k i) = Suc n mod 2 ^ k"
proof -
  have lt: "unat i < 2 ^ k" using assms(2) by simp
  have le: "(2 :: nat) ^ k \<le> 2 ^ 31" using assms(1) by (intro power_increasing) simp_all
  have u: "unat (i + 1) = Suc (unat i)"
    using lt le by (subst unat_add_bounded) simp_all
  have "BitMask k = mask k" by (simp add: BitMask_def mask_eq_exp_minus_1)
  then have "unat (next_slot k i) = take_bit k (unat (i + 1))"
    by (simp add: next_slot_def flip: take_bit_eq_mask, simp add: unsigned_take_bit_eq)
  also have "\<dots> = Suc (unat i) mod 2 ^ k" by (simp add: u take_bit_eq_mod)
  also have "\<dots> = Suc n mod 2 ^ k" by (simp add: assms(2) mod_Suc_eq)
  finally show ?thesis .
qed

lemma mod_window_eq_iff:
  assumes "i \<le> j" and "j < i + s"
  shows "i mod s = j mod s \<longleftrightarrow> i = (j :: nat)"
proof
  assume "i mod s = j mod s"
  then have "s dvd j - i" using assms(1) by (metis mod_eq_dvd_iff_nat)
  moreover have "j - i < s" using assms by arith
  ultimately show "i = j" using assms(1) by (metis diff_is_0_eq le_antisym nat_dvd_not_less neq0_conv)
qed simp

lemma mod_window_full:
  assumes "i < j" and "j \<le> i + s"
  shows "i mod s = j mod s \<longleftrightarrow> j = i + (s :: nat)"
proof
  assume e: "i mod s = j mod s"
  show "j = i + s"
  proof (rule ccontr)
    assume "j \<noteq> i + s"
    with assms have "j < i + s" by simp
    with e assms mod_window_eq_iff [of i j s] show False by simp
  qed
qed simp

text \<open>\<open>ring_rel k q h t tc hc\<close>: the indices stand for the numbers of elements published (\<open>h\<close>) and
  released (\<open>t\<close>) so far, and the caches for numbers seen earlier.\<close>

definition ring_rel :: "nat \<Rightarrow> 'a SPSC_Queue \<Rightarrow> nat \<Rightarrow> nat \<Rightarrow> nat \<Rightarrow> nat \<Rightarrow> bool" where
  "ring_rel k q h t tc hc \<longleftrightarrow>
     length (m_Buffer q) = 2 ^ k \<and>
     unat (m_Head q) = h mod 2 ^ k \<and> unat (m_Tail q) = t mod 2 ^ k \<and>
     unat (m_TailCache q) = tc mod 2 ^ k \<and> unat (m_HeadCache q) = hc mod 2 ^ k \<and>
     tc \<le> t \<and> t \<le> hc \<and> hc \<le> h \<and> h < tc + 2 ^ k"

lemma ring_full_iff:
  assumes "k < 32" and "ring_rel k q h t tc hc"
  shows "next_slot k (m_Head q) = m_TailCache q \<longleftrightarrow> Suc h = tc + 2 ^ k"
proof -
  have "unat (next_slot k (m_Head q)) = Suc h mod 2 ^ k"
    using assms by (intro unat_next_slot) (simp_all add: ring_rel_def)
  moreover have "unat (m_TailCache q) = tc mod 2 ^ k" using assms(2) by (simp add: ring_rel_def)
  moreover have "tc < Suc h" "Suc h \<le> tc + 2 ^ k" using assms(2) by (simp_all add: ring_rel_def)
  ultimately show ?thesis
    using mod_window_full [of tc "Suc h" "2 ^ k"] by (metis word_unat_eq_iff)
qed

lemma ring_empty_iff:
  assumes "ring_rel k q h t tc hc"
  shows "m_Tail q = m_HeadCache q \<longleftrightarrow> t = hc"
proof -
  have "m_Tail q = m_HeadCache q \<longleftrightarrow> t mod 2 ^ k = hc mod 2 ^ k"
    using assms by (simp add: word_unat_eq_iff ring_rel_def)
  then show ?thesis
    using assms mod_window_eq_iff [of t hc "2 ^ k"] by (simp add: ring_rel_def)
qed

subsection \<open>Two threads\<close>

text \<open>The producer and the consumer as step machines, one step per access to shared memory. The
  program counters carry the local variables that are still needed. \<open>published\<close> and \<open>received\<close>
  are the elements handed over so far, \<open>tail_seen\<close> and \<open>head_seen\<close> the counters behind the
  caches; they observe the run and do not influence it.

  An acquire load is not bound to return the latest value: it returns some value the other
  thread stored since the one seen before. The counter behind it is chosen between
  the one behind the cache and the current one.\<close>

datatype 'a producer_pc = P_Idle | P_Load 'a | P_Write 'a | P_Publish 'a
datatype 'a consumer_pc = C_Idle | C_Load | C_Read | C_Release 'a

record 'a SPSC_State =
  ring :: "'a SPSC_Queue"
  producer :: "'a producer_pc"
  consumer :: "'a consumer_pc"
  published :: "'a list"
  received :: "'a list"
  tail_seen :: nat
  head_seen :: nat

definition SPSC_State_init :: "nat \<Rightarrow> 'a \<Rightarrow> 'a SPSC_State" where
  "SPSC_State_init k dflt = \<lparr>ring = SPSC_init k dflt, producer = P_Idle, consumer = C_Idle,
     published = [], received = [], tail_seen = 0, head_seen = 0\<rparr>"

inductive spsc_step :: "nat \<Rightarrow> 'a SPSC_State \<Rightarrow> 'a SPSC_State \<Rightarrow> bool" for k where
  p_start_full: "producer s = P_Idle \<Longrightarrow> next_slot k (m_Head (ring s)) = m_TailCache (ring s) \<Longrightarrow>
    spsc_step k s (s\<lparr>producer := P_Load val\<rparr>)"
| p_start_room: "producer s = P_Idle \<Longrightarrow> next_slot k (m_Head (ring s)) \<noteq> m_TailCache (ring s) \<Longrightarrow>
    spsc_step k s (s\<lparr>producer := P_Write val\<rparr>)"
| p_load_full: "producer s = P_Load val \<Longrightarrow> tail_seen s \<le> n \<Longrightarrow> n \<le> length (received s) \<Longrightarrow>
    q = (ring s)\<lparr>m_TailCache := of_nat (n mod 2 ^ k)\<rparr> \<Longrightarrow> next_slot k (m_Head q) = m_TailCache q \<Longrightarrow>
    spsc_step k s (s\<lparr>ring := q, tail_seen := n, producer := P_Idle\<rparr>)"
| p_load_room: "producer s = P_Load val \<Longrightarrow> tail_seen s \<le> n \<Longrightarrow> n \<le> length (received s) \<Longrightarrow>
    q = (ring s)\<lparr>m_TailCache := of_nat (n mod 2 ^ k)\<rparr> \<Longrightarrow> next_slot k (m_Head q) \<noteq> m_TailCache q \<Longrightarrow>
    spsc_step k s (s\<lparr>ring := q, tail_seen := n, producer := P_Write val\<rparr>)"
| p_write: "producer s = P_Write val \<Longrightarrow>
    spsc_step k s (s\<lparr>ring := spsc_write k val (ring s), producer := P_Publish val\<rparr>)"
| p_publish: "producer s = P_Publish val \<Longrightarrow>
    spsc_step k s (s\<lparr>ring := (ring s)\<lparr>m_Head := next_slot k (m_Head (ring s))\<rparr>,
      published := published s @ [val], producer := P_Idle\<rparr>)"
| c_start_empty: "consumer s = C_Idle \<Longrightarrow> m_Tail (ring s) = m_HeadCache (ring s) \<Longrightarrow>
    spsc_step k s (s\<lparr>consumer := C_Load\<rparr>)"
| c_start_some: "consumer s = C_Idle \<Longrightarrow> m_Tail (ring s) \<noteq> m_HeadCache (ring s) \<Longrightarrow>
    spsc_step k s (s\<lparr>consumer := C_Read\<rparr>)"
| c_load_empty: "consumer s = C_Load \<Longrightarrow> head_seen s \<le> n \<Longrightarrow> n \<le> length (published s) \<Longrightarrow>
    q = (ring s)\<lparr>m_HeadCache := of_nat (n mod 2 ^ k)\<rparr> \<Longrightarrow> m_Tail q = m_HeadCache q \<Longrightarrow>
    spsc_step k s (s\<lparr>ring := q, head_seen := n, consumer := C_Idle\<rparr>)"
| c_load_some: "consumer s = C_Load \<Longrightarrow> head_seen s \<le> n \<Longrightarrow> n \<le> length (published s) \<Longrightarrow>
    q = (ring s)\<lparr>m_HeadCache := of_nat (n mod 2 ^ k)\<rparr> \<Longrightarrow> m_Tail q \<noteq> m_HeadCache q \<Longrightarrow>
    spsc_step k s (s\<lparr>ring := q, head_seen := n, consumer := C_Read\<rparr>)"
| c_read: "consumer s = C_Read \<Longrightarrow>
    spsc_step k s (s\<lparr>consumer := C_Release (m_Buffer (ring s) ! unat (m_Tail (ring s)))\<rparr>)"
| c_release: "consumer s = C_Release out \<Longrightarrow>
    spsc_step k s (s\<lparr>ring := (ring s)\<lparr>m_Tail := next_slot k (m_Tail (ring s))\<rparr>,
      received := received s @ [out], consumer := C_Idle\<rparr>)"

inductive spsc_reachable :: "nat \<Rightarrow> 'a \<Rightarrow> 'a SPSC_State \<Rightarrow> bool" for k dflt where
  spsc_start: "spsc_reachable k dflt (SPSC_State_init k dflt)"
| spsc_next: "spsc_reachable k dflt s \<Longrightarrow> spsc_step k s s' \<Longrightarrow> spsc_reachable k dflt s'"

subsection \<open>The invariant\<close>

definition ring_holds :: "nat \<Rightarrow> 'a SPSC_Queue \<Rightarrow> 'a list \<Rightarrow> nat \<Rightarrow> bool" where
  "ring_holds k q xs t \<longleftrightarrow> (\<forall>i. t \<le> i \<and> i < length xs \<longrightarrow> m_Buffer q ! (i mod 2 ^ k) = xs ! i)"

definition spsc_inv :: "nat \<Rightarrow> 'a SPSC_State \<Rightarrow> bool" where
  "spsc_inv k s \<longleftrightarrow>
     ring_rel k (ring s) (length (published s)) (length (received s)) (tail_seen s) (head_seen s) \<and>
     ring_holds k (ring s) (published s) (length (received s)) \<and>
     received s = take (length (received s)) (published s) \<and>
     (case producer s of
        P_Write val \<Rightarrow> Suc (length (published s)) < tail_seen s + 2 ^ k
      | P_Publish val \<Rightarrow> Suc (length (published s)) < tail_seen s + 2 ^ k \<and>
          m_Buffer (ring s) ! (length (published s) mod 2 ^ k) = val
      | _ \<Rightarrow> True) \<and>
     (case consumer s of
        C_Read \<Rightarrow> length (received s) < head_seen s
      | C_Release out \<Rightarrow> length (received s) < head_seen s \<and> published s ! length (received s) = out
      | _ \<Rightarrow> True)"

lemma spsc_inv_init: "k < 32 \<Longrightarrow> spsc_inv k (SPSC_State_init k dflt)"
  by (simp add: spsc_inv_def SPSC_State_init_def ring_rel_def SPSC_init_def ring_holds_def)

lemma unat_of_nat_slot: "k < 32 \<Longrightarrow> unat (of_nat (n mod 2 ^ k) :: u32) = n mod 2 ^ k"
proof -
  assume "k < 32"
  then have "(2 :: nat) ^ k < 2 ^ 32" by (intro power_strict_increasing) simp_all
  moreover have "n mod 2 ^ k < (2 :: nat) ^ k" by simp
  ultimately have "n mod 2 ^ k < 2 ^ 32" by (rule less_trans [rotated])
  then show ?thesis by (simp add: unat_of_nat take_bit_eq_mod)
qed

lemma ring_rel_load_tail:
  "k < 32 \<Longrightarrow> ring_rel k q h t tc hc \<Longrightarrow> tc \<le> n \<Longrightarrow> n \<le> t \<Longrightarrow>
   ring_rel k (q\<lparr>m_TailCache := of_nat (n mod 2 ^ k)\<rparr>) h t n hc"
  by (auto simp: ring_rel_def unat_of_nat_slot)

lemma ring_rel_load_head:
  "k < 32 \<Longrightarrow> ring_rel k q h t tc hc \<Longrightarrow> hc \<le> n \<Longrightarrow> n \<le> h \<Longrightarrow>
   ring_rel k (q\<lparr>m_HeadCache := of_nat (n mod 2 ^ k)\<rparr>) h t tc n"
  by (auto simp: ring_rel_def unat_of_nat_slot)

lemma ring_rel_publish:
  "k < 32 \<Longrightarrow> ring_rel k q h t tc hc \<Longrightarrow> Suc h < tc + 2 ^ k \<Longrightarrow>
   ring_rel k (q\<lparr>m_Head := next_slot k (m_Head q)\<rparr>) (Suc h) t tc hc"
  by (auto simp: ring_rel_def unat_next_slot)

lemma ring_rel_release:
  "k < 32 \<Longrightarrow> ring_rel k q h t tc hc \<Longrightarrow> t < hc \<Longrightarrow>
   ring_rel k (q\<lparr>m_Tail := next_slot k (m_Tail q)\<rparr>) h (Suc t) tc hc"
  by (auto simp: ring_rel_def unat_next_slot)

lemma ring_rel_write: "ring_rel k q h t tc hc \<Longrightarrow> ring_rel k (spsc_write k val q) h t tc hc"
  by (simp add: ring_rel_def spsc_write_def)

lemma write_slot:
  assumes "ring_rel k q h t tc hc"
  shows "m_Buffer (spsc_write k val q) ! (h mod 2 ^ k) = val"
    and "t \<le> i \<Longrightarrow> i < h \<Longrightarrow> m_Buffer (spsc_write k val q) ! (i mod 2 ^ k) = m_Buffer q ! (i mod 2 ^ k)"
proof -
  show "m_Buffer (spsc_write k val q) ! (h mod 2 ^ k) = val"
    using assms by (simp add: spsc_write_def ring_rel_def)
  assume "t \<le> i" "i < h"
  moreover have "h < i + 2 ^ k" using assms \<open>t \<le> i\<close> by (simp add: ring_rel_def)
  ultimately have "i mod 2 ^ k \<noteq> h mod 2 ^ k"
    using mod_window_eq_iff [of i h "2 ^ k"] by simp
  then show "m_Buffer (spsc_write k val q) ! (i mod 2 ^ k) = m_Buffer q ! (i mod 2 ^ k)"
    using assms by (simp add: spsc_write_def ring_rel_def)
qed

lemma ring_room:
  "k < 32 \<Longrightarrow> ring_rel k q h t tc hc \<Longrightarrow> next_slot k (m_Head q) \<noteq> m_TailCache q \<Longrightarrow> Suc h < tc + 2 ^ k"
  by (simp add: ring_full_iff, simp add: ring_rel_def)

lemma ring_some: "ring_rel k q h t tc hc \<Longrightarrow> m_Tail q \<noteq> m_HeadCache q \<Longrightarrow> t < hc"
  by (simp add: ring_empty_iff, simp add: ring_rel_def)

lemma ring_holds_publish:
  "ring_holds k q xs t \<Longrightarrow> m_Buffer q ! (length xs mod 2 ^ k) = val \<Longrightarrow>
   ring_holds k (q\<lparr>m_Head := h\<rparr>) (xs @ [val]) t"
  by (auto simp: ring_holds_def nth_append less_Suc_eq)

lemma ring_holds_release: "ring_holds k q xs t \<Longrightarrow> ring_holds k (q\<lparr>m_Tail := h\<rparr>) xs (Suc t)"
  by (simp add: ring_holds_def)

lemma ring_holds_write:
  "ring_rel k q (length xs) t tc hc \<Longrightarrow> ring_holds k q xs t \<Longrightarrow> ring_holds k (spsc_write k val q) xs t"
  by (simp add: ring_holds_def write_slot)

lemma ring_holds_cache [simp]:
  "ring_holds k (q\<lparr>m_TailCache := x\<rparr>) xs t = ring_holds k q xs t"
  "ring_holds k (q\<lparr>m_HeadCache := x\<rparr>) xs t = ring_holds k q xs t"
  by (simp_all add: ring_holds_def)

lemma ring_holds_read:
  "ring_rel k q (length xs) t tc hc \<Longrightarrow> ring_holds k q xs t \<Longrightarrow> t < hc \<Longrightarrow>
   m_Buffer q ! unat (m_Tail q) = xs ! t"
  by (simp add: ring_rel_def ring_holds_def)

text \<open>Each step is one thread's; the other keeps its program counter.\<close>

lemma spsc_one_thread: "spsc_step k s s' \<Longrightarrow> consumer s' = consumer s \<or> producer s' = producer s"
  by (erule spsc_step.cases) simp_all

lemma spsc_producer_inv:
  assumes "spsc_step k s s'" and "consumer s' = consumer s" and "k < 32" and inv: "spsc_inv k s"
  shows "spsc_inv k s'"
proof -
  have rel: "ring_rel k (ring s) (length (published s)) (length (received s)) (tail_seen s) (head_seen s)"
    and pre: "received s = take (length (received s)) (published s)"
    and ord: "length (received s) \<le> head_seen s" "head_seen s \<le> length (published s)"
    using inv by (simp_all add: spsc_inv_def ring_rel_def)
  note load = ring_rel_load_tail [OF assms(3) rel] and room = ring_room [OF assms(3)]
  from assms(1) show ?thesis
  proof cases
    case (p_start_room val)
    with room [OF rel] inv show ?thesis by (auto simp: spsc_inv_def split: consumer_pc.splits)
  next
    case (p_load_room val n q)
    with load have "ring_rel k q (length (published s)) (length (received s)) n (head_seen s)" by simp
    with room [OF this] p_load_room inv show ?thesis by (auto simp: spsc_inv_def split: consumer_pc.splits)
  next
    case (p_write val)
    with inv ring_rel_write [OF rel] write_slot(1) [OF rel] ring_holds_write [OF rel] show ?thesis
      by (auto simp: spsc_inv_def split: consumer_pc.splits)
  next
    case (p_publish val)
    then have "Suc (length (published s)) < tail_seen s + 2 ^ k" using inv by (simp add: spsc_inv_def)
    with p_publish inv ring_rel_publish [OF assms(3) rel] pre ord show ?thesis
      by (auto simp: spsc_inv_def ring_holds_publish nth_append split: consumer_pc.splits)
  qed (use assms(2) inv load in \<open>auto simp: spsc_inv_def split: consumer_pc.splits producer_pc.splits\<close>)
qed

lemma spsc_consumer_inv:
  assumes "spsc_step k s s'" and "producer s' = producer s" and "k < 32" and inv: "spsc_inv k s"
  shows "spsc_inv k s'"
proof -
  have rel: "ring_rel k (ring s) (length (published s)) (length (received s)) (tail_seen s) (head_seen s)"
    and holds: "ring_holds k (ring s) (published s) (length (received s))"
    and pre: "received s = take (length (received s)) (published s)"
    and ord: "head_seen s \<le> length (published s)"
    using inv by (simp_all add: spsc_inv_def ring_rel_def)
  note load = ring_rel_load_head [OF assms(3) rel]
  from assms(1) show ?thesis
  proof cases
    case c_start_some
    with ring_some [OF rel] inv show ?thesis by (auto simp: spsc_inv_def split: producer_pc.splits)
  next
    case (c_load_some n q)
    with load have "ring_rel k q (length (published s)) (length (received s)) (tail_seen s) n" by simp
    with ring_some [OF this] c_load_some inv show ?thesis by (auto simp: spsc_inv_def split: producer_pc.splits)
  next
    case c_read
    with ring_holds_read [OF rel holds] inv show ?thesis by (auto simp: spsc_inv_def split: producer_pc.splits)
  next
    case (c_release out)
    then have lt: "length (received s) < head_seen s" "published s ! length (received s) = out"
      using inv by (simp_all add: spsc_inv_def)
    with ord pre have "received s @ [out] = take (Suc (length (received s))) (published s)"
      by (simp add: take_Suc_conv_app_nth)
    moreover have "min (length (published s)) (Suc (length (received s))) = Suc (length (received s))"
      using lt ord by simp
    ultimately show ?thesis
      using c_release inv lt ring_rel_release [OF assms(3) rel] ring_holds_release [OF holds]
      by (auto simp: spsc_inv_def split: producer_pc.splits)
  qed (use assms(2) inv load in \<open>auto simp: spsc_inv_def split: consumer_pc.splits producer_pc.splits\<close>)
qed

lemma spsc_step_inv: "spsc_step k s s' \<Longrightarrow> k < 32 \<Longrightarrow> spsc_inv k s \<Longrightarrow> spsc_inv k s'"
  using spsc_one_thread spsc_producer_inv spsc_consumer_inv by blast

lemma spsc_reachable_inv: "spsc_reachable k dflt s \<Longrightarrow> k < 32 \<Longrightarrow> spsc_inv k s"
  by (induction rule: spsc_reachable.induct) (simp_all add: spsc_inv_init spsc_step_inv)

subsection \<open>One thread\<close>

text \<open>Run by one thread, the ring meets the contract of a queue; it refuses a push when it holds
  \<^verbatim>\<open>Size - 1\<close> elements.\<close>

definition spsc_contents :: "nat \<Rightarrow> 'a SPSC_Queue \<Rightarrow> 'a list" where
  "spsc_contents k q = map (\<lambda>i. m_Buffer q ! ((unat (m_Tail q) + i) mod 2 ^ k))
     [0..<(unat (m_Head q) + 2 ^ k - unat (m_Tail q)) mod 2 ^ k]"

definition spsc_ok :: "nat \<Rightarrow> 'a SPSC_Queue \<Rightarrow> bool" where
  "spsc_ok k q \<longleftrightarrow> k < 32 \<and> (\<exists>h t tc hc. ring_rel k q h t tc hc)"

lemma spsc_okI: "k < 32 \<Longrightarrow> ring_rel k q h t tc hc \<Longrightarrow> spsc_ok k q"
  by (auto simp: spsc_ok_def)

lemma mod_distance:
  assumes "t \<le> h" and "h < t + s"
  shows "(h mod s + s - t mod s) mod s = h - (t :: nat)"
proof -
  obtain d where d: "h = t + d" "d < s" using assms by (metis le_Suc_ex nat_add_left_cancel_less)
  have lt: "t mod s < s" using d(2) by simp
  show ?thesis
  proof (cases "t mod s + d < s")
    case True
    then have "h mod s = t mod s + d" using d by (metis mod_add_left_eq mod_less)
    with d lt show ?thesis by simp
  next
    case False
    then have "h mod s = t mod s + d - s"
      using d lt by (metis mod_add_left_eq add_less_mono le_mod_geq linorder_not_less mod_less
          less_diff_conv2 nat_add_left_cancel_less)
    with d lt False show ?thesis by simp
  qed
qed

lemma spsc_contents_rel:
  assumes "ring_rel k q h t tc hc"
  shows "spsc_contents k q = map (\<lambda>i. m_Buffer q ! (i mod 2 ^ k)) [t..<h]"
proof -
  have ord: "t \<le> h" "h < t + 2 ^ k" using assms by (auto simp: ring_rel_def)
  have "(unat (m_Head q) + 2 ^ k - unat (m_Tail q)) mod 2 ^ k = h - t"
    using mod_distance [OF ord] assms by (simp add: ring_rel_def)
  then have "spsc_contents k q = map (\<lambda>i. m_Buffer q ! ((t mod 2 ^ k + i) mod 2 ^ k)) [0..<h - t]"
    using assms by (simp add: spsc_contents_def ring_rel_def)
  also have "\<dots> = map (\<lambda>i. m_Buffer q ! (i mod 2 ^ k)) (map (\<lambda>i. i + t) [0..<h - t])"
    by (simp add: mod_add_right_eq mod_add_left_eq add.commute)
  also have "map (\<lambda>i. i + t) [0..<h - t] = [t..<h]" using ord(1) by (simp add: map_add_upt)
  finally show ?thesis .
qed

lemma m_TailCache_update_load:
  "ring_rel k q h t tc hc \<Longrightarrow> ring_rel k (q\<lparr>m_TailCache := m_Tail q\<rparr>) h t t hc"
  by (auto simp: ring_rel_def)

lemma m_HeadCache_update_load:
  "ring_rel k q h t tc hc \<Longrightarrow> ring_rel k (q\<lparr>m_HeadCache := m_Head q\<rparr>) h t tc h"
  by (auto simp: ring_rel_def)

lemma spsc_contents_cache [simp]:
  "spsc_contents k (q\<lparr>m_TailCache := c\<rparr>) = spsc_contents k q"
  "spsc_contents k (q\<lparr>m_HeadCache := c\<rparr>) = spsc_contents k q"
  by (simp_all add: spsc_contents_def)

lemma spsc_put:
  assumes "k < 32" and "ring_rel k q h t tc hc" and "Suc h < tc + 2 ^ k"
  shows "ring_rel k ((spsc_write k val q)\<lparr>m_Head := next_slot k (m_Head q)\<rparr>) (Suc h) t tc hc"
    and "spsc_contents k ((spsc_write k val q)\<lparr>m_Head := next_slot k (m_Head q)\<rparr>) = spsc_contents k q @ [val]"
proof -
  let ?q = "(spsc_write k val q)\<lparr>m_Head := next_slot k (m_Head q)\<rparr>"
  have r: "ring_rel k (spsc_write k val q) h t tc hc" by (rule ring_rel_write [OF assms(2)])
  have "m_Head (spsc_write k val q) = m_Head q" by (simp add: spsc_write_def)
  with ring_rel_publish [OF assms(1) r assms(3)] show q: "ring_rel k ?q (Suc h) t tc hc" by simp
  have "t \<le> h" using assms(2) by (simp add: ring_rel_def)
  then show "spsc_contents k ?q = spsc_contents k q @ [val]"
    using write_slot [OF assms(2)] by (simp add: spsc_contents_rel [OF q] spsc_contents_rel [OF assms(2)])
qed

lemma spsc_push_spec:
  assumes "k < 32" and "ring_rel k q h t tc hc"
  shows "spsc_push k val q =
      (if Suc h = t + 2 ^ k then (False, q\<lparr>m_TailCache := m_Tail q\<rparr>)
       else if Suc h = tc + 2 ^ k
       then (True, (spsc_write k val (q\<lparr>m_TailCache := m_Tail q\<rparr>))\<lparr>m_Head := next_slot k (m_Head q)\<rparr>)
       else (True, (spsc_write k val q)\<lparr>m_Head := next_slot k (m_Head q)\<rparr>))"
proof -
  note full = ring_full_iff [OF assms] ring_full_iff [OF assms(1) m_TailCache_update_load [OF assms(2)]]
  have "tc \<le> t" "Suc h \<le> tc + 2 ^ k" using assms(2) by (simp_all add: ring_rel_def)
  with full show ?thesis by (auto simp: spsc_push_def Let_def)
qed

lemma length_spsc_contents: "ring_rel k q h t tc hc \<Longrightarrow> length (spsc_contents k q) = h - t"
  by (simp add: spsc_contents_rel)

lemma spsc_push_ok:
  assumes "spsc_ok k q"
  shows "fst (spsc_push k val q) \<longleftrightarrow> length (spsc_contents k q) < 2 ^ k - 1"
    and "spsc_ok k (snd (spsc_push k val q))"
    and "spsc_contents k (snd (spsc_push k val q)) =
      spsc_contents k q @ (if fst (spsc_push k val q) then [val] else [])"
proof -
  from assms obtain h t tc hc where k: "k < 32" and r: "ring_rel k q h t tc hc" by (auto simp: spsc_ok_def)
  let ?q1 = "q\<lparr>m_TailCache := m_Tail q\<rparr>"
  have r1: "ring_rel k ?q1 h t t hc" by (rule m_TailCache_update_load [OF r])
  have ord: "t \<le> h" "tc \<le> t" "Suc h \<le> tc + 2 ^ k" using r by (simp_all add: ring_rel_def)
  note sp = spsc_push_spec [OF k r, of val]
  show "fst (spsc_push k val q) \<longleftrightarrow> length (spsc_contents k q) < 2 ^ k - 1"
    using ord by (auto simp: sp length_spsc_contents [OF r])
  show "spsc_ok k (snd (spsc_push k val q))"
    using spsc_okI [OF k r1] spsc_okI [OF k spsc_put(1) [OF k r, of val]]
      spsc_okI [OF k spsc_put(1) [OF k r1, of val]] ord
    unfolding sp by auto
  show "spsc_contents k (snd (spsc_push k val q)) =
      spsc_contents k q @ (if fst (spsc_push k val q) then [val] else [])"
    using spsc_put(2) [OF k r, of val] spsc_put(2) [OF k r1, of val] ord unfolding sp by auto
qed

lemma spsc_pop_spec:
  assumes "ring_rel k q h t tc hc"
  shows "spsc_pop k q =
      (if t = h then (None, q\<lparr>m_HeadCache := m_Head q\<rparr>)
       else (Some (m_Buffer q ! (t mod 2 ^ k)),
             (if t = hc then q\<lparr>m_HeadCache := m_Head q\<rparr> else q)\<lparr>m_Tail := next_slot k (m_Tail q)\<rparr>))"
proof -
  note empty = ring_empty_iff [OF assms] ring_empty_iff [OF m_HeadCache_update_load [OF assms]]
  have "t \<le> hc" "hc \<le> h" "unat (m_Tail q) = t mod 2 ^ k" using assms by (simp_all add: ring_rel_def)
  with empty show ?thesis by (auto simp: spsc_pop_def Let_def)
qed

lemma spsc_pop_ok:
  assumes "spsc_ok k q"
  shows "spsc_ok k (snd (spsc_pop k q))"
    and "spsc_contents k q = (case fst (spsc_pop k q) of None \<Rightarrow> [] | Some x \<Rightarrow> [x]) @ spsc_contents k (snd (spsc_pop k q))"
    and "fst (spsc_pop k q) = None \<longleftrightarrow> spsc_contents k q = []"
proof -
  from assms obtain h t tc hc where k: "k < 32" and r: "ring_rel k q h t tc hc" by (auto simp: spsc_ok_def)
  let ?q1 = "if t = hc then q\<lparr>m_HeadCache := m_Head q\<rparr> else q"
  obtain hc1 where r1: "ring_rel k ?q1 h t tc hc1" and hc1: "t < h \<Longrightarrow> t < hc1"
    using r m_HeadCache_update_load [OF r] by (cases "t = hc") (auto simp: ring_rel_def)
  have ord: "t \<le> h" using r by (simp add: ring_rel_def)
  have mt: "m_Tail ?q1 = m_Tail q" by simp
  note sp = spsc_pop_spec [OF r]
  have rr: "ring_rel k (?q1\<lparr>m_Tail := next_slot k (m_Tail q)\<rparr>) h (Suc t) tc hc1" if "t < h"
    using ring_rel_release [OF k r1 hc1 [OF that]] by (simp only: mt)
  show "spsc_ok k (snd (spsc_pop k q))"
    using spsc_okI [OF k rr] spsc_okI [OF k m_HeadCache_update_load [OF r]] ord
    unfolding sp by (cases "t = h") simp_all
  show "fst (spsc_pop k q) = None \<longleftrightarrow> spsc_contents k q = []"
    using ord by (simp add: sp spsc_contents_rel [OF r])
  have "m_Buffer (?q1\<lparr>m_Tail := next_slot k (m_Tail q)\<rparr>) = m_Buffer q" by simp
  then show "spsc_contents k q = (case fst (spsc_pop k q) of None \<Rightarrow> [] | Some x \<Rightarrow> [x]) @ spsc_contents k (snd (spsc_pop k q))"
    using ord rr by (cases "t = h")
      (simp_all add: sp spsc_contents_rel [OF r] spsc_contents_rel [OF rr] upt_conv_Cons)
qed

interpretation spsc: fifo_queue "spsc_contents k" "spsc_ok k" "\<lambda>q. length (spsc_contents k q) < 2 ^ k - 1"
    "spsc_push k" "spsc_pop k" for k
proof unfold_locales
  fix q :: "'a SPSC_Queue" and x
  assume ok: "spsc_ok k q"
  note push = spsc_push_ok [OF ok, of x]
  show "length (spsc_contents k q) < 2 ^ k - 1 \<Longrightarrow> fst (spsc_push k x q) \<and>
      spsc_ok k (snd (spsc_push k x q)) \<and> spsc_contents k (snd (spsc_push k x q)) = spsc_contents k q @ [x]"
    using push by simp
  show "\<not> length (spsc_contents k q) < 2 ^ k - 1 \<Longrightarrow> \<not> fst (spsc_push k x q) \<and>
      spsc_ok k (snd (spsc_push k x q)) \<and> spsc_contents k (snd (spsc_push k x q)) = spsc_contents k q"
    using push by simp
qed (fact spsc_pop_ok)+

subsection \<open>Properties\<close>

text \<open>C26: under every interleaving of the two threads, and with acquire loads that may return
  stale values, what the consumer has received is a prefix of what the producer has published:
  no element is lost, duplicated, reordered or torn. At most \<^verbatim>\<open>Size - 1\<close> elements are
  in between.\<close>

theorem spsc_fifo:
  assumes "k < 32" and "spsc_reachable k dflt s"
  shows "\<exists>rest. published s = received s @ rest \<and> length rest < 2 ^ k"
proof -
  have inv: "spsc_inv k s" using assms(2,1) by (rule spsc_reachable_inv)
  then have r: "received s = take (length (received s)) (published s)"
    and "length (published s) < tail_seen s + 2 ^ k" "tail_seen s \<le> length (received s)"
    by (simp_all add: spsc_inv_def ring_rel_def)
  moreover have "0 < (2 :: nat) ^ k" by simp
  ultimately have "length (published s) - length (received s) < 2 ^ k" by linarith
  then have "length (drop (length (received s)) (published s)) < 2 ^ k" by simp
  moreover have "published s = received s @ drop (length (received s)) (published s)"
    using r by (metis append_take_drop_id)
  ultimately show ?thesis by blast
qed

text \<open>C27: the two threads never touch the same slot: while the producer is about to write a slot
  and the consumer about to read one, the slots differ, and both are inside the array.\<close>

theorem spsc_no_data_race:
  assumes "k < 32" and "spsc_reachable k dflt s"
    and "producer s = P_Write val" and "consumer s = C_Read"
  shows "m_Head (ring s) \<noteq> m_Tail (ring s) \<and> unat (m_Head (ring s)) < length (m_Buffer (ring s)) \<and>
    unat (m_Tail (ring s)) < length (m_Buffer (ring s))"
proof -
  have inv: "spsc_inv k s" using assms(2,1) by (rule spsc_reachable_inv)
  let ?h = "length (published s)" and ?t = "length (received s)"
  have rel: "ring_rel k (ring s) ?h ?t (tail_seen s) (head_seen s)" and lt: "?t < head_seen s"
    using inv assms(4) by (simp_all add: spsc_inv_def)
  then have "?t < ?h" "?h < ?t + 2 ^ k" by (auto simp: ring_rel_def)
  then have "?t mod 2 ^ k \<noteq> ?h mod 2 ^ k" using mod_window_eq_iff [of ?t ?h "2 ^ k"] by simp
  with rel show ?thesis by (auto simp: ring_rel_def)
qed

text \<open>Run by one thread the ring is a queue: it refuses a push exactly when it holds
  \<^verbatim>\<open>Size - 1\<close> elements, otherwise the element goes to the back, and a pop takes the front,
  failing exactly when the ring is empty.\<close>

theorem spsc_sequential:
  assumes "spsc_ok k q"
  shows "spsc_contents k (snd (spsc_push k val q)) =
      (if length (spsc_contents k q) < 2 ^ k - 1 then spsc_contents k q @ [val] else spsc_contents k q) \<and>
    fst (spsc_push k val q) = (length (spsc_contents k q) < 2 ^ k - 1) \<and>
    (case spsc_contents k q of
       [] \<Rightarrow> fst (spsc_pop k q) = None \<and> spsc_contents k (snd (spsc_pop k q)) = []
     | x # xs \<Rightarrow> fst (spsc_pop k q) = Some x \<and> spsc_contents k (snd (spsc_pop k q)) = xs)"
  using spsc_push_ok [OF assms] spsc.pop_Cons [OF assms] spsc.pop_Nil [OF assms]
  by (cases "spsc_contents k q") simp_all

lemma spsc_init_ok: "k < 32 \<Longrightarrow> spsc_ok k (SPSC_init k dflt)"
  by (rule spsc_okI [of _ _ 0 0 0 0]) (simp_all add: ring_rel_def SPSC_init_def)

theorem spsc_sequential_witness:
  "spsc_contents 1 (snd (spsc_push 1 True (SPSC_init 1 False))) = [True] \<and>
   fst (spsc_push 1 True (SPSC_init 1 False))"
proof -
  have "spsc_contents 1 (SPSC_init 1 False) = []" by (simp add: spsc_contents_def SPSC_init_def)
  with spsc_sequential [OF spsc_init_ok, of 1 True False] show ?thesis by simp
qed

text \<open>A run for the witnesses: the producer publishes \<open>True\<close> into a ring of two slots, starts to
  push again, and the consumer is about to read.\<close>

definition spsc_sample :: "bool producer_pc \<Rightarrow> bool consumer_pc \<Rightarrow> bool list \<Rightarrow> nat \<Rightarrow> bool SPSC_State" where
  "spsc_sample p c xs seen = \<lparr>ring = \<lparr>m_Buffer = [True, False, False, False], m_Head = of_nat (length xs),
     m_TailCache = 0, m_Tail = 0, m_HeadCache = of_nat seen\<rparr>,
     producer = p, consumer = c, published = xs, received = [], tail_seen = 0, head_seen = seen\<rparr>"

lemma spsc_sample_reachable: "spsc_reachable 2 False (spsc_sample (P_Write False) C_Read [True] 1)"
proof -
  note next_simps = next_slot_def BitMask_def
  let ?s0 = "SPSC_State_init 2 False"
  have e4: "replicate 4 False = [False, False, False, False]" by (simp add: eval_nat_numeral)
  have "spsc_step 2 ?s0 (?s0\<lparr>producer := P_Write True\<rparr>)"
    by (rule p_start_room) (simp_all add: SPSC_State_init_def SPSC_init_def next_simps)
  with spsc_start have r1: "spsc_reachable 2 False (?s0\<lparr>producer := P_Write True\<rparr>)" by (rule spsc_next)
  have "spsc_step 2 (?s0\<lparr>producer := P_Write True\<rparr>) (spsc_sample (P_Publish True) C_Idle [] 0)"
    using p_write [of "?s0\<lparr>producer := P_Write True\<rparr>" True 2]
    by (simp add: SPSC_State_init_def SPSC_init_def spsc_write_def spsc_sample_def e4)
  with r1 have r2: "spsc_reachable 2 False (spsc_sample (P_Publish True) C_Idle [] 0)" by (rule spsc_next)
  have "spsc_step 2 (spsc_sample (P_Publish True) C_Idle [] 0) (spsc_sample P_Idle C_Idle [True] 0)"
    using p_publish [of "spsc_sample (P_Publish True) C_Idle [] 0" True 2]
    by (simp add: spsc_sample_def next_simps)
  with r2 have r3: "spsc_reachable 2 False (spsc_sample P_Idle C_Idle [True] 0)" by (rule spsc_next)
  have "spsc_step 2 (spsc_sample P_Idle C_Idle [True] 0) (spsc_sample (P_Write False) C_Idle [True] 0)"
    using p_start_room [of "spsc_sample P_Idle C_Idle [True] 0" 2 False]
    by (simp add: spsc_sample_def next_simps)
  with r3 have r4: "spsc_reachable 2 False (spsc_sample (P_Write False) C_Idle [True] 0)" by (rule spsc_next)
  have "spsc_step 2 (spsc_sample (P_Write False) C_Idle [True] 0) (spsc_sample (P_Write False) C_Load [True] 0)"
    using c_start_empty [of "spsc_sample (P_Write False) C_Idle [True] 0" 2]
    by (simp add: spsc_sample_def)
  with r4 have r5: "spsc_reachable 2 False (spsc_sample (P_Write False) C_Load [True] 0)" by (rule spsc_next)
  have "spsc_step 2 (spsc_sample (P_Write False) C_Load [True] 0) (spsc_sample (P_Write False) C_Read [True] 1)"
    using c_load_some [of "spsc_sample (P_Write False) C_Load [True] 0" 1 _ 2]
    by (simp add: spsc_sample_def)
  with r5 show ?thesis by (rule spsc_next)
qed

theorem spsc_fifo_witness: "\<exists>rest. [True] = [] @ rest \<and> length rest < 2 ^ 2"
  using spsc_fifo [OF _ spsc_sample_reachable] by (simp add: spsc_sample_def)

theorem spsc_no_data_race_witness:
  "m_Head (ring (spsc_sample (P_Write False) C_Read [True] 1)) \<noteq>
   m_Tail (ring (spsc_sample (P_Write False) C_Read [True] 1))"
  using spsc_no_data_race [OF _ spsc_sample_reachable] by (simp add: spsc_sample_def)

end
