(* ===== verification/Decimal_Text.thy ===== *)
theory Decimal_Text
  imports Globals
begin

text \<open>
  Decimal texts: what \<^verbatim>\<open>std::to_string\<close>, \<^verbatim>\<open>std::format\<close> and a stream
  print for an integer, their inverses, and \<^verbatim>\<open>format_quantity\<close> of
  \<^verbatim>\<open>src/src/Core/globals.hpp\<close>.
\<close>

subsection \<open>Numbers\<close>

definition digit :: "nat \<Rightarrow> char" where
  "digit d = char_of (48 + d)"

fun show_nat :: "nat \<Rightarrow> string" where
  "show_nat n = (if n < 10 then [digit n] else show_nat (n div 10) @ [digit (n mod 10)])"

definition show_int :: "int \<Rightarrow> string" where
  "show_int i = (if i < 0 then CHR ''-'' # show_nat (nat (- i)) else show_nat (nat i))"

declare show_nat.simps [simp del]

definition read_nat :: "string \<Rightarrow> nat" where
  "read_nat s = foldl (\<lambda>n c. 10 * n + (of_char c - 48)) 0 s"

lemma of_char_digit [simp]: "d < 10 \<Longrightarrow> (of_char (digit d) :: nat) = 48 + d"
  by (simp add: digit_def)

lemma read_show_nat [simp]: "read_nat (show_nat n) = n"
  unfolding read_nat_def
proof (induction n rule: show_nat.induct)
  case (1 n)
  show ?case
  proof (cases "n < 10")
    case True
    then show ?thesis by (subst show_nat.simps) simp
  next
    case False
    with 1 show ?thesis by (subst show_nat.simps) simp
  qed
qed

lemma show_nat_digits: "c \<in> set (show_nat n) \<Longrightarrow> \<exists>d<10. c = digit d"
proof (induction n rule: show_nat.induct)
  case (1 n)
  show ?case
  proof (cases "n < 10")
    case True
    with "1.prems" show ?thesis by (subst (asm) show_nat.simps) auto
  next
    case False
    have "n mod 10 < 10" by simp
    moreover from "1.prems" False have "c \<in> set (show_nat (n div 10)) \<or> c = digit (n mod 10)"
      by (subst (asm) show_nat.simps) auto
    ultimately show ?thesis using "1.IH" [OF False] by blast
  qed
qed

lemma show_nat_not_Nil [simp]: "show_nat n \<noteq> []"
  by (subst show_nat.simps) simp

lemma show_nat_no_minus: "CHR ''-'' \<notin> set (show_nat n)"
proof
  assume "CHR ''-'' \<in> set (show_nat n)"
  then obtain d where "d < 10" "CHR ''-'' = digit d" using show_nat_digits by blast
  then have "(of_char (CHR ''-'') :: nat) = 48 + d" by simp
  then show False by simp
qed

definition read_int :: "string \<Rightarrow> int" where
  "read_int s = (case s of c # cs \<Rightarrow> if c = CHR ''-'' then - int (read_nat cs) else int (read_nat s) | [] \<Rightarrow> 0)"

lemma read_show_int [simp]: "read_int (show_int i) = i"
proof (cases "i < 0")
  case False
  obtain c cs where s: "show_nat (nat i) = c # cs" by (cases "show_nat (nat i)") auto
  then have "c \<noteq> CHR ''-''" using show_nat_no_minus [of "nat i"] by auto
  moreover have "read_nat (c # cs) = nat i" by (metis s read_show_nat)
  ultimately show ?thesis using False s by (simp add: read_int_def show_int_def)
qed (simp add: read_int_def show_int_def)

definition format_quantity :: "Quantity \<Rightarrow> string" where
  "format_quantity value = show_nat (unat value)"

text \<open>A quantity is shown without loss: reading the decimal digits gives it back, and equal
  texts mean equal quantities.\<close>

theorem format_quantity_roundtrip:
  "read_nat (format_quantity value) = unat value \<and>
   (format_quantity value = format_quantity value' \<longleftrightarrow> value = value')"
proof -
  have "unat value = unat value'" if "show_nat (unat value) = show_nat (unat value')"
    using arg_cong [OF that, of read_nat] by simp
  then show ?thesis by (auto simp: format_quantity_def word_unat_eq_iff)
qed

end
