(* ===== verification/Trading_Engine.thy ===== *)
theory Trading_Engine
  imports Book_Sample Thread_Safe_Queue Spsc_Ring Decimal_Text
begin

text \<open>
  \<^verbatim>\<open>src/src/Engine/TradingEngine.hpp\<close>: the engine object, the requests of its clients,
  its double-buffered snapshots, and the loop of its thread. The first part gives each member
  function as a function on the engine; the second the interleaving of the engine thread
  (\<open>run_step\<close>, one step per shared access of \<^verbatim>\<open>Run\<close>) with its clients, one thread that
  updates the snapshot and one that reads it (\<open>client_step\<close>).
\<close>

subsection \<open>The engine\<close>

text \<open>The two snapshots are reached through pointers that never change, so the active one is the
  index of its slot. \<open>k\<close> is the logarithm of \<^verbatim>\<open>EventCapacity\<close>.\<close>

record TradingEngine =
  m_Orderbook :: OrderBook
  m_CommandQueue :: "CommandPayload ThreadSafeQueue"
  m_EventQueue :: "EventPayload SPSC_Queue"
  m_Snapshots :: "OrderBookSnapshot list"
  m_ActiveSnapshot :: nat

definition empty_snapshot :: OrderBookSnapshot where
  "empty_snapshot = \<lparr>s_bids = [], s_asks = [], s_trades = []\<rparr>"

definition TradingEngine_init :: "nat \<Rightarrow> TradingEngine" where
  "TradingEngine_init k =
     \<lparr>m_Orderbook = OrderBook_init, m_CommandQueue = TSQ_init,
      m_EventQueue = SPSC_init k EventPayload_default,
      m_Snapshots = [empty_snapshot, empty_snapshot], m_ActiveSnapshot = 0\<rparr>"

text \<open>The factory's default \<^verbatim>\<open>EventCapacity\<close>, \<^verbatim>\<open>2 << 16\<close>, is \<open>2 ^ 17\<close>.\<close>

definition MakeTradingEngine :: TradingEngine where
  "MakeTradingEngine = TradingEngine_init 17"

text \<open>The requests: each builds its command and ignores what the queue answers.\<close>

definition submit :: "CommandPayload \<Rightarrow> TradingEngine \<Rightarrow> TradingEngine" where
  "submit cmd e = e\<lparr>m_CommandQueue := snd (push cmd (m_CommandQueue e))\<rparr>"

definition EngineAddOrder ::
  "ClientID \<Rightarrow> Price \<Rightarrow> Quantity \<Rightarrow> Side \<Rightarrow> OrderType \<Rightarrow> TimeInForce \<Rightarrow> MatchType \<Rightarrow> Flags \<Rightarrow>
   TradingEngine \<Rightarrow> TradingEngine" where
  "EngineAddOrder cid p q side ot tif mt f e = submit (MakeAdd cid p q side ot tif mt f) e"

definition EngineModifyOrder ::
  "ClientID \<Rightarrow> OrderID \<Rightarrow> Price \<Rightarrow> Quantity \<Rightarrow> TradingEngine \<Rightarrow> TradingEngine" where
  "EngineModifyOrder cid oid p q e = submit (MakeModify cid oid p q) e"

definition EngineCancelOrder :: "ClientID \<Rightarrow> OrderID \<Rightarrow> TradingEngine \<Rightarrow> TradingEngine" where
  "EngineCancelOrder cid oid e = submit (MakeCancel cid oid) e"

text \<open>Snapshots: the inactive slot is overwritten, then made the active one.\<close>

definition inactive_index :: "TradingEngine \<Rightarrow> nat" where
  "inactive_index e = (if m_ActiveSnapshot e = 0 then 1 else 0)"

definition write_snapshot :: "u32 \<Rightarrow> TradingEngine \<Rightarrow> TradingEngine" where
  "write_snapshot depth e =
     e\<lparr>m_Snapshots := (m_Snapshots e)[inactive_index e := GetSnapshot depth (m_Orderbook e)]\<rparr>"

definition UpdateSnapshot :: "u32 \<Rightarrow> TradingEngine \<Rightarrow> TradingEngine" where
  "UpdateSnapshot depth e = (write_snapshot depth e)\<lparr>m_ActiveSnapshot := inactive_index e\<rparr>"

definition EngineSnapshot :: "TradingEngine \<Rightarrow> OrderBookSnapshot" where
  "EngineSnapshot e = m_Snapshots e ! m_ActiveSnapshot e"

definition HandleEvent :: "EventPayload \<Rightarrow> TradingEngine \<Rightarrow> TradingEngine" where
  "HandleEvent event e =
     (case m_EventType event of
        Ev_OrderAccepted \<Rightarrow> e | Ev_OrderRejected \<Rightarrow> e | Ev_ModifyAccepted \<Rightarrow> e
      | Ev_ModifyRejected \<Rightarrow> e | Ev_CancelAccepted \<Rightarrow> e | Ev_CancelRejected \<Rightarrow> e
      | _ \<Rightarrow> e)"

text \<open>The two halves of an iteration of the loops of \<^verbatim>\<open>Run\<close>: taking a command, and
  applying it (in the last loop the events are dropped).\<close>

definition pop_command :: "TradingEngine \<Rightarrow> CommandPayload option \<times> TradingEngine" where
  "pop_command e = (let (r, q) = try_pop (m_CommandQueue e) in (r, e\<lparr>m_CommandQueue := q\<rparr>))"

definition apply_command :: "TimeNs \<Rightarrow> CommandPayload \<Rightarrow> TradingEngine \<Rightarrow> TradingEngine option" where
  "apply_command now cmd e = do {
     (events, b) \<leftarrow> Apply now cmd (m_Orderbook e);
     Some (fold HandleEvent events (e\<lparr>m_Orderbook := b\<rparr>)) }"

definition apply_last :: "TimeNs \<Rightarrow> CommandPayload \<Rightarrow> TradingEngine \<Rightarrow> TradingEngine option" where
  "apply_last now cmd e = do {
     (events, b) \<leftarrow> Apply now cmd (m_Orderbook e); Some (e\<lparr>m_Orderbook := b\<rparr>) }"

text \<open>What \<^verbatim>\<open>Run\<close> prints when it ends.\<close>

definition run_report :: "u64 \<Rightarrow> string" where
  "run_report processed = ''Orders processed: '' @ show_nat (unat processed) @ [CHR 0x0A]"

lemma HandleEvent_id [simp]: "HandleEvent event e = e"
  by (simp add: HandleEvent_def split: EventType.split)

lemma fold_HandleEvent [simp]: "fold HandleEvent events e = e"
  by (induction events) simp_all

lemma apply_last_same: "apply_last now cmd e = apply_command now cmd e"
  by (simp add: apply_last_def apply_command_def)

lemma apply_command_Some:
  "apply_command now cmd e = Some e' \<longleftrightarrow>
   (\<exists>events b. Apply now cmd (m_Orderbook e) = Some (events, b) \<and> e' = e\<lparr>m_Orderbook := b\<rparr>)"
  by (auto simp: apply_command_def split: Option.bind_splits)

lemma pop_command_None:
  "pop_command e = (None, e') \<longleftrightarrow> m_Queue (m_CommandQueue e) = [] \<and> e' = e"
  by (auto simp: pop_command_def try_pop_def split: list.splits)

lemma pop_command_Some:
  "pop_command e = (Some cmd, e') \<longleftrightarrow>
   (\<exists>rest. m_Queue (m_CommandQueue e) = cmd # rest \<and>
      e' = e\<lparr>m_CommandQueue := (m_CommandQueue e)\<lparr>m_Queue := rest\<rparr>\<rparr>)"
  by (auto simp: pop_command_def try_pop_def split: list.splits)

subsection \<open>Its threads\<close>

text \<open>\<open>run_at\<close> is where the engine thread is in \<^verbatim>\<open>Run\<close>: not started, at the test of
  the outer loop, at a pop of the inner loop (with \<^verbatim>\<open>processed_any\<close>), at an
  \<^verbatim>\<open>Apply\<close>, in the last loop, or done. The updater and the reader are the threads inside
  \<^verbatim>\<open>UpdateSnapshot\<close> and \<^verbatim>\<open>GetSnapshot\<close>. \<open>submitted\<close>,
  \<open>applied_cmds\<close> (with the clock reading each command saw) and \<open>reader_got\<close> record the
  history.\<close>

datatype run_pc = Run_Unstarted | Run_Test | Run_Pop bool | Run_Apply CommandPayload
  | Run_Drain | Run_Drain_Apply CommandPayload | Run_Done
datatype updater_pc = U_Idle | U_Write u32 | U_Publish nat
datatype reader_pc = R_Idle | R_Copy nat

record EngineState =
  engine :: TradingEngine
  run_at :: run_pc
  updater :: updater_pc
  reader :: reader_pc
  stop_requested :: bool
  orders_processed :: u64
  submitted :: "CommandPayload list"
  applied_cmds :: "(TimeNs \<times> CommandPayload) list"
  reader_got :: "OrderBookSnapshot option"

definition EngineState_init :: "nat \<Rightarrow> EngineState" where
  "EngineState_init k =
     \<lparr>engine = TradingEngine_init k, run_at = Run_Unstarted, updater = U_Idle, reader = R_Idle,
      stop_requested = False, orders_processed = 0, submitted = [], applied_cmds = [],
      reader_got = None\<rparr>"

text \<open>Two threads inside conflicting accesses are a data race, with undefined behaviour: such a
  state has no successor. Only this overlap is modelled, not the weaker orders the memory model
  would allow between accesses that do not overlap.\<close>

definition book_race :: "EngineState \<Rightarrow> bool" where
  "book_race s \<longleftrightarrow>
     (case updater s of U_Write _ \<Rightarrow>
        (case run_at s of Run_Apply _ \<Rightarrow> True | Run_Drain_Apply _ \<Rightarrow> True | _ \<Rightarrow> False)
      | _ \<Rightarrow> False)"

definition slot_race :: "EngineState \<Rightarrow> bool" where
  "slot_race s \<longleftrightarrow>
     (case (updater s, reader s) of (U_Write _, R_Copy i) \<Rightarrow> i = inactive_index (engine s) | _ \<Rightarrow> False)"

definition racing :: "EngineState \<Rightarrow> bool" where
  "racing s \<longleftrightarrow> book_race s \<or> slot_race s"

inductive run_step :: "EngineState \<Rightarrow> EngineState \<Rightarrow> bool" where
  run_enter: "\<not> racing s \<Longrightarrow> run_at s = Run_Test \<Longrightarrow> \<not> stop_requested s \<Longrightarrow>
    run_step s (s\<lparr>run_at := Run_Pop False\<rparr>)"
| run_leave: "\<not> racing s \<Longrightarrow> run_at s = Run_Test \<Longrightarrow> stop_requested s \<Longrightarrow>
    run_step s (s\<lparr>run_at := Run_Drain\<rparr>)"
| run_pop: "\<not> racing s \<Longrightarrow> run_at s = Run_Pop any \<Longrightarrow> pop_command (engine s) = (Some cmd, e) \<Longrightarrow>
    run_step s (s\<lparr>engine := e, run_at := Run_Apply cmd, orders_processed := orders_processed s + 1\<rparr>)"
| run_apply: "\<not> racing s \<Longrightarrow> run_at s = Run_Apply cmd \<Longrightarrow> apply_command now cmd (engine s) = Some e \<Longrightarrow>
    run_step s (s\<lparr>engine := e, run_at := Run_Pop True, applied_cmds := applied_cmds s @ [(now, cmd)]\<rparr>)"
| run_idle: "\<not> racing s \<Longrightarrow> run_at s = Run_Pop any \<Longrightarrow> pop_command (engine s) = (None, e) \<Longrightarrow>
    run_step s (s\<lparr>engine := e, run_at := Run_Test\<rparr>)"
| run_drain: "\<not> racing s \<Longrightarrow> run_at s = Run_Drain \<Longrightarrow> pop_command (engine s) = (Some cmd, e) \<Longrightarrow>
    run_step s (s\<lparr>engine := e, run_at := Run_Drain_Apply cmd\<rparr>)"
| run_drain_apply: "\<not> racing s \<Longrightarrow> run_at s = Run_Drain_Apply cmd \<Longrightarrow>
    apply_last now cmd (engine s) = Some e \<Longrightarrow>
    run_step s (s\<lparr>engine := e, run_at := Run_Drain, applied_cmds := applied_cmds s @ [(now, cmd)]\<rparr>)"
| run_exit: "\<not> racing s \<Longrightarrow> run_at s = Run_Drain \<Longrightarrow> pop_command (engine s) = (None, e) \<Longrightarrow>
    run_step s (s\<lparr>engine := e, run_at := Run_Done\<rparr>)"

text \<open>\<^verbatim>\<open>Start\<close> may be called again once the thread has returned: it gets a new thread with
  a stop request of its own. Calling it while the thread runs is in the theory on restarts.\<close>

inductive client_step :: "EngineState \<Rightarrow> EngineState \<Rightarrow> bool" where
  cl_start: "\<not> racing s \<Longrightarrow> run_at s = Run_Unstarted \<Longrightarrow> client_step s (s\<lparr>run_at := Run_Test\<rparr>)"
| cl_restart: "\<not> racing s \<Longrightarrow> run_at s = Run_Done \<Longrightarrow>
    client_step s (s\<lparr>run_at := Run_Test, stop_requested := False\<rparr>)"
| cl_stop: "\<not> racing s \<Longrightarrow> client_step s (s\<lparr>stop_requested := run_at s \<noteq> Run_Unstarted\<rparr>)"
| cl_add: "\<not> racing s \<Longrightarrow>
    client_step s (s\<lparr>engine := EngineAddOrder cid p q side ot tif mt f (engine s),
      submitted := submitted s @ [MakeAdd cid p q side ot tif mt f]\<rparr>)"
| cl_modify: "\<not> racing s \<Longrightarrow>
    client_step s (s\<lparr>engine := EngineModifyOrder cid oid p q (engine s),
      submitted := submitted s @ [MakeModify cid oid p q]\<rparr>)"
| cl_cancel: "\<not> racing s \<Longrightarrow>
    client_step s (s\<lparr>engine := EngineCancelOrder cid oid (engine s),
      submitted := submitted s @ [MakeCancel cid oid]\<rparr>)"
| cl_update: "\<not> racing s \<Longrightarrow> updater s = U_Idle \<Longrightarrow> client_step s (s\<lparr>updater := U_Write depth\<rparr>)"
| cl_write: "\<not> racing s \<Longrightarrow> updater s = U_Write depth \<Longrightarrow>
    client_step s (s\<lparr>engine := write_snapshot depth (engine s),
      updater := U_Publish (inactive_index (engine s))\<rparr>)"
| cl_publish: "\<not> racing s \<Longrightarrow> updater s = U_Publish i \<Longrightarrow>
    client_step s (s\<lparr>engine := (engine s)\<lparr>m_ActiveSnapshot := i\<rparr>, updater := U_Idle\<rparr>)"
| cl_load: "\<not> racing s \<Longrightarrow> reader s = R_Idle \<Longrightarrow>
    client_step s (s\<lparr>reader := R_Copy (m_ActiveSnapshot (engine s))\<rparr>)"
| cl_copy: "\<not> racing s \<Longrightarrow> reader s = R_Copy i \<Longrightarrow>
    client_step s (s\<lparr>reader := R_Idle, reader_got := Some (m_Snapshots (engine s) ! i)\<rparr>)"

inductive engine_reachable :: "nat \<Rightarrow> EngineState \<Rightarrow> bool" for k where
  engine_start: "engine_reachable k (EngineState_init k)"
| engine_run: "engine_reachable k s \<Longrightarrow> run_step s s' \<Longrightarrow> engine_reachable k s'"
| engine_client: "engine_reachable k s \<Longrightarrow> client_step s s' \<Longrightarrow> engine_reachable k s'"


subsection \<open>Invariant\<close>

fun in_hand :: "run_pc \<Rightarrow> CommandPayload list" where
  "in_hand (Run_Apply cmd) = [cmd]"
| "in_hand (Run_Drain_Apply cmd) = [cmd]"
| "in_hand _ = []"

abbreviation pending :: "EngineState \<Rightarrow> CommandPayload list" where
  "pending s \<equiv> in_hand (run_at s) @ m_Queue (m_CommandQueue (engine s))"

definition past_snapshot :: "(TimeNs \<times> CommandPayload) list \<Rightarrow> OrderBookSnapshot \<Rightarrow> bool" where
  "past_snapshot cmds sn \<longleftrightarrow> sn = empty_snapshot \<or>
     (\<exists>depth xs ys evss b. cmds = xs @ ys \<and> apply_all xs OrderBook_init = Some (evss, b) \<and>
        sn = GetSnapshot depth b)"

lemma past_snapshot_append: "past_snapshot cmds sn \<Longrightarrow> past_snapshot (cmds @ later) sn"
  unfolding past_snapshot_def by (metis append.assoc)

lemma past_snapshot_now: "apply_all cmds OrderBook_init = Some (evss, b) \<Longrightarrow>
    past_snapshot cmds (GetSnapshot depth b)"
  unfolding past_snapshot_def by (metis append_Nil2)

text \<open>The command queue loses, repeats and reorders nothing, and the book is the fold of the applied
  commands; the snapshots are those of earlier books.\<close>

definition queue_inv :: "EngineState \<Rightarrow> bool" where
  "queue_inv s \<longleftrightarrow> \<not> m_Closed (m_CommandQueue (engine s)) \<and>
     (stop_requested s \<longrightarrow> run_at s \<noteq> Run_Unstarted) \<and>
     submitted s = map snd (applied_cmds s) @ pending s \<and>
     (\<forall>cmd\<in>set (submitted s). command_ok cmd) \<and>
     (\<exists>evss. apply_all (applied_cmds s) OrderBook_init = Some (evss, m_Orderbook (engine s)))"

definition snapshot_inv :: "EngineState \<Rightarrow> bool" where
  "snapshot_inv s \<longleftrightarrow> length (m_Snapshots (engine s)) = 2 \<and> m_ActiveSnapshot (engine s) < 2 \<and>
     (\<forall>sn\<in>set (m_Snapshots (engine s)). past_snapshot (applied_cmds s) sn) \<and>
     (case updater s of U_Publish i \<Rightarrow> i < 2 | _ \<Rightarrow> True) \<and>
     (case reader s of R_Copy i \<Rightarrow> i < 2 | _ \<Rightarrow> True) \<and>
     (\<forall>sn\<in>set_option (reader_got s). past_snapshot (applied_cmds s) sn)"

lemma apply_all_snoc:
  assumes "apply_all xs OrderBook_init = Some (evss, b)" and "Apply now cmd b = Some (evs, b')"
  shows "apply_all (xs @ [(now, cmd)]) OrderBook_init = Some (evss @ [evs], b')"
  using assms by (simp add: apply_all_append)

lemma submit_simps [simp]:
  "m_Orderbook (submit cmd e) = m_Orderbook e" "m_Snapshots (submit cmd e) = m_Snapshots e"
  "m_ActiveSnapshot (submit cmd e) = m_ActiveSnapshot e" "m_EventQueue (submit cmd e) = m_EventQueue e"
  "m_Closed (m_CommandQueue (submit cmd e)) = m_Closed (m_CommandQueue e)"
  by (simp_all add: submit_def)

lemmas engine_requests = EngineAddOrder_def EngineModifyOrder_def EngineCancelOrder_def

lemma queue_inv_submit:
  "queue_inv s \<Longrightarrow> command_ok cmd \<Longrightarrow>
   queue_inv (s\<lparr>engine := submit cmd (engine s), submitted := submitted s @ [cmd]\<rparr>)"
  by (auto simp: queue_inv_def submit_def)

lemma queue_inv_apply:
  assumes "queue_inv s" and "in_hand (run_at s) = [cmd]" and "apply_command now cmd (engine s) = Some e"
    and "in_hand pc = []" and "pc \<noteq> Run_Unstarted"
  shows "queue_inv (s\<lparr>engine := e, run_at := pc, applied_cmds := applied_cmds s @ [(now, cmd)]\<rparr>)"
proof -
  from assms(3) obtain events b where ap: "Apply now cmd (m_Orderbook (engine s)) = Some (events, b)"
    and e: "e = (engine s)\<lparr>m_Orderbook := b\<rparr>"
    by (auto simp: apply_command_Some)
  from assms(1) obtain evss where "apply_all (applied_cmds s) OrderBook_init = Some (evss, m_Orderbook (engine s))"
    by (auto simp: queue_inv_def)
  from apply_all_snoc [OF this ap] show ?thesis
    using assms(1,2,4,5) by (simp add: queue_inv_def e)
qed

lemma queue_inv_pop:
  assumes "queue_inv s" and "in_hand (run_at s) = []" and "pop_command (engine s) = (r, e)"
    and "in_hand pc = (case r of Some cmd \<Rightarrow> [cmd] | None \<Rightarrow> [])" and "pc \<noteq> Run_Unstarted"
  shows "queue_inv (s\<lparr>engine := e, run_at := pc\<rparr>)"
  using assms by (cases r) (auto simp: queue_inv_def pop_command_None pop_command_Some)

lemma queue_inv_processed [simp]: "queue_inv (s\<lparr>orders_processed := n\<rparr>) = queue_inv s"
  by (simp add: queue_inv_def)

lemma queue_inv_run: "run_step s s' \<Longrightarrow> queue_inv s \<Longrightarrow> queue_inv s'"
proof (induction rule: run_step.induct)
  case (run_pop s any cmd e)
  then have "queue_inv (s\<lparr>engine := e, run_at := Run_Apply cmd\<rparr>)" by (intro queue_inv_pop) auto
  then show ?case by (simp add: queue_inv_def)
next
  case (run_apply s cmd now e)
  then show ?case by (intro queue_inv_apply) auto
next
  case (run_idle s any e)
  then show ?case by (intro queue_inv_pop) auto
next
  case (run_drain s cmd e)
  then show ?case by (intro queue_inv_pop) auto
next
  case (run_drain_apply s cmd now e)
  then show ?case by (intro queue_inv_apply) (auto simp: apply_last_same)
next
  case (run_exit s e)
  then show ?case by (intro queue_inv_pop) auto
qed (simp_all add: queue_inv_def)

lemma queue_inv_client: "client_step s s' \<Longrightarrow> queue_inv s \<Longrightarrow> queue_inv s'"
proof (induction rule: client_step.induct)
  case (cl_add s cid p q side ot tif mt f)
  then show ?case using queue_inv_submit [OF cl_add(2)] by (simp add: engine_requests)
next
  case (cl_modify s cid oid p q)
  then show ?case using queue_inv_submit [OF cl_modify(2)] by (simp add: engine_requests)
next
  case (cl_cancel s cid oid)
  then show ?case using queue_inv_submit [OF cl_cancel(2)] by (simp add: engine_requests)
qed (auto simp: queue_inv_def write_snapshot_def)

lemma snapshot_inv_run: "run_step s s' \<Longrightarrow> snapshot_inv s \<Longrightarrow> snapshot_inv s'"
  by (induction rule: run_step.induct)
    (auto simp: snapshot_inv_def pop_command_None pop_command_Some apply_command_Some apply_last_same
      intro: past_snapshot_append)

lemma snapshot_inv_client:
  "client_step s s' \<Longrightarrow> queue_inv s \<Longrightarrow> snapshot_inv s \<Longrightarrow> snapshot_inv s'"
proof (induction rule: client_step.induct)
  case (cl_write s depth)
  then obtain evss where "apply_all (applied_cmds s) OrderBook_init = Some (evss, m_Orderbook (engine s))"
    by (auto simp: queue_inv_def)
  from past_snapshot_now [OF this] cl_write show ?case
    by (auto simp: snapshot_inv_def write_snapshot_def inactive_index_def dest!: set_update_subset_insert [THEN subsetD])
qed (auto simp: snapshot_inv_def engine_requests)

lemma engine_inv:
  assumes "engine_reachable k s"
  shows "queue_inv s \<and> snapshot_inv s"
  using assms
proof induction
  case engine_start
  show ?case
    by (simp add: queue_inv_def snapshot_inv_def EngineState_init_def TradingEngine_init_def TSQ_init_def
        past_snapshot_def)
qed (auto intro: queue_inv_run queue_inv_client snapshot_inv_run snapshot_inv_client)


lemma event_queue_untouched:
  assumes "engine_reachable k s"
  shows "m_EventQueue (engine s) = SPSC_init k EventPayload_default"
  using assms
proof induction
  case engine_start
  show ?case by (simp add: EngineState_init_def TradingEngine_init_def)
next
  case (engine_run s s')
  from engine_run(2,3) show ?case
    by (induction rule: run_step.induct)
      (auto simp: pop_command_None pop_command_Some apply_command_Some apply_last_same)
next
  case (engine_client s s')
  from engine_client(2,3) show ?case
    by (induction rule: client_step.induct) (auto simp: engine_requests write_snapshot_def)
qed

subsection \<open>Stopping\<close>

text \<open>The steps the engine thread has left once a stop is requested.\<close>

fun run_rank :: "run_pc \<Rightarrow> nat" where
  "run_rank Run_Unstarted = 0"
| "run_rank Run_Test = 2"
| "run_rank (Run_Pop any) = 3"
| "run_rank (Run_Apply cmd) = 4"
| "run_rank Run_Drain = 1"
| "run_rank (Run_Drain_Apply cmd) = 2"
| "run_rank Run_Done = 0"

definition run_left :: "EngineState \<Rightarrow> nat" where
  "run_left s = 2 * length (m_Queue (m_CommandQueue (engine s))) + run_rank (run_at s)"

definition stopping :: "EngineState \<Rightarrow> bool" where
  "stopping s \<longleftrightarrow> stop_requested s \<and>
     (run_at s = Run_Done \<longrightarrow> m_Queue (m_CommandQueue (engine s)) = [])"

lemma run_step_stopping:
  "run_step s s' \<Longrightarrow> stopping s \<Longrightarrow> stopping s' \<and> run_left s' < run_left s"
  by (induction rule: run_step.induct)
    (auto simp: stopping_def run_left_def pop_command_None pop_command_Some apply_command_Some apply_last_same)

lemma run_steps_stopping:
  "(run_step ^^ n) s s' \<Longrightarrow> stopping s \<Longrightarrow> stopping s' \<and> n + run_left s' \<le> run_left s"
proof (induction n arbitrary: s')
  case (Suc n)
  then obtain t where "(run_step ^^ n) s t" "run_step t s'" by auto
  with Suc.IH [of t] run_step_stopping [of t s'] Suc.prems(2) show ?case by auto
qed simp

lemma run_step_frame: "run_step s s' \<Longrightarrow> updater s' = updater s \<and> stop_requested s' = stop_requested s"
  by (induction rule: run_step.induct) simp_all

lemma run_steps_frame: "(run_step ^^ n) s s' \<Longrightarrow> updater s' = updater s \<and> stop_requested s' = stop_requested s"
proof (induction n arbitrary: s')
  case (Suc n)
  then obtain t where "(run_step ^^ n) s t" "run_step t s'" by auto
  with Suc.IH run_step_frame show ?case by metis
qed simp

lemma racing_writes: "racing s \<Longrightarrow> \<exists>depth. updater s = U_Write depth"
  by (auto simp: racing_def book_race_def slot_race_def split: updater_pc.splits)

lemma run_steps_reachable: "(run_step ^^ n) s s' \<Longrightarrow> engine_reachable k s \<Longrightarrow> engine_reachable k s'"
  by (induction n arbitrary: s') (auto intro: engine_run)

lemma run_step_progress:
  assumes "stopping s" and "queue_inv s"
  shows "(\<exists>s'. run_step s s') \<or> run_at s = Run_Done \<or> racing s \<or>
    (\<exists>cmd. in_hand (run_at s) = [cmd] \<and> (\<forall>now. Apply now cmd (m_Orderbook (engine s)) = None))"
proof (cases "racing s")
  case nr: False
  obtain r e where pop: "pop_command (engine s) = (r, e)" by fastforce
  have app: "(\<exists>now e. apply_command now cmd (engine s) = Some e) \<or>
      (\<forall>now. Apply now cmd (m_Orderbook (engine s)) = None)" for cmd
    unfolding apply_command_Some by (metis not_None_eq surj_pair)
  show ?thesis
  proof (cases "run_at s")
    case Run_Unstarted
    then show ?thesis using assms by (simp add: stopping_def queue_inv_def)
  next
    case Run_Test
    with assms(1) have "run_step s (s\<lparr>run_at := Run_Drain\<rparr>)"
      by (intro run_leave nr) (auto simp: stopping_def)
    then show ?thesis by blast
  next
    case (Run_Pop any)
    with pop show ?thesis by (cases r) (auto intro: run_pop [OF nr] run_idle [OF nr])
  next
    case Run_Drain
    with pop show ?thesis by (cases r) (auto intro: run_drain [OF nr] run_exit [OF nr])
  next
    case (Run_Apply cmd)
    with app [of cmd] show ?thesis by (auto intro: run_apply [OF nr])
  next
    case (Run_Drain_Apply cmd)
    with app [of cmd] run_drain_apply [OF nr Run_Drain_Apply] show ?thesis by (auto simp: apply_last_same)
  qed simp
qed simp


subsection \<open>Properties\<close>

text \<open>C28: commands are applied in the order in which they were submitted, one at a time and each
  once. In every interleaving of the clients, the snapshot threads and the engine thread, the
  submitted commands are the applied ones followed by the one in hand and those in the queue, and
  the book is the result of applying them in turn to an empty book.\<close>

theorem commands_applied_in_order:
  assumes "engine_reachable k s"
  shows "submitted s = map snd (applied_cmds s) @ pending s \<and>
    (\<exists>evss. apply_all (applied_cmds s) OrderBook_init = Some (evss, m_Orderbook (engine s)))"
  using engine_inv [OF assms] by (simp add: queue_inv_def)

lemma engine_started: "engine_reachable k ((EngineState_init k)\<lparr>run_at := Run_Test\<rparr>)"
proof -
  have "client_step (EngineState_init k) ((EngineState_init k)\<lparr>run_at := Run_Test\<rparr>)"
    by (rule cl_start) (simp_all add: EngineState_init_def racing_def book_race_def slot_race_def)
  with engine_start show ?thesis by (rule engine_client)
qed

definition engine_sample :: EngineState where
  "engine_sample = (EngineState_init 17)\<lparr>run_at := Run_Test, stop_requested := True,
     engine := submit (MakeCancel 1 7) (TradingEngine_init 17), submitted := [MakeCancel 1 7]\<rparr>"

lemma engine_sample_reachable: "engine_reachable 17 engine_sample"
proof -
  let ?s = "(EngineState_init 17)\<lparr>run_at := Run_Test\<rparr>"
  note facts = EngineState_init_def racing_def book_race_def slot_race_def EngineCancelOrder_def engine_sample_def
  have "client_step ?s (?s\<lparr>engine := submit (MakeCancel 1 7) (TradingEngine_init 17),
      submitted := [MakeCancel 1 7]\<rparr>)" (is "client_step _ ?t")
    using cl_cancel [of ?s 1 7] by (simp add: facts)
  with engine_started have r: "engine_reachable 17 ?t" by (rule engine_client)
  have "client_step ?t engine_sample" using cl_stop [of ?t] by (simp add: facts)
  with r show ?thesis by (rule engine_client)
qed

theorem commands_applied_in_order_witness:
  "submitted engine_sample = [MakeCancel 1 7] \<and>
   submitted engine_sample = map snd (applied_cmds engine_sample) @ pending engine_sample"
  using commands_applied_in_order [OF engine_sample_reachable] by (simp add: engine_sample_def)

text \<open>C29: whatever the clients send and however the threads interleave, the engine's book is a
  reachable one: its structure is consistent and no bid meets an ask, as long as fewer than
  \<open>2 ^ 64 - 1\<close> commands have been applied.\<close>

theorem engine_book_uncrossed:
  assumes "engine_reachable k s" and "length (applied_cmds s) < 2 ^ 64 - 1"
  shows "reachable (m_Orderbook (engine s)) \<and> book_wf (m_Orderbook (engine s)) \<and>
    (\<forall>bid\<in>set (queue Buy (m_Orderbook (engine s))). \<forall>ask\<in>set (queue Sell (m_Orderbook (engine s))).
       m_Price bid <s m_Price ask)"
proof -
  from engine_inv [OF assms(1)] obtain evss
    where ap: "apply_all (applied_cmds s) OrderBook_init = Some (evss, m_Orderbook (engine s))"
      and ok: "\<forall>cmd\<in>set (map snd (applied_cmds s)). command_ok cmd"
    by (auto simp: queue_inv_def)
  from assms(2) have "unat (m_OrderCounter OrderBook_init) + length (applied_cmds s) < 2 ^ 64"
    by (simp add: OrderBook_init_def)
  from apply_all_reachable [OF ap reachable.init ok this]
  have r: "reachable (m_Orderbook (engine s))" .
  with reachable_inv [OF r] show ?thesis by (simp add: uncrossed_def)
qed

theorem engine_book_uncrossed_witness: "reachable (m_Orderbook (engine engine_sample))"
  using engine_book_uncrossed [OF engine_sample_reachable]
  by (simp add: engine_sample_def EngineState_init_def)

text \<open>C32: once a stop is requested, the engine thread finishes. From every reachable state in which it has
  not ended it takes by itself at most two steps for each queued command and four more. It can only come to rest at the
  end of \<^verbatim>\<open>Run\<close>, with every submitted command applied and the queue empty, at a
  command whose \<^verbatim>\<open>Apply\<close> has no defined result, or in a data race with a client
  that is overwriting a snapshot; when no snapshot is being taken the last cannot happen.\<close>

theorem stop_drains_queue:
  assumes "engine_reachable k s" and "stop_requested s" and "run_at s \<noteq> Run_Done" and "(run_step ^^ n) s s'"
  shows "n \<le> 2 * length (m_Queue (m_CommandQueue (engine s))) + 4 \<and>
    ((\<exists>s''. run_step s' s'') \<or>
     run_at s' = Run_Done \<and> submitted s' = map snd (applied_cmds s') \<and>
       m_Queue (m_CommandQueue (engine s')) = [] \<or>
     (\<exists>cmd. in_hand (run_at s') = [cmd] \<and> (\<forall>now. Apply now cmd (m_Orderbook (engine s')) = None)) \<or>
     racing s' \<and> (\<exists>depth. updater s = U_Write depth))"
proof -
  have "stopping s" using assms(2,3) by (simp add: stopping_def)
  from run_steps_stopping [OF assms(4) this] have st: "stopping s'" and n: "n \<le> run_left s" by auto
  have "run_rank (run_at s) \<le> 4" by (cases "run_at s") simp_all
  with n have "n \<le> 2 * length (m_Queue (m_CommandQueue (engine s))) + 4" by (simp add: run_left_def)
  moreover have inv: "queue_inv s'" using engine_inv run_steps_reachable [OF assms(4,1)] by blast
  moreover have "run_at s' = Run_Done \<Longrightarrow>
      submitted s' = map snd (applied_cmds s') \<and> m_Queue (m_CommandQueue (engine s')) = []"
    using inv st by (auto simp: queue_inv_def stopping_def)
  moreover have "racing s' \<Longrightarrow> \<exists>depth. updater s = U_Write depth"
    using racing_writes run_steps_frame [OF assms(4)] by metis
  ultimately show ?thesis using run_step_progress [OF st inv] by metis
qed

theorem stop_drains_queue_witness:
  "\<exists>s''. run_step (engine_sample\<lparr>run_at := Run_Drain\<rparr>) s''"
proof -
  note facts = engine_sample_def EngineState_init_def
  have st: "run_step engine_sample (engine_sample\<lparr>run_at := Run_Drain\<rparr>)"
    by (rule run_leave) (simp_all add: facts racing_def book_race_def slot_race_def)
  have "(run_step ^^ 1) engine_sample (engine_sample\<lparr>run_at := Run_Drain\<rparr>)"
    using st by (simp only: relpowp_1)
  from stop_drains_queue [OF engine_sample_reachable _ _ this] show ?thesis
    by (simp add: facts)
qed

text \<open>The commands taken after the stop are applied but not counted: the report of this run is that
  no order was processed.\<close>

theorem report_misses_drained_commands:
  "\<exists>s. engine_reachable 17 s \<and> run_at s = Run_Done \<and> map snd (applied_cmds s) = [MakeCancel 1 7] \<and>
     run_report (orders_processed s) = ''Orders processed: 0'' @ [CHR 0x0A]"
proof -
  note facts = engine_sample_def EngineState_init_def TradingEngine_init_def TSQ_init_def push_def submit_def
    pop_command_Some pop_command_None apply_last_same apply_command_Some racing_def book_race_def slot_race_def
  let ?cmd = "MakeCancel 1 7" and ?e = "TradingEngine_init 17"
  have "map_option (\<lambda>(evs, b). True) (Apply 0 ?cmd OrderBook_init) = Some True" by code_simp
  then obtain evs b where ap: "Apply 0 ?cmd OrderBook_init = Some (evs, b)" by auto
  let ?s1 = "engine_sample\<lparr>run_at := Run_Drain\<rparr>"
  let ?s2 = "engine_sample\<lparr>engine := ?e, run_at := Run_Drain_Apply ?cmd\<rparr>"
  let ?s3 = "engine_sample\<lparr>engine := ?e\<lparr>m_Orderbook := b\<rparr>, run_at := Run_Drain, applied_cmds := [(0, ?cmd)]\<rparr>"
  let ?s4 = "?s3\<lparr>run_at := Run_Done\<rparr>"
  have "run_step engine_sample ?s1" by (rule run_leave) (simp_all add: facts)
  with engine_sample_reachable have "engine_reachable 17 ?s1" by (rule engine_run)
  moreover have "run_step ?s1 ?s2" using run_drain [of ?s1 ?cmd ?e] by (simp add: facts)
  ultimately have "engine_reachable 17 ?s2" by (rule engine_run)
  moreover have "run_step ?s2 ?s3"
    using run_drain_apply [of ?s2 ?cmd 0 "?e\<lparr>m_Orderbook := b\<rparr>"] ap by (simp add: facts)
  ultimately have "engine_reachable 17 ?s3" by (rule engine_run)
  moreover have "run_step ?s3 ?s4" using run_exit [of ?s3 "engine ?s3"] by (simp add: facts)
  ultimately have "engine_reachable 17 ?s4" by (rule engine_run)
  then show ?thesis
    by (intro exI [of _ ?s4]) (simp add: engine_sample_def EngineState_init_def run_report_def show_nat.simps digit_def
      char_of_def bit_simps bit_Suc)
qed

text \<open>C33: a snapshot that a client obtained shows either no book at all, or the book as it was after
  some prefix of the commands applied so far; it never mixes two of them as long as no thread
  overlaps another's access. There are always two slots, and the active one, the one about to be
  published and the one being copied are among them.\<close>

theorem snapshot_is_a_past_book:
  assumes "engine_reachable k s"
  shows "length (m_Snapshots (engine s)) = 2 \<and> m_ActiveSnapshot (engine s) < 2 \<and>
    (\<forall>i. updater s = U_Publish i \<longrightarrow> i < 2) \<and> (\<forall>i. reader s = R_Copy i \<longrightarrow> i < 2) \<and>
    (\<forall>sn. reader_got s = Some sn \<longrightarrow> sn = empty_snapshot \<or>
      (\<exists>depth xs ys evss b. applied_cmds s = xs @ ys \<and> apply_all xs OrderBook_init = Some (evss, b) \<and>
         sn = GetSnapshot depth b))"
  using engine_inv [OF assms] by (auto simp: snapshot_inv_def past_snapshot_def)

text \<open>One order goes in and is applied; then the snapshot is updated and read.\<close>

definition frame_applied :: "CommandPayload \<Rightarrow> OrderBook \<Rightarrow> EngineState" where
  "frame_applied cmd b = (EngineState_init 17)\<lparr>engine := (TradingEngine_init 17)\<lparr>m_Orderbook := b\<rparr>,
     run_at := Run_Pop True, orders_processed := 1, submitted := [cmd], applied_cmds := [(0, cmd)]\<rparr>"

lemmas frame_facts = EngineState_init_def TradingEngine_init_def TSQ_init_def push_def submit_def
  EngineAddOrder_def pop_command_Some apply_command_Some racing_def book_race_def slot_race_def
  write_snapshot_def inactive_index_def frame_applied_def

lemma frame_applied_reachable:
  assumes cmd: "cmd = MakeAdd cid p q sd Limit GTC Standard Flags_None"
    and ap: "Apply 0 cmd OrderBook_init = Some (evs, b)"
  shows "engine_reachable 17 (frame_applied cmd b)"
proof -
  let ?s = "(EngineState_init 17)\<lparr>run_at := Run_Test\<rparr>"
  let ?e = "TradingEngine_init 17"
  let ?s1 = "?s\<lparr>engine := submit cmd ?e, submitted := [cmd]\<rparr>"
  let ?s2 = "?s1\<lparr>run_at := Run_Pop False\<rparr>"
  let ?s3 = "?s1\<lparr>engine := ?e, run_at := Run_Apply cmd, orders_processed := 1\<rparr>"
  have "client_step ?s ?s1"
    using cl_add [of ?s cid p q sd Limit GTC Standard Flags_None] by (simp add: frame_facts cmd)
  with engine_started have "engine_reachable 17 ?s1" by (rule engine_client)
  moreover have "run_step ?s1 ?s2" using run_enter [of ?s1] by (simp add: frame_facts)
  ultimately have "engine_reachable 17 ?s2" by (rule engine_run)
  moreover have "run_step ?s2 ?s3" using run_pop [of ?s2 False cmd ?e] by (simp add: frame_facts)
  ultimately have "engine_reachable 17 ?s3" by (rule engine_run)
  moreover have "run_step ?s3 (frame_applied cmd b)"
    using run_apply [of ?s3 cmd 0 "?e\<lparr>m_Orderbook := b\<rparr>"] ap by (simp add: frame_facts)
  ultimately show ?thesis by (rule engine_run)
qed

lemma frame_taken:
  assumes "engine_reachable 17 (frame_applied cmd b)"
  shows "engine_reachable 17 ((frame_applied cmd b)\<lparr>engine := UpdateSnapshot depth (engine (frame_applied cmd b)),
    reader_got := Some (GetSnapshot depth b)\<rparr>)"
proof -
  let ?s4 = "frame_applied cmd b"
  let ?s5 = "?s4\<lparr>updater := U_Write depth\<rparr>"
  let ?s6 = "?s4\<lparr>engine := write_snapshot depth (engine ?s4), updater := U_Publish 1\<rparr>"
  let ?s7 = "?s4\<lparr>engine := UpdateSnapshot depth (engine ?s4)\<rparr>"
  let ?s8 = "?s7\<lparr>reader := R_Copy 1\<rparr>"
  have "client_step ?s4 ?s5" using cl_update [of ?s4 depth] by (simp add: frame_facts)
  with assms have "engine_reachable 17 ?s5" by (rule engine_client)
  moreover have "client_step ?s5 ?s6" using cl_write [of ?s5 depth] by (simp add: frame_facts)
  ultimately have "engine_reachable 17 ?s6" by (rule engine_client)
  moreover have "client_step ?s6 ?s7" using cl_publish [of ?s6 1] by (simp add: frame_facts UpdateSnapshot_def)
  ultimately have "engine_reachable 17 ?s7" by (rule engine_client)
  moreover have "client_step ?s7 ?s8" using cl_load [of ?s7] by (simp add: frame_facts UpdateSnapshot_def)
  ultimately have "engine_reachable 17 ?s8" by (rule engine_client)
  moreover have "client_step ?s8 (?s7\<lparr>reader_got := Some (GetSnapshot depth b)\<rparr>)"
    using cl_copy [of ?s8 1] by (simp add: frame_facts UpdateSnapshot_def)
  ultimately show ?thesis by (rule engine_client)
qed

text \<open>A sell order is applied, and the snapshot that is then taken and read shows it.\<close>

theorem snapshot_is_a_past_book_witness:
  "\<exists>depth xs ys evss b. [(0, MakeAdd 5 95 3 Sell Limit GTC Standard Flags_None)] = xs @ ys \<and>
     apply_all xs OrderBook_init = Some (evss, b) \<and>
     \<lparr>s_bids = [], s_asks = [\<lparr>s_price = 95, s_quantity = 3\<rparr>], s_trades = []\<rparr> = GetSnapshot depth b"
proof -
  let ?cmd = "MakeAdd 5 95 3 Sell Limit GTC Standard Flags_None"
  let ?frame = "\<lparr>s_bids = [], s_asks = [\<lparr>s_price = 95, s_quantity = 3\<rparr>], s_trades = []\<rparr>"
  have "map_option (\<lambda>(evs, b). GetSnapshot 10 b = ?frame) (Apply 0 ?cmd OrderBook_init) = Some True"
    by code_simp
  from map_fst_Some [OF this] obtain evs b where ap: "Apply 0 ?cmd OrderBook_init = Some (evs, b)"
    and snap: "GetSnapshot 10 b = ?frame" by auto
  let ?s = "(frame_applied ?cmd b)\<lparr>engine := UpdateSnapshot 10 (engine (frame_applied ?cmd b)),
    reader_got := Some ?frame\<rparr>"
  have s: "engine_reachable 17 ?s"
    using frame_taken [OF frame_applied_reachable [OF refl ap], of 10] snap by simp
  have got: "reader_got ?s = Some ?frame" and app: "applied_cmds ?s = [(0, ?cmd)]"
    by (simp_all add: frame_applied_def)
  have ne: "?frame \<noteq> empty_snapshot" by (simp add: empty_snapshot_def)
  from snapshot_is_a_past_book [OF s] have "\<forall>sn. reader_got ?s = Some sn \<longrightarrow> sn = empty_snapshot \<or>
      (\<exists>depth xs ys evss b. applied_cmds ?s = xs @ ys \<and> apply_all xs OrderBook_init = Some (evss, b) \<and>
         sn = GetSnapshot depth b)" by (elim conjE)
  from this [rule_format, OF got] ne show ?thesis unfolding app by (simp only: simp_thms)
qed

text \<open>\<^verbatim>\<open>UpdateSnapshot\<close> reads the book on the caller's thread without synchronisation:
  a state is reachable in which it does so while the engine thread applies a command.\<close>

theorem update_snapshot_races_with_matching:
  "\<exists>s. engine_reachable 17 s \<and> (\<exists>depth. updater s = U_Write depth) \<and>
     (\<exists>cmd. run_at s = Run_Apply cmd)"
proof -
  note facts = EngineState_init_def TradingEngine_init_def racing_def book_race_def slot_race_def
    TSQ_init_def submit_def
  let ?s = "(EngineState_init 17)\<lparr>run_at := Run_Test\<rparr>"
  let ?cmd = "MakeCancel 1 7"
  let ?e = "submit ?cmd (TradingEngine_init 17)"
  let ?s1 = "?s\<lparr>engine := ?e, submitted := [?cmd]\<rparr>"
  let ?s2 = "?s1\<lparr>run_at := Run_Pop False\<rparr>"
  let ?s3 = "?s1\<lparr>engine := TradingEngine_init 17, run_at := Run_Apply ?cmd, orders_processed := 1\<rparr>"
  have "client_step ?s ?s1"
    using cl_cancel [of ?s 1 7] by (simp add: facts EngineCancelOrder_def)
  with engine_started have "engine_reachable 17 ?s1" by (rule engine_client)
  moreover have "run_step ?s1 ?s2" using run_enter [of ?s1] by (simp add: facts)
  ultimately have r2: "engine_reachable 17 ?s2" by (rule engine_run)
  have "run_step ?s2 ?s3"
    using run_pop [of ?s2 False ?cmd "TradingEngine_init 17"] by (simp add: facts pop_command_Some)
  with r2 have r3: "engine_reachable 17 ?s3" by (rule engine_run)
  have "client_step ?s3 (?s3\<lparr>updater := U_Write 100\<rparr>)"
    using cl_update [of ?s3 100] by (simp add: facts)
  with r3 have "engine_reachable 17 (?s3\<lparr>updater := U_Write 100\<rparr>)" by (rule engine_client)
  moreover have "updater (?s3\<lparr>updater := U_Write 100\<rparr>) = U_Write 100"
    "run_at (?s3\<lparr>updater := U_Write 100\<rparr>) = Run_Apply ?cmd" by simp_all
  ultimately show ?thesis by metis
qed

text \<open>No event reaches a client: nothing ever writes the event queue, in any run of the
  engine.\<close>

theorem no_event_is_delivered:
  assumes "engine_reachable k s" and "k < 32"
  shows "spsc_contents k (m_EventQueue (engine s)) = [] \<and>
    fst (spsc_pop k (m_EventQueue (engine s))) = None"
proof -
  have c: "spsc_contents k (SPSC_init k EventPayload_default) = []"
    by (simp add: spsc_contents_def SPSC_init_def)
  from spsc.pop_Nil [OF spsc_init_ok [OF assms(2)] c] c show ?thesis
    by (simp add: event_queue_untouched [OF assms(1)])
qed

theorem no_event_is_delivered_witness:
  "fst (spsc_pop 17 (m_EventQueue (engine engine_sample))) = None"
  using no_event_is_delivered [OF engine_sample_reachable] by simp

end
