(* ===== verification/Engine_Restart.thy ===== *)
theory Engine_Restart
  imports Trading_Engine Book_Quantity "HOL-Library.Multiset"
begin

text \<open>
  \<^verbatim>\<open>TradingEngine::Start\<close> on an engine that is running. The statement
  \<^verbatim>\<open>m_Thread = std::jthread(...)\<close> first constructs the new thread, which begins
  \<^verbatim>\<open>Run\<close>, then asks the old one to stop and joins it: until then two threads take commands from
  one queue and apply them to one book. \<open>Steady\<close> is an engine with at most one thread, with the steps
  of \<open>run_step\<close> and \<open>client_step\<close>; \<open>Replacing\<close> adds the place of the old thread in \<^verbatim>\<open>Run\<close> and
  whether its stop has been requested.
\<close>

subsection \<open>Two threads\<close>

datatype engine_mode = Steady EngineState | Replacing EngineState run_pc bool

text \<open>The engine as the old thread sees it.\<close>

definition as_old :: "EngineState \<Rightarrow> run_pc \<Rightarrow> bool \<Rightarrow> EngineState" where
  "as_old s old stop = s\<lparr>run_at := old, stop_requested := stop\<rparr>"

text \<open>Two commands in hand at once are a data race, on the book and on the static counter
  \<^verbatim>\<open>orders_processed\<close>.\<close>

definition two_racing :: "EngineState \<Rightarrow> run_pc \<Rightarrow> bool" where
  "two_racing s old \<longleftrightarrow> racing s \<or> racing (s\<lparr>run_at := old\<rparr>) \<or> in_hand old \<noteq> [] \<and> in_hand (run_at s) \<noteq> []"

inductive mode_step :: "engine_mode \<Rightarrow> engine_mode \<Rightarrow> bool" where
  steady_run: "run_step s s' \<Longrightarrow> mode_step (Steady s) (Steady s')"
| steady_client: "client_step s s' \<Longrightarrow> mode_step (Steady s) (Steady s')"
| start_again: "\<not> racing s \<Longrightarrow> run_at s \<noteq> Run_Unstarted \<Longrightarrow> run_at s \<noteq> Run_Done \<Longrightarrow>
    mode_step (Steady s)
      (Replacing (s\<lparr>run_at := Run_Test, stop_requested := False\<rparr>) (run_at s) (stop_requested s))"
| new_thread: "\<not> two_racing s old \<Longrightarrow> run_step s s' \<Longrightarrow> mode_step (Replacing s old stop) (Replacing s' old stop)"
| old_thread: "\<not> two_racing s old \<Longrightarrow> run_step (as_old s old stop) s' \<Longrightarrow>
    mode_step (Replacing s old stop) (Replacing (as_old s' (run_at s) (stop_requested s)) (run_at s') stop)"
| other_client: "\<not> two_racing s old \<Longrightarrow> client_step s s' \<Longrightarrow> run_at s' = run_at s \<Longrightarrow>
    stop_requested s' = stop_requested s \<Longrightarrow> mode_step (Replacing s old stop) (Replacing s' old stop)"
| request_old: "\<not> two_racing s old \<Longrightarrow> mode_step (Replacing s old False) (Replacing s old True)"
| joined: "\<not> two_racing s Run_Done \<Longrightarrow> mode_step (Replacing s Run_Done True) (Steady s)"

inductive mode_reachable :: "nat \<Rightarrow> engine_mode \<Rightarrow> bool" for k where
  mode_start: "mode_reachable k (Steady (EngineState_init k))"
| mode_next: "mode_reachable k m \<Longrightarrow> mode_step m m' \<Longrightarrow> mode_reachable k m'"

lemma engine_mode_reachable: "engine_reachable k s \<Longrightarrow> mode_reachable k (Steady s)"
  by (induction rule: engine_reachable.induct) (auto intro: mode_reachable.intros mode_step.intros)

subsection \<open>Invariant\<close>

text \<open>What is shared by the threads, with the commands in \<open>hand\<close> between those applied and those
  queued.\<close>

definition held_inv :: "CommandPayload list \<Rightarrow> EngineState \<Rightarrow> bool" where
  "held_inv hand s \<longleftrightarrow> \<not> m_Closed (m_CommandQueue (engine s)) \<and>
     submitted s = map snd (applied_cmds s) @ hand @ m_Queue (m_CommandQueue (engine s)) \<and>
     (\<forall>cmd\<in>set (submitted s). command_ok cmd) \<and>
     (\<exists>evss. apply_all (applied_cmds s) OrderBook_init = Some (evss, m_Orderbook (engine s)))"

lemma queue_inv_held:
  "queue_inv s \<longleftrightarrow> held_inv (in_hand (run_at s)) s \<and> (stop_requested s \<longrightarrow> run_at s \<noteq> Run_Unstarted)"
  by (auto simp: queue_inv_def held_inv_def)

lemma held_inv_control [simp]:
  "held_inv hand (s\<lparr>run_at := pc\<rparr>) = held_inv hand s"
  "held_inv hand (s\<lparr>stop_requested := st\<rparr>) = held_inv hand s"
  "held_inv hand (s\<lparr>orders_processed := n\<rparr>) = held_inv hand s"
  "held_inv hand (as_old s pc st) = held_inv hand s"
  by (simp_all add: held_inv_def as_old_def)

lemma held_pop:
  "held_inv hand s \<Longrightarrow> pop_command (engine s) = (r, e) \<Longrightarrow>
   held_inv (hand @ (case r of Some cmd \<Rightarrow> [cmd] | None \<Rightarrow> [])) (s\<lparr>engine := e\<rparr>)"
  by (cases r) (auto simp: held_inv_def pop_command_None pop_command_Some)

lemma held_apply:
  assumes "held_inv [cmd] s" and "apply_command now cmd (engine s) = Some e"
  shows "held_inv [] (s\<lparr>engine := e, applied_cmds := applied_cmds s @ [(now, cmd)]\<rparr>)"
proof -
  from assms(2) obtain events b where ap: "Apply now cmd (m_Orderbook (engine s)) = Some (events, b)"
    and e: "e = (engine s)\<lparr>m_Orderbook := b\<rparr>"
    by (auto simp: apply_command_Some)
  from assms(1) obtain evss where "apply_all (applied_cmds s) OrderBook_init = Some (evss, m_Orderbook (engine s))"
    by (auto simp: held_inv_def)
  from apply_all_snoc [OF this ap] show ?thesis
    using assms(1) by (simp add: held_inv_def e)
qed

text \<open>A step of one thread while the other holds \<open>other\<close>, the two not holding a command both.\<close>

lemma held_run:
  "run_step s s' \<Longrightarrow> held_inv (other @ in_hand (run_at s)) s \<Longrightarrow> other = [] \<or> in_hand (run_at s) = [] \<Longrightarrow>
   held_inv (other @ in_hand (run_at s')) s'"
proof (induction rule: run_step.induct)
  case (run_pop s any cmd e)
  then show ?case using held_pop [of other s "Some cmd" e] by (simp add: held_inv_def)
next
  case (run_apply s cmd now e)
  then show ?case using held_apply [of cmd s now e] by (simp add: held_inv_def)
next
  case (run_idle s any e)
  then show ?case using held_pop [of other s None e] by (simp add: held_inv_def)
next
  case (run_drain s cmd e)
  then show ?case using held_pop [of other s "Some cmd" e] by (simp add: held_inv_def)
next
  case (run_drain_apply s cmd now e)
  then show ?case using held_apply [of cmd s now e] by (simp add: held_inv_def apply_last_same)
next
  case (run_exit s e)
  then show ?case using held_pop [of other s None e] by (simp add: held_inv_def)
qed simp_all

lemma held_client: "client_step s s' \<Longrightarrow> held_inv hand s \<Longrightarrow> held_inv hand s'"
  by (induction rule: client_step.induct) (auto simp: held_inv_def engine_requests submit_def write_snapshot_def)

fun mode_inv :: "engine_mode \<Rightarrow> bool" where
  "mode_inv (Steady s) \<longleftrightarrow> queue_inv s"
| "mode_inv (Replacing s old stop) \<longleftrightarrow> run_at s \<noteq> Run_Unstarted \<and> old \<noteq> Run_Unstarted \<and>
     (held_inv (in_hand old @ in_hand (run_at s)) s \<or> held_inv (in_hand (run_at s) @ in_hand old) s)"

lemma one_in_hand: "\<not> two_racing s old \<Longrightarrow> in_hand old = [] \<or> in_hand (run_at s) = []"
  by (auto simp: two_racing_def)

lemma run_step_started: "run_step s s' \<Longrightarrow> run_at s' \<noteq> Run_Unstarted"
  by (induction rule: run_step.induct) simp_all

lemma mode_inv_step: "mode_step m m' \<Longrightarrow> mode_inv m \<Longrightarrow> mode_inv m'"
proof (induction rule: mode_step.induct)
  case (steady_run s s')
  then show ?case using queue_inv_run by simp
next
  case (steady_client s s')
  then show ?case using queue_inv_client by simp
next
  case (start_again s)
  then show ?case by (auto simp: queue_inv_held)
next
  case (new_thread s old s' stop)
  with one_in_hand have one: "in_hand old = [] \<or> in_hand (run_at s) = []" by blast
  with new_thread.prems have "held_inv (in_hand old @ in_hand (run_at s)) s" by auto
  from held_run [OF new_thread.hyps(2) this one] run_step_started [OF new_thread.hyps(2)] new_thread.prems
  show ?case by simp
next
  case (old_thread s old stop s')
  with one_in_hand have one: "in_hand (run_at s) = [] \<or> in_hand old = []" by blast
  with old_thread.prems have "held_inv (in_hand (run_at s) @ in_hand old) s" by auto
  then have "held_inv (in_hand (run_at s) @ in_hand (run_at (as_old s old stop))) (as_old s old stop)"
    by (simp add: as_old_def)
  from held_run [OF old_thread.hyps(2) this] one run_step_started [OF old_thread.hyps(2)] old_thread.prems
  show ?case by (simp add: as_old_def)
next
  case (other_client s old s' stop)
  then show ?case using held_client [OF other_client.hyps(2)] by auto
next
  case (joined s)
  then show ?case by (auto simp: queue_inv_held)
qed simp

lemma mode_inv: "mode_reachable k m \<Longrightarrow> mode_inv m"
proof (induction rule: mode_reachable.induct)
  case mode_start
  show ?case using engine_inv [OF engine_start] by simp
qed (rule mode_inv_step)

subsection \<open>Properties\<close>

fun shared :: "engine_mode \<Rightarrow> EngineState" where
  "shared (Steady s) = s"
| "shared (Replacing s old stop) = s"

fun hands :: "engine_mode \<Rightarrow> CommandPayload list" where
  "hands (Steady s) = in_hand (run_at s)"
| "hands (Replacing s old stop) = in_hand old @ in_hand (run_at s)"

lemma mode_held:
  assumes "mode_reachable k m"
  shows "\<exists>hand. mset hand = mset (hands m) \<and> held_inv hand (shared m)"
proof (cases m)
  case (Steady s)
  then show ?thesis using mode_inv [OF assms] by (auto simp: queue_inv_held)
next
  case (Replacing s old stop)
  have "mset (in_hand (run_at s) @ in_hand old) = mset (in_hand old @ in_hand (run_at s))" by simp
  with Replacing mode_inv [OF assms] show ?thesis by (simp del: mset_append) metis
qed

text \<open>C30: starting a running engine again loses, repeats and reorders no command up to the first data
  race. In every state reached, with one thread or with two, the submitted commands are the applied
  ones, those the threads hold, and those in the queue, and the book is the result of applying the
  applied ones in turn; and what rests in it and twice what was traded is at most what was asked
  for.\<close>

theorem restarts_keep_commands:
  assumes "mode_reachable k m" and "length (applied_cmds (shared m)) < 2 ^ 64 - 1"
  shows "\<exists>hand evss. mset hand = mset (hands m) \<and>
    submitted (shared m) = map snd (applied_cmds (shared m)) @ hand @ m_Queue (m_CommandQueue (engine (shared m))) \<and>
    apply_all (applied_cmds (shared m)) OrderBook_init = Some (evss, m_Orderbook (engine (shared m))) \<and>
    resting (queues_of (m_Orderbook (engine (shared m)))) + 2 * traded (concat evss)
      \<le> (\<Sum>cmd\<leftarrow>submitted (shared m). requested cmd)"
proof -
  let ?s = "shared m"
  from mode_held [OF assms(1)] obtain hand evss where hand: "mset hand = mset (hands m)"
    and sub: "submitted ?s = map snd (applied_cmds ?s) @ hand @ m_Queue (m_CommandQueue (engine ?s))"
    and ok: "\<forall>cmd\<in>set (submitted ?s). command_ok cmd"
    and run: "apply_all (applied_cmds ?s) OrderBook_init = Some (evss, m_Orderbook (engine ?s))"
    by (auto simp: held_inv_def)
  have "book_run (applied_cmds ?s) evss OrderBook_init (m_Orderbook (engine ?s))"
    using ok sub by (intro apply_all_run_init [OF run _ assms(2)]) simp
  from book_run_conserves [OF this reachable.init] sub
  have "resting (queues_of (m_Orderbook (engine ?s))) + 2 * traded (concat evss)
      \<le> (\<Sum>cmd\<leftarrow>submitted ?s. requested cmd)"
    by (simp add: resting_def)
  with hand sub run show ?thesis by blast
qed

text \<open>Two commands, and a second \<^verbatim>\<open>Start\<close> while the first thread is about to test its stop token.\<close>

definition two_state :: "run_pc \<Rightarrow> CommandPayload list \<Rightarrow> u64 \<Rightarrow> EngineState" where
  "two_state new queued n = (EngineState_init 17)\<lparr>run_at := new, orders_processed := n,
     engine := (TradingEngine_init 17)\<lparr>m_CommandQueue := \<lparr>m_Queue = queued, m_Closed = False\<rparr>\<rparr>,
     submitted := [MakeCancel 1 7, MakeCancel 1 8]\<rparr>"

lemmas two_state_facts = two_state_def EngineState_init_def TradingEngine_init_def TSQ_init_def push_def
  submit_def EngineCancelOrder_def pop_command_Some racing_def book_race_def slot_race_def as_old_def

lemma two_state_calm: "two_racing (two_state new queued n) old \<longleftrightarrow> in_hand old \<noteq> [] \<and> in_hand new \<noteq> []"
  by (simp add: two_racing_def two_state_facts)

lemma two_state_run:
  "run_step (two_state Run_Test queued n) (two_state (Run_Pop False) queued n)"
  "run_step (two_state (Run_Pop any) (cmd # queued) n) (two_state (Run_Apply cmd) queued (n + 1))"
proof -
  show "run_step (two_state Run_Test queued n) (two_state (Run_Pop False) queued n)"
    using run_enter [of "two_state Run_Test queued n"] by (simp add: two_state_facts)
  show "run_step (two_state (Run_Pop any) (cmd # queued) n) (two_state (Run_Apply cmd) queued (n + 1))"
    using run_pop [of "two_state (Run_Pop any) (cmd # queued) n" any cmd
        "(TradingEngine_init 17)\<lparr>m_CommandQueue := \<lparr>m_Queue = queued, m_Closed = False\<rparr>\<rparr>"]
    by (simp add: two_state_facts)
qed

lemma as_old_two_state: "as_old (two_state new queued n) old False = two_state old queued n"
  by (simp add: two_state_facts)

lemma two_threads_new:
  "run_step (two_state new queued n) (two_state new' queued' n') \<Longrightarrow> in_hand old = [] \<or> in_hand new = [] \<Longrightarrow>
   mode_step (Replacing (two_state new queued n) old False) (Replacing (two_state new' queued' n') old False)"
  by (rule new_thread) (auto simp: two_state_calm)

lemma two_threads_old:
  assumes "run_step (two_state old queued n) (two_state old' queued' n')" and "in_hand old = [] \<or> in_hand new = []"
  shows "mode_step (Replacing (two_state new queued n) old False) (Replacing (two_state new queued' n') old' False)"
proof -
  have "mode_step (Replacing (two_state new queued n) old False)
      (Replacing (as_old (two_state old' queued' n') (run_at (two_state new queued n))
        (stop_requested (two_state new queued n))) (run_at (two_state old' queued' n')) False)"
    by (rule old_thread) (use assms in \<open>auto simp: two_state_calm as_old_two_state\<close>)
  moreover have "run_at (two_state pc q i) = pc" "\<not> stop_requested (two_state pc q i)" for pc q i
    by (simp_all add: two_state_facts)
  ultimately show ?thesis by (simp add: as_old_two_state)
qed

lemma two_state_replacing:
  "mode_reachable 17 (Replacing (two_state Run_Test [MakeCancel 1 7, MakeCancel 1 8] 0) Run_Test False)"
proof -
  let ?c1 = "MakeCancel 1 7" and ?c2 = "MakeCancel 1 8"
  let ?s = "(EngineState_init 17)\<lparr>run_at := Run_Test\<rparr>"
  let ?s1 = "?s\<lparr>engine := submit ?c1 (TradingEngine_init 17), submitted := [?c1]\<rparr>"
  let ?s2 = "two_state Run_Test [?c1, ?c2] 0"
  have "client_step ?s ?s1" using cl_cancel [of ?s 1 7] by (simp add: two_state_facts)
  with engine_started have "engine_reachable 17 ?s1" by (rule engine_client)
  moreover have "client_step ?s1 ?s2" using cl_cancel [of ?s1 1 8] by (simp add: two_state_facts)
  ultimately have "mode_reachable 17 (Steady ?s2)" by (rule engine_mode_reachable [OF engine_client])
  moreover have "mode_step (Steady ?s2) (Replacing ?s2 Run_Test False)"
    using start_again [of ?s2] by (simp add: two_state_facts)
  ultimately show ?thesis by (rule mode_next)
qed

lemma two_state_reachable:
  "mode_reachable 17 (Replacing (two_state (Run_Apply (MakeCancel 1 8)) [] 2) (Run_Apply (MakeCancel 1 7)) False)"
proof -
  let ?c1 = "MakeCancel 1 7" and ?c2 = "MakeCancel 1 8"
  from mode_next [OF two_state_replacing two_threads_old [OF two_state_run(1)]]
  have "mode_reachable 17 (Replacing (two_state Run_Test [?c1, ?c2] 0) (Run_Pop False) False)" by simp
  from mode_next [OF this two_threads_old [OF two_state_run(2)]]
  have "mode_reachable 17 (Replacing (two_state Run_Test [?c2] 1) (Run_Apply ?c1) False)" by simp
  from mode_next [OF this two_threads_new [OF two_state_run(1)]]
  have "mode_reachable 17 (Replacing (two_state (Run_Pop False) [?c2] 1) (Run_Apply ?c1) False)" by simp
  from mode_next [OF this two_threads_new [OF two_state_run(2)]]
  show ?thesis by simp
qed

text \<open>So a data race is reachable: two threads each hold a command they apply to the same book.\<close>

theorem second_start_races:
  "\<exists>s old stop. mode_reachable 17 (Replacing s old stop) \<and> in_hand old \<noteq> [] \<and> in_hand (run_at s) \<noteq> [] \<and>
     (\<forall>m'. \<not> mode_step (Replacing s old stop) m')"
proof -
  let ?s = "two_state (Run_Apply (MakeCancel 1 8)) [] 2" and ?old = "Run_Apply (MakeCancel 1 7)"
  have "in_hand (run_at ?s) \<noteq> []" by (simp add: two_state_facts)
  moreover from this have "two_racing ?s ?old" by (simp add: two_racing_def)
  then have "\<not> mode_step (Replacing ?s ?old False) m'" for m'
    by (auto elim: mode_step.cases)
  ultimately show ?thesis using two_state_reachable by fastforce
qed

theorem restarts_keep_commands_witness:
  "mset [MakeCancel 1 7, MakeCancel 1 8] = mset (hands (Replacing
     (two_state (Run_Apply (MakeCancel 1 8)) [] 2) (Run_Apply (MakeCancel 1 7)) False))"
proof -
  have f: "applied_cmds (two_state new queued n) = []" "m_Queue (m_CommandQueue (engine (two_state new queued n))) = queued"
    "submitted (two_state new queued n) = [MakeCancel 1 7, MakeCancel 1 8]" for new queued n
    by (simp_all add: two_state_facts)
  from restarts_keep_commands [OF two_state_reachable] show ?thesis by (auto simp: f)
qed

subsection \<open>The second Start returns\<close>

lemma idle_not_racing: "updater s = U_Idle \<Longrightarrow> \<not> racing s"
  by (simp add: racing_def book_race_def slot_race_def)

lemma queue_inv_runs: "(run_step ^^ n) s t \<Longrightarrow> queue_inv s \<Longrightarrow> queue_inv t"
proof (induction n arbitrary: t)
  case (Suc n)
  then show ?case using queue_inv_run by auto
qed simp

text \<open>While the new thread holds no command, the old one runs as if it were alone.\<close>

definition resume :: "EngineState \<Rightarrow> EngineState \<Rightarrow> engine_mode" where
  "resume s t = Replacing (as_old t (run_at s) (stop_requested s)) (run_at t) True"

lemma resume_step:
  assumes "run_step t t'" and "stop_requested t" and "updater t = U_Idle" and "in_hand (run_at s) = []"
  shows "mode_step (resume s t) (resume s t')"
proof -
  let ?n = "as_old t (run_at s) (stop_requested s)"
  have t: "as_old ?n (run_at t) True = t" using assms(2) by (simp add: as_old_def)
  have "\<not> two_racing ?n (run_at t)"
    using assms(3,4) idle_not_racing by (simp add: two_racing_def as_old_def)
  from old_thread [OF this, of True t'] assms(1) show ?thesis
    by (simp add: t resume_def) (simp add: as_old_def)
qed

lemma resume_steps:
  "(run_step ^^ n) t t' \<Longrightarrow> stop_requested t \<Longrightarrow> updater t = U_Idle \<Longrightarrow> in_hand (run_at s) = [] \<Longrightarrow>
   mode_step\<^sup>*\<^sup>* (resume s t) (resume s t') \<and> stop_requested t' \<and> updater t' = U_Idle"
proof (induction n arbitrary: t')
  case (Suc n)
  then obtain u where u: "(run_step ^^ n) t u" "run_step u t'" by auto
  from Suc.IH [OF u(1) Suc.prems(2-4)] resume_step [OF u(2) _ _ Suc.prems(4)] run_step_frame [OF u(2)]
  show ?case by (auto intro: rtranclp.rtrancl_into_rtrancl)
qed simp

text \<open>C31: a second \<^verbatim>\<open>Start\<close> returns. Once it has asked the old thread to stop, and while the new
  one stands still without a command in hand and no snapshot is being taken, the old thread takes at most two steps for
  each queued command and four more, each of them a step of the two-threaded engine. When it has no
  step of its own left it has ended, the queue is empty and the join succeeds, or it is at a command
  whose \<^verbatim>\<open>Apply\<close> has no defined result.\<close>

theorem second_start_returns:
  assumes "mode_reachable k (Replacing s old True)" and "updater s = U_Idle" and "in_hand (run_at s) = []"
    and "old \<noteq> Run_Done" and "(run_step ^^ n) (as_old s old True) t"
  shows "n \<le> 2 * length (m_Queue (m_CommandQueue (engine s))) + 4 \<and>
    mode_step\<^sup>*\<^sup>* (Replacing s old True) (resume s t) \<and>
    ((\<exists>t'. run_step t t' \<and> run_left t' < run_left t \<and> mode_step (resume s t) (resume s t')) \<or>
     run_at t = Run_Done \<and> m_Queue (m_CommandQueue (engine t)) = [] \<and>
       mode_step (resume s t) (Steady (as_old t (run_at s) (stop_requested s))) \<or>
     (\<exists>cmd. in_hand (run_at t) = [cmd] \<and> (\<forall>now. Apply now cmd (m_Orderbook (engine t)) = None)))"
proof -
  let ?o = "as_old s old True"
  have stop: "stopping ?o" using assms(4) by (simp add: stopping_def as_old_def)
  have qi: "queue_inv ?o"
    using mode_inv [OF assms(1)] assms(3) by (auto simp: queue_inv_held) (simp_all add: as_old_def)
  from run_steps_stopping [OF assms(5) stop] have st: "stopping t" and n: "n \<le> run_left ?o" by auto
  have "run_rank old \<le> 4" by (cases old) simp_all
  with n have n4: "n \<le> 2 * length (m_Queue (m_CommandQueue (engine s))) + 4"
    by (simp add: run_left_def as_old_def)
  have "resume s ?o = Replacing s old True" by (simp add: resume_def as_old_def)
  with resume_steps [OF assms(5) _ _ assms(3)] assms(2)
  have steps: "mode_step\<^sup>*\<^sup>* (Replacing s old True) (resume s t)" and t: "stop_requested t" "updater t = U_Idle"
    by (simp_all add: as_old_def)
  from run_step_progress [OF st queue_inv_runs [OF assms(5) qi]] show ?thesis
  proof (elim disjE exE)
    fix t' assume r: "run_step t t'"
    then have "mode_step (resume s t) (resume s t')" by (rule resume_step) (use t assms(3) in simp_all)
    with n4 steps r run_step_stopping [OF r st] show ?thesis by blast
  next
    assume d: "run_at t = Run_Done"
    have "\<not> two_racing (as_old t (run_at s) (stop_requested s)) Run_Done"
      using t(2) idle_not_racing by (simp add: two_racing_def as_old_def)
    from joined [OF this] have "mode_step (resume s t) (Steady (as_old t (run_at s) (stop_requested s)))"
      by (simp add: resume_def d)
    with n4 steps d st show ?thesis by (simp add: stopping_def)
  next
    assume "racing t"
    with idle_not_racing [OF t(2)] show ?thesis by blast
  qed (use n4 steps in blast)
qed

theorem second_start_returns_witness:
  "let s = two_state Run_Test [MakeCancel 1 7, MakeCancel 1 8] 0; t = as_old s Run_Drain True
   in mode_step\<^sup>*\<^sup>* (Replacing s Run_Test True) (resume s t) \<and> (\<exists>t'. run_step t t' \<and> mode_step (resume s t) (resume s t'))"
proof -
  let ?s = "two_state Run_Test [MakeCancel 1 7, MakeCancel 1 8] 0"
  have r: "mode_reachable 17 (Replacing ?s Run_Test True)"
    by (rule mode_next [OF two_state_replacing request_old]) (simp add: two_state_calm)
  have "run_step (as_old ?s Run_Test True) (as_old ?s Run_Drain True)"
    using run_leave [of "as_old ?s Run_Test True"] by (simp add: two_state_facts)
  then have st: "(run_step ^^ 1) (as_old ?s Run_Test True) (as_old ?s Run_Drain True)" by (simp only: relpowp_1)
  have "updater ?s = U_Idle" "in_hand (run_at ?s) = []" by (simp_all add: two_state_facts)
  moreover have "run_at (as_old ?s Run_Drain True) = Run_Drain" by (simp add: as_old_def)
  ultimately show ?thesis using second_start_returns [OF r _ _ _ st] unfolding Let_def by fastforce
qed

end
