(* ===== verification/File_Stream.thy ===== *)
theory File_Stream
  imports Byte_Codec "HOL-Library.Sublist"
begin

text \<open>
  \<^verbatim>\<open>src/src/Core/FileStream.hpp\<close>: appending values, arrays and strings to a byte
  buffer, whole-file reading and writing, and \<^verbatim>\<open>OutputFileStream\<close> with its buffer and
  its \<^verbatim>\<open>std::ofstream\<close>. What the operating system answers is an argument of each
  operation.
\<close>

subsection \<open>Appending to a byte buffer\<close>

definition WriteRaw :: "u8 list \<Rightarrow> u8 list \<Rightarrow> u8 list" where
  "WriteRaw buffer val = buffer @ val"

text \<open>\<open>ptr\<close> is \<open>None\<close> for a null pointer and otherwise the bytes it points to. The number
  of bytes is computed in 64 bits, with wrap-around; reading past the memory behind the pointer is
  undefined. The two overloads of \<^verbatim>\<open>WriteString\<close> have the same body.\<close>

definition WriteArray :: "bool \<Rightarrow> nat \<Rightarrow> u8 list \<Rightarrow> u8 list option \<Rightarrow> u64 \<Rightarrow> bool \<Rightarrow> u8 list option" where
  "WriteArray be sizeof_T buffer ptr count writeSize =
     (if ptr = None \<and> 0 < count then Some buffer
      else
        let buffer1 = (if writeSize then WriteRaw buffer (word_bytes be 8 count) else buffer);
            new_bytes = unat (count * of_nat sizeof_T);
            mem = (case ptr of None \<Rightarrow> [] | Some bs \<Rightarrow> bs)
        in if new_bytes \<le> length mem then Some (buffer1 @ take new_bytes mem) else None)"

definition WriteString :: "bool \<Rightarrow> u8 list \<Rightarrow> u8 list \<Rightarrow> bool \<Rightarrow> u8 list option" where
  "WriteString be buffer str writeSize = WriteArray be 1 buffer (Some str) (of_nat (length str)) writeSize"

text \<open>Reading the strings back: a size and then that many bytes, until nothing is left.\<close>

function read_strings :: "bool \<Rightarrow> u8 list \<Rightarrow> u8 list list option" where
  "read_strings be bs =
     (if bs = [] then Some []
      else if length bs < 8 then None
      else
        let n = unat (read_word be 0 8 bs :: u64) in
        if length bs < 8 + n then None
        else map_option (Cons (take n (drop 8 bs))) (read_strings be (drop (8 + n) bs)))"
  by pat_completeness auto
termination
  by (relation "measure (\<lambda>(be, bs). length bs)") auto

declare read_strings.simps [simp del]

lemma WriteString_Some:
  "length str < 2 ^ 64 \<Longrightarrow> WriteString be buffer str writeSize =
     Some (buffer @ (if writeSize then word_bytes be 8 (of_nat (length str) :: u64) else []) @ str)"
  by (simp add: WriteString_def WriteArray_def WriteRaw_def unat_of_nat take_bit_nat_eq_self)

lemma read_strings_write:
  assumes "length str < 2 ^ 64"
  shows "read_strings be (word_bytes be 8 (of_nat (length str) :: u64) @ str @ rest) =
     map_option (Cons str) (read_strings be rest)"
proof -
  have "read_word be 0 8 (word_bytes be 8 (of_nat (length str) :: u64) @ str @ rest) = (of_nat (length str) :: u64)"
    by (rule read_word_append) simp
  moreover have "word_bytes be 8 (of_nat (length str) :: u64) \<noteq> []"
    by (metis length_word_bytes list.size(3) zero_neq_numeral)
  ultimately show ?thesis
    using assms by (subst read_strings.simps) (simp add: Let_def unat_of_nat take_bit_nat_eq_self)
qed

definition write_strings :: "bool \<Rightarrow> u8 list list \<Rightarrow> u8 list \<Rightarrow> u8 list option" where
  "write_strings be strs buffer =
     fold (\<lambda>str b. Option.bind b (\<lambda>buf. WriteString be buf str True)) strs (Some buffer)"

lemma write_strings_spec:
  "\<forall>str\<in>set strs. length str < 2 ^ 64 \<Longrightarrow> write_strings be strs buffer =
     Some (buffer @ concat (map (\<lambda>str. word_bytes be 8 (of_nat (length str) :: u64) @ str) strs))"
  unfolding write_strings_def by (induction strs arbitrary: buffer) (simp_all add: WriteString_Some)

lemma read_strings_concat:
  "\<forall>str\<in>set strs. length str < 2 ^ 64 \<Longrightarrow>
   read_strings be (concat (map (\<lambda>str. word_bytes be 8 (of_nat (length str) :: u64) @ str) strs)) = Some strs"
proof (induction strs)
  case Nil
  show ?case by (simp add: read_strings.simps)
next
  case (Cons str strs)
  then show ?case using read_strings_write [of str be] by simp
qed

subsection \<open>File streams\<close>

text \<open>The part of \<^verbatim>\<open>std::ofstream\<close> the code relies on: bytes go to the stream's own
  buffer and from there to the file, a failure sets the stream's error state, and a stream in an
  error state ignores writes and flushes (the code never clears the state). \<open>Io_Ok n\<close> is a call
  that succeeds, \<open>Io_Fail n\<close> one that fails, after moving \<open>n\<close> bytes to the file; a flush that
  succeeds moves everything.\<close>

datatype io_result = Io_Ok nat | Io_Fail nat

record ofstream =
  os_good :: bool
  os_pending :: "u8 list"
  os_file :: "u8 list"

definition os_open :: ofstream where
  "os_open = \<lparr>os_good = True, os_pending = [], os_file = []\<rparr>"

definition os_move :: "nat \<Rightarrow> u8 list \<Rightarrow> ofstream \<Rightarrow> ofstream" where
  "os_move n bs st = st\<lparr>os_file := os_file st @ take n bs, os_pending := drop n bs\<rparr>"

definition os_write :: "io_result \<Rightarrow> u8 list \<Rightarrow> ofstream \<Rightarrow> ofstream" where
  "os_write r bs st =
     (if \<not> os_good st then st
      else case r of Io_Ok n \<Rightarrow> os_move n (os_pending st @ bs) st
        | Io_Fail n \<Rightarrow> (os_move n (os_pending st @ bs) st)\<lparr>os_good := False\<rparr>)"

definition os_flush :: "io_result \<Rightarrow> ofstream \<Rightarrow> ofstream" where
  "os_flush r st =
     (if \<not> os_good st then st
      else case r of Io_Ok n \<Rightarrow> os_move (length (os_pending st)) (os_pending st) st
        | Io_Fail n \<Rightarrow> (os_move n (os_pending st) st)\<lparr>os_good := False\<rparr>)"

text \<open>\<^verbatim>\<open>WriteToFile\<close>: whether the file opened, the result of the write and of the
  close at the end of the scope; the result pairs what is returned with the file left behind.
  \<^verbatim>\<open>ReadFromFile\<close>: whether the file opened, the size \<^verbatim>\<open>tellg\<close> reports
  (\<open>- 1\<close> on failure) and the bytes there at the time of the read.\<close>

definition WriteToFile :: "bool \<Rightarrow> io_result \<Rightarrow> io_result \<Rightarrow> u8 list \<Rightarrow> bool \<times> u8 list option" where
  "WriteToFile opened r_write r_close buffer =
     (if \<not> opened then (False, None)
      else
        let st = os_write r_write buffer os_open
        in (os_good st, Some (os_file (os_flush r_close st))))"

definition ReadFromFile :: "bool \<Rightarrow> int \<Rightarrow> u8 list \<Rightarrow> u8 list" where
  "ReadFromFile opened sz contents =
     (if \<not> opened then []
      else if sz \<le> 0 then []
      else if length contents < nat sz then []
      else take (nat sz) contents)"

text \<open>\<^verbatim>\<open>OutputFileStream\<close>. Its constructor throws when the file does not open. A
  trivially copyable value is written as its bytes (\<open>Inl\<close>), any other through its
  \<^verbatim>\<open>Serialize\<close> (\<open>Inr\<close>).\<close>

record OutputFileStream =
  ofs_Buffer :: "u8 list"
  ofs_Stream :: ofstream

definition OutputFileStream_open :: "bool \<Rightarrow> string \<Rightarrow> string + OutputFileStream" where
  "OutputFileStream_open opened path =
     (if \<not> opened then Inl (''Failed to open file: '' @ path)
      else Inr \<lparr>ofs_Buffer = [], ofs_Stream = os_open\<rparr>)"

definition OutputFileStream_destroy :: "io_result \<Rightarrow> OutputFileStream \<Rightarrow> OutputFileStream" where
  "OutputFileStream_destroy r s = s\<lparr>ofs_Stream := os_flush r (ofs_Stream s)\<rparr>"

definition WriteToBuffer :: "u8 list + (u8 list \<Rightarrow> u8 list) \<Rightarrow> OutputFileStream \<Rightarrow> OutputFileStream" where
  "WriteToBuffer data s =
     (case data of
        Inl bytes \<Rightarrow> s\<lparr>ofs_Buffer := WriteRaw (ofs_Buffer s) bytes\<rparr>
      | Inr serialize \<Rightarrow> s\<lparr>ofs_Buffer := serialize (ofs_Buffer s)\<rparr>)"

definition WriteBufferToFile :: "io_result \<Rightarrow> io_result \<Rightarrow> OutputFileStream \<Rightarrow> bool \<times> OutputFileStream" where
  "WriteBufferToFile r_write r_flush s =
     (if ofs_Buffer s = [] then (True, s\<lparr>ofs_Stream := os_flush r_flush (ofs_Stream s)\<rparr>)
      else
        let st = os_write r_write (ofs_Buffer s) (ofs_Stream s)
        in if \<not> os_good st then (False, s\<lparr>ofs_Stream := st\<rparr>)
           else (True, s\<lparr>ofs_Buffer := [], ofs_Stream := os_flush r_flush st\<rparr>))"

text \<open>The defaulted moves. A \<^verbatim>\<open>std::ofstream\<close> that is assigned to closes its file first, which
  moves its own buffer there; one that was moved from has no file: its writes fail. A
  \<^verbatim>\<open>std::vector\<close> that was moved from is empty. \<open>OutputFileStream_move\<close> gives the new object and the
  one moved from, \<open>OutputFileStream_move_assign\<close> the assigned object, the one moved from, and the
  file the assigned object had, as its close leaves it.\<close>

definition os_moved :: ofstream where
  "os_moved = \<lparr>os_good = False, os_pending = [], os_file = []\<rparr>"

definition OutputFileStream_move :: "OutputFileStream \<Rightarrow> OutputFileStream \<times> OutputFileStream" where
  "OutputFileStream_move s = (s, \<lparr>ofs_Buffer = [], ofs_Stream = os_moved\<rparr>)"

definition OutputFileStream_move_assign ::
  "io_result \<Rightarrow> OutputFileStream \<Rightarrow> OutputFileStream \<Rightarrow> OutputFileStream \<times> OutputFileStream \<times> u8 list" where
  "OutputFileStream_move_assign r_close target s =
     (s, \<lparr>ofs_Buffer = [], ofs_Stream = os_moved\<rparr>, os_file (os_flush r_close (ofs_Stream target)))"

subsection \<open>What a stream has written\<close>

definition stream_inv :: "u8 list \<Rightarrow> OutputFileStream \<Rightarrow> bool" where
  "stream_inv written s \<longleftrightarrow> prefix (os_file (ofs_Stream s)) written \<and>
     (os_good (ofs_Stream s) \<longrightarrow>
        os_file (ofs_Stream s) @ os_pending (ofs_Stream s) @ ofs_Buffer s = written)"

lemma os_move_simps [simp]:
  "os_good (os_move n bs st) = os_good st" "os_file (os_move n bs st) = os_file st @ take n bs"
  "os_pending (os_move n bs st) = drop n bs"
  by (simp_all add: os_move_def)

lemma prefix_take: "prefix (xs @ take n ys) (xs @ ys @ zs)"
  by (metis append_take_drop_id append.assoc prefixI)

lemma os_write_spec:
  "os_good st \<Longrightarrow> prefix (os_file (os_write r bs st)) (os_file st @ os_pending st @ bs) \<and>
   (os_good (os_write r bs st) \<longrightarrow>
      os_file (os_write r bs st) @ os_pending (os_write r bs st) = os_file st @ os_pending st @ bs)"
  using prefix_take [of "os_file st" _ "os_pending st @ bs" "[]"]
  by (cases r) (simp_all add: os_write_def del: take_append drop_append)

lemma os_flush_spec:
  "os_good st \<Longrightarrow> prefix (os_file (os_flush r st)) (os_file st @ os_pending st) \<and>
   (os_good (os_flush r st) \<longrightarrow>
      os_file (os_flush r st) = os_file st @ os_pending st \<and> os_pending (os_flush r st) = [])"
  using prefix_take [of "os_file st" _ "os_pending st" "[]"]
  by (cases r) (simp_all add: os_flush_def)

lemma bad_stream_stuck [simp]:
  "\<not> os_good st \<Longrightarrow> os_write r bs st = st" "\<not> os_good st \<Longrightarrow> os_flush r st = st"
  by (simp_all add: os_write_def os_flush_def)

lemma stream_inv_open: "OutputFileStream_open opened path = Inr s \<Longrightarrow> stream_inv [] s"
  by (auto simp: OutputFileStream_open_def stream_inv_def os_open_def split: if_splits)

lemma stream_inv_write: "stream_inv written s \<Longrightarrow> stream_inv (written @ bytes) (WriteToBuffer (Inl bytes) s)"
  by (auto simp: stream_inv_def WriteToBuffer_def WriteRaw_def)

lemma stream_inv_flush:
  assumes "stream_inv written s"
  shows "stream_inv written (snd (WriteBufferToFile r_write r_flush s))"
proof (cases "os_good (ofs_Stream s)")
  case False
  with assms show ?thesis by (simp add: stream_inv_def WriteBufferToFile_def Let_def)
next
  case good: True
  with assms have w: "os_file (ofs_Stream s) @ os_pending (ofs_Stream s) @ ofs_Buffer s = written"
    by (simp add: stream_inv_def)
  show ?thesis
  proof (cases "ofs_Buffer s = []")
    case True
    then show ?thesis
      using os_flush_spec [OF good, of r_flush] w by (auto simp: stream_inv_def WriteBufferToFile_def)
  next
    case False
    let ?st = "os_write r_write (ofs_Buffer s) (ofs_Stream s)"
    have st: "prefix (os_file ?st) written" "os_good ?st \<Longrightarrow> os_file ?st @ os_pending ?st = written"
      using os_write_spec [OF good, of r_write "ofs_Buffer s"] w by auto
    show ?thesis
    proof (cases "os_good ?st")
      case True
      then show ?thesis
        using os_flush_spec [OF True, of r_flush] st False
        by (auto simp: stream_inv_def WriteBufferToFile_def Let_def)
    qed (use st False in \<open>auto simp: stream_inv_def WriteBufferToFile_def Let_def\<close>)
  qed
qed

text \<open>A history of one stream.\<close>

datatype stream_op = Op_Write "u8 list" | Op_Flush io_result io_result

fun stream_run :: "stream_op list \<Rightarrow> OutputFileStream \<Rightarrow> bool list \<times> OutputFileStream" where
  "stream_run [] s = ([], s)"
| "stream_run (Op_Write bytes # ops) s = stream_run ops (WriteToBuffer (Inl bytes) s)"
| "stream_run (Op_Flush r_write r_flush # ops) s =
     (let (ok, s1) = WriteBufferToFile r_write r_flush s; (oks, s2) = stream_run ops s1 in (ok # oks, s2))"

fun op_bytes :: "stream_op \<Rightarrow> u8 list" where
  "op_bytes (Op_Write bytes) = bytes"
| "op_bytes (Op_Flush r_write r_flush) = []"

lemma stream_run_inv:
  "stream_inv written s \<Longrightarrow> stream_run ops s = (oks, s') \<Longrightarrow>
   stream_inv (written @ concat (map op_bytes ops)) s'"
proof (induction ops s arbitrary: written oks s' rule: stream_run.induct)
  case (2 bytes ops s)
  from "2.IH" [OF stream_inv_write [OF "2.prems"(1)]] "2.prems"(2) show ?case by simp
next
  case (3 r_write r_flush ops s)
  obtain ok s1 where f: "WriteBufferToFile r_write r_flush s = (ok, s1)" by fastforce
  obtain oks1 s2 where r: "stream_run ops s1 = (oks1, s2)" by fastforce
  have "stream_inv written s1" using stream_inv_flush [OF "3.prems"(1)] f by (metis snd_conv)
  from "3.IH" [OF f [symmetric] refl this r] f r "3.prems"(2) show ?case by simp
qed simp

lemma failed_stream_run:
  "\<not> os_good (ofs_Stream s) \<Longrightarrow> ofs_Buffer s \<noteq> [] \<Longrightarrow> stream_run ops s = (oks, s') \<Longrightarrow>
   ofs_Stream s' = ofs_Stream s \<and> prefix (ofs_Buffer s) (ofs_Buffer s') \<and> True \<notin> set oks"
proof (induction ops s arbitrary: oks s' rule: stream_run.induct)
  case (2 bytes ops s)
  let ?s1 = "WriteToBuffer (Inl bytes) s"
  have "\<not> os_good (ofs_Stream ?s1)" "ofs_Buffer ?s1 \<noteq> []" "prefix (ofs_Buffer s) (ofs_Buffer ?s1)"
    using "2.prems" by (simp_all add: WriteToBuffer_def WriteRaw_def)
  with "2.IH" [of oks s'] "2.prems" show ?case
    by (auto simp: WriteToBuffer_def intro: prefix_order.trans)
next
  case (3 r_write r_flush ops s)
  have f: "WriteBufferToFile r_write r_flush s = (False, s)"
    using "3.prems" by (simp add: WriteBufferToFile_def)
  obtain oks1 s2 where r: "stream_run ops s = (oks1, s2)" by fastforce
  from "3.IH" [OF f [symmetric] refl "3.prems"(1,2) r] f r "3.prems"(3) show ?case by auto
qed simp


subsection \<open>Properties\<close>

text \<open>Strings written with their sizes read back as the same strings, whatever their contents
  (at most \<open>2 ^ 64 - 1\<close> bytes each), in either byte order.\<close>

theorem sized_strings_roundtrip:
  assumes "\<forall>str\<in>set strs. length str < 2 ^ 64"
  shows "\<exists>bytes. write_strings be strs [] = Some bytes \<and> read_strings be bytes = Some strs"
  using write_strings_spec [OF assms, of be "[]"] read_strings_concat [OF assms, of be] by simp

theorem sized_strings_roundtrip_witness:
  "\<exists>bytes. write_strings False [[104, 105], []] [] = Some bytes \<and>
     read_strings False bytes = Some [[104, 105], []]"
  by (rule sized_strings_roundtrip) simp

text \<open>C34: the file behind an output stream is at every moment a prefix of what was written to the
  stream, in order and without gaps, whatever the operating system answers. While the stream is
  good nothing is lost: the file, the stream's own buffer and the byte buffer make up exactly what
  was written.\<close>

theorem stream_file_is_prefix:
  assumes "OutputFileStream_open opened path = Inr s" and "stream_run ops s = (oks, s')"
  shows "prefix (os_file (ofs_Stream s')) (concat (map op_bytes ops)) \<and>
    (os_good (ofs_Stream s') \<longrightarrow>
       os_file (ofs_Stream s') @ os_pending (ofs_Stream s') @ ofs_Buffer s' = concat (map op_bytes ops))"
  using stream_run_inv [OF stream_inv_open [OF assms(1)] assms(2)] by (simp add: stream_inv_def)

lemma stream_sample:
  "stream_run [Op_Write [1, 2, 3], Op_Flush (Io_Ok 1) (Io_Fail 1), Op_Write [4]]
     \<lparr>ofs_Buffer = [], ofs_Stream = os_open\<rparr> =
   ([True], \<lparr>ofs_Buffer = [4],
      ofs_Stream = \<lparr>os_good = False, os_pending = [3], os_file = [1, 2]\<rparr>\<rparr>)"
  by (simp add: WriteToBuffer_def WriteRaw_def WriteBufferToFile_def os_open_def os_write_def os_flush_def os_move_def)

theorem stream_file_is_prefix_witness: "prefix [1, 2] [1, 2, 3, 4 :: u8]"
  using stream_file_is_prefix [OF _ stream_sample, of True "''log''"]
  by (simp add: OutputFileStream_open_def)

text \<open>A failed write is final: once \<^verbatim>\<open>WriteBufferToFile\<close> has answered \<^verbatim>\<open>false\<close>
  the file never changes again, every later attempt fails too, and the byte buffer only grows.\<close>

theorem failed_write_is_final:
  assumes "WriteBufferToFile r_write r_flush s = (False, s1)" and "stream_run ops s1 = (oks, s2)"
  shows "os_file (ofs_Stream s2) = os_file (ofs_Stream s1) \<and> True \<notin> set oks \<and>
    prefix (ofs_Buffer s) (ofs_Buffer s2)"
proof -
  have "\<not> os_good (ofs_Stream s1)" "ofs_Buffer s1 \<noteq> []" "ofs_Buffer s1 = ofs_Buffer s"
    using assms(1) by (auto simp: WriteBufferToFile_def Let_def split: if_splits)
  with failed_stream_run [OF _ _ assms(2)] show ?thesis by simp
qed

theorem failed_write_is_final_witness:
  "WriteBufferToFile (Io_Fail 0) (Io_Ok 0) \<lparr>ofs_Buffer = [1], ofs_Stream = os_open\<rparr> =
     (False, \<lparr>ofs_Buffer = [1], ofs_Stream = os_open\<lparr>os_good := False, os_pending := [1]\<rparr>\<rparr>) \<and>
   os_file (ofs_Stream (snd (stream_run [Op_Write [2], Op_Flush (Io_Ok 2) (Io_Ok 0)]
     \<lparr>ofs_Buffer = [1], ofs_Stream = os_open\<lparr>os_good := False, os_pending := [1]\<rparr>\<rparr>))) = []"
proof -
  have w: "WriteBufferToFile (Io_Fail 0) (Io_Ok 0) \<lparr>ofs_Buffer = [1], ofs_Stream = os_open\<rparr> =
     (False, \<lparr>ofs_Buffer = [1], ofs_Stream = os_open\<lparr>os_good := False, os_pending := [1]\<rparr>\<rparr>)"
    by (simp add: WriteBufferToFile_def os_write_def os_open_def os_move_def)
  from failed_write_is_final [OF this surjective_pairing] w show ?thesis
    by (simp del: stream_run.simps add: os_open_def)
qed

text \<open>A failing flush goes unreported: \<^verbatim>\<open>WriteBufferToFile\<close> can answer \<^verbatim>\<open>true\<close>
  and forget its buffer while nothing reached the file, and \<^verbatim>\<open>WriteToFile\<close> can answer
  \<^verbatim>\<open>true\<close> for a file that stays empty, for every non-empty buffer.\<close>

theorem flush_failure_unreported:
  "WriteBufferToFile (Io_Ok 0) (Io_Fail 0) \<lparr>ofs_Buffer = x # xs, ofs_Stream = os_open\<rparr> =
     (True, \<lparr>ofs_Buffer = [], ofs_Stream = os_open\<lparr>os_good := False, os_pending := x # xs\<rparr>\<rparr>) \<and>
   WriteToFile True (Io_Ok 0) (Io_Fail 0) (x # xs) = (True, Some [])"
  by (simp add: WriteBufferToFile_def WriteToFile_def os_open_def os_write_def os_flush_def os_move_def)

text \<open>A file that was written and closed without an error reads back as the bytes that went in,
  and a file that cannot be opened, is empty or has become shorter than its measured size reads as
  the empty string.\<close>

theorem file_roundtrip:
  "WriteToFile True (Io_Ok n) (Io_Ok m) buffer = (True, Some buffer) \<and>
   ReadFromFile True (int (length buffer)) buffer = buffer \<and>
   ReadFromFile False sz contents = [] \<and> ReadFromFile True (- 1) contents = [] \<and>
   ReadFromFile True (int (length contents) + 1) contents = []"
  by (simp add: WriteToFile_def ReadFromFile_def os_open_def os_write_def os_flush_def os_move_def)

text \<open>The end of a stream, by its destructor or by an assignment over it, flushes the
  \<^verbatim>\<open>std::ofstream\<close> and forgets the byte buffer: what was given to \<^verbatim>\<open>WriteToBuffer\<close> and not
  passed on never reaches the file, even when the operating system accepts everything.\<close>

theorem unflushed_bytes_lost:
  assumes "OutputFileStream_open opened path = Inr s"
  shows "os_file (ofs_Stream (OutputFileStream_destroy (Io_Ok n) (WriteToBuffer (Inl bytes) s))) = [] \<and>
    snd (snd (OutputFileStream_move_assign (Io_Ok n) (WriteToBuffer (Inl bytes) s) s')) = []"
  using assms by (auto simp: OutputFileStream_open_def OutputFileStream_destroy_def WriteToBuffer_def
      OutputFileStream_move_assign_def os_open_def os_flush_def split: if_splits)

theorem unflushed_bytes_lost_witness:
  "os_file (ofs_Stream (OutputFileStream_destroy (Io_Ok 0)
     (WriteToBuffer (Inl [1, 2]) \<lparr>ofs_Buffer = [], ofs_Stream = os_open\<rparr>))) = []"
  using unflushed_bytes_lost [of True "''log''" "\<lparr>ofs_Buffer = [], ofs_Stream = os_open\<rparr>" 0 "[1, 2]"]
  by (simp add: OutputFileStream_open_def)

text \<open>A stream keeps its history when it is moved, and the object it was moved from never writes
  again.\<close>

theorem moved_stream_continues:
  "stream_inv written s \<Longrightarrow> OutputFileStream_move s = (s1, s2) \<Longrightarrow>
   stream_inv written s1 \<and> \<not> os_good (ofs_Stream s2) \<and>
   os_file (ofs_Stream (OutputFileStream_destroy r s2)) = []"
  by (auto simp: OutputFileStream_move_def os_moved_def OutputFileStream_destroy_def)

end
