(* ===== verification/Journal_Contract.thy ===== *)
theory Journal_Contract
  imports File_Stream
begin

text \<open>
  What the audit relies on when it writes records to a stream and reads them back later, as two
  locales: an append-only log of bytes (\<open>append_log\<close>, which \<^verbatim>\<open>OutputFileStream\<close>
  interprets), and a log of records of one size (\<open>record_journal\<close>, a log and a codec).
\<close>

subsection \<open>A log of bytes\<close>

text \<open>\<open>holds written s\<close>: \<open>written\<close> is what has been appended to \<open>s\<close>; \<open>disk s\<close> is what has reached
  the disk, \<open>held s\<close> that together with what is still buffered, and \<open>sound s\<close> that no write has
  failed. The arguments of \<open>flush\<close> are the environment's answers.\<close>

locale append_log =
  fixes holds :: "u8 list \<Rightarrow> 's \<Rightarrow> bool" and disk :: "'s \<Rightarrow> u8 list" and held :: "'s \<Rightarrow> u8 list"
    and sound :: "'s \<Rightarrow> bool" and append :: "u8 list \<Rightarrow> 's \<Rightarrow> 's" and flush :: "'io \<Rightarrow> 's \<Rightarrow> 's"
  assumes disk_prefix: "holds written s \<Longrightarrow> prefix (disk s) written"
    and held_all: "holds written s \<Longrightarrow> sound s \<Longrightarrow> held s = written"
    and holds_append: "holds written s \<Longrightarrow> holds (written @ bytes) (append bytes s)"
    and holds_flush: "holds written s \<Longrightarrow> holds written (flush io s)"

interpretation stream_log: append_log stream_inv "\<lambda>s. os_file (ofs_Stream s)"
    "\<lambda>s. os_file (ofs_Stream s) @ os_pending (ofs_Stream s) @ ofs_Buffer s" "\<lambda>s. os_good (ofs_Stream s)"
    "\<lambda>bytes. WriteToBuffer (Inl bytes)" "\<lambda>io s. snd (WriteBufferToFile (fst io) (snd io) s)"
  by unfold_locales (simp_all add: stream_inv_write stream_inv_flush, simp_all add: stream_inv_def)

subsection \<open>A log of records\<close>

locale record_journal = append_log holds disk held sound append flush + fixed_size_codec sz enc dec seen valid
  for holds :: "u8 list \<Rightarrow> 's \<Rightarrow> bool" and disk :: "'s \<Rightarrow> u8 list" and held :: "'s \<Rightarrow> u8 list"
    and sound :: "'s \<Rightarrow> bool" and append :: "u8 list \<Rightarrow> 's \<Rightarrow> 's" and flush :: "'io \<Rightarrow> 's \<Rightarrow> 's"
    and sz :: nat and enc :: "'a \<Rightarrow> u8 list" and dec :: "u8 list \<Rightarrow> 'b option"
    and seen :: "'a \<Rightarrow> 'b" and valid :: "'a \<Rightarrow> bool"
begin

lemma holds_record: "holds (concat (map enc xs)) s \<Longrightarrow> holds (concat (map enc (xs @ [x]))) (append (enc x) s)"
  using holds_append [of "concat (map enc xs)" s "enc x"] by simp

lemma held_decodes:
  "holds (concat (map enc xs)) s \<Longrightarrow> \<forall>x\<in>set xs. valid x \<Longrightarrow> sound s \<Longrightarrow>
   decode_all sz dec (held s) = Some (map seen xs)"
  by (simp add: held_all decode_all_enc)

lemma take_records:
  assumes "\<forall>x\<in>set xs. valid x" and "n \<le> length xs"
  shows "take (sz * n) (concat (map enc xs)) = concat (map enc (take n xs))"
proof -
  have "concat (map enc xs) = concat (map enc (take n xs)) @ concat (map enc (drop n xs))"
    by (simp flip: concat_append map_append)
  moreover have "length (concat (map enc (take n xs))) = sz * n"
    using assms by (subst length_concat_enc) (auto dest: in_set_takeD)
  ultimately show ?thesis by simp
qed

text \<open>Whatever failed, the whole records of the file are the first records of the journal; at most
  the last one may be cut.\<close>

lemma disk_recovers:
  assumes "holds (concat (map enc xs)) s" and valid: "\<forall>x\<in>set xs. valid x"
  shows "length (disk s) div sz \<le> length xs \<and>
    decode_all sz dec (take (sz * (length (disk s) div sz)) (disk s)) =
      Some (map seen (take (length (disk s) div sz) xs))"
proof -
  let ?n = "length (disk s) div sz"
  obtain rest where j: "concat (map enc xs) = disk s @ rest" using disk_prefix [OF assms(1)] by (auto elim: prefixE)
  then have "length (disk s) \<le> sz * length xs"
    using length_concat_enc [OF valid] by (metis length_append le_add1)
  then have n: "?n \<le> length xs"
    using sz_pos div_le_mono [of "length (disk s)" "sz * length xs" sz] by simp
  have "take (sz * ?n) (disk s) = take (sz * ?n) (concat (map enc xs))" by (simp add: j)
  also have "\<dots> = concat (map enc (take ?n xs))" by (rule take_records [OF valid n])
  finally show ?thesis
    using n valid decode_all_enc [of "take ?n xs"] by (auto dest: in_set_takeD)
qed

end

end
