(* ===== verification/Audit_Log.thy ===== *)
theory Audit_Log
  imports Thread_Safe_Queue Journal_Contract
begin

text \<open>
  \<^verbatim>\<open>src/src/Engine/Audit.hpp\<close> (and the audit records of
  \<^verbatim>\<open>src/src/Core/OrderBookSnapshot.hpp\<close>): the four journals, the queue in front of
  them and the writer thread, as a step relation over the writer, the threads that enqueue and the
  thread that stops it.
\<close>

subsection \<open>Entries\<close>

record AuditLevel =
  al_price :: Price
  al_quantity :: Quantity
  al_orders :: "Order list"

record AuditBookSnapshot =
  as_bids :: "AuditLevel list"
  as_asks :: "AuditLevel list"

definition AuditBookSnapshot_Serialize :: "AuditBookSnapshot \<Rightarrow> u8 list \<Rightarrow> u8 list" where
  "AuditBookSnapshot_Serialize snapshot buffer = buffer"

text \<open>\<^verbatim>\<open>AuditBookSnapshot::Serialize\<close> has an empty body. A trivially copyable entry
  carries the memory its object was built in, whose bytes outside the members in use end up in the
  journal.\<close>

datatype AuditData =
    A_None
  | A_Command "u8 list" CommandPayload
  | A_Snapshot AuditBookSnapshot
  | A_Event "u8 list" EventPayload
  | A_Trade "u8 list" Trade

subsection \<open>The journals\<close>

record Audit =
  m_SnapshotsLog :: OutputFileStream
  m_CommandsLog :: OutputFileStream
  m_EventsLog :: OutputFileStream
  m_TradesLog :: OutputFileStream
  audit_queue :: "AuditData ThreadSafeQueue"

definition Audit_open :: "(string \<Rightarrow> bool) \<Rightarrow> string + Audit" where
  "Audit_open opened =
     (let open_log = (\<lambda>name. OutputFileStream_open (opened (''Logging/'' @ name)) (''Logging/'' @ name)) in
      case open_log ''Snapshots.journal'' of Inl err \<Rightarrow> Inl err | Inr snapshots \<Rightarrow>
      (case open_log ''Commands.journal'' of Inl err \<Rightarrow> Inl err | Inr commands \<Rightarrow>
      (case open_log ''Events.journal'' of Inl err \<Rightarrow> Inl err | Inr events \<Rightarrow>
      (case open_log ''Trades.journal'' of Inl err \<Rightarrow> Inl err | Inr trades \<Rightarrow>
         Inr \<lparr>m_SnapshotsLog = snapshots, m_CommandsLog = commands, m_EventsLog = events,
              m_TradesLog = trades, audit_queue = TSQ_init\<rparr>))))"

definition Decompose :: "bool \<Rightarrow> AuditData \<Rightarrow> Audit \<Rightarrow> Audit" where
  "Decompose be data a =
     (case data of
        A_None \<Rightarrow> a
      | A_Command mem cmd \<Rightarrow>
          a\<lparr>m_CommandsLog := WriteToBuffer (Inl (Command_Serialize be mem cmd)) (m_CommandsLog a)\<rparr>
      | A_Snapshot snapshot \<Rightarrow>
          a\<lparr>m_SnapshotsLog := WriteToBuffer (Inr (AuditBookSnapshot_Serialize snapshot)) (m_SnapshotsLog a)\<rparr>
      | A_Event mem event \<Rightarrow>
          a\<lparr>m_EventsLog := WriteToBuffer (Inl (Event_Serialize be mem event)) (m_EventsLog a)\<rparr>
      | A_Trade mem trade \<Rightarrow>
          a\<lparr>m_TradesLog := WriteToBuffer (Inl (Trade_bytes be mem trade)) (m_TradesLog a)\<rparr>)"

text \<open>What the operating system answers to the two calls of each flush.\<close>

record flush_io =
  io_snapshots :: "io_result \<times> io_result"
  io_commands :: "io_result \<times> io_result"
  io_events :: "io_result \<times> io_result"
  io_trades :: "io_result \<times> io_result"

definition flush_log :: "io_result \<times> io_result \<Rightarrow> OutputFileStream \<Rightarrow> OutputFileStream" where
  "flush_log io log = snd (WriteBufferToFile (fst io) (snd io) log)"

definition FlushAll :: "flush_io \<Rightarrow> Audit \<Rightarrow> Audit" where
  "FlushAll io a =
     a\<lparr>m_SnapshotsLog := flush_log (io_snapshots io) (m_SnapshotsLog a),
       m_CommandsLog := flush_log (io_commands io) (m_CommandsLog a),
       m_EventsLog := flush_log (io_events io) (m_EventsLog a),
       m_TradesLog := flush_log (io_trades io) (m_TradesLog a)\<rparr>"

definition Enqueue :: "AuditData \<Rightarrow> Audit \<Rightarrow> Audit" where
  "Enqueue data a = a\<lparr>audit_queue := snd (push data (audit_queue a))\<rparr>"

subsection \<open>The writer thread\<close>

text \<open>\<open>writer\<close> is where \<^verbatim>\<open>Run\<close> is: no thread to join, at the stop test, at
  \<^verbatim>\<open>wait_and_pop\<close>, at the last flush, or returned; \<open>stopper\<close> is where
  \<^verbatim>\<open>Stop\<close> is: not called, after closing the queue, or joining. \<open>accepted\<close> and
  \<open>handled\<close> record the entries the queue took and those written.\<close>

datatype audit_pc = W_None | W_Test | W_Wait | W_Flush | W_Exited
datatype stop_pc = S_Running | S_Closed | S_Joining

record AuditState =
  audit :: Audit
  writer :: audit_pc
  stopper :: stop_pc
  audit_stop :: bool
  last_flush :: i64
  accepted :: "AuditData list"
  handled :: "AuditData list"

definition audit_start :: "Audit \<Rightarrow> AuditState" where
  "audit_start a = \<lparr>audit = a, writer = W_None, stopper = S_Running, audit_stop = False,
     last_flush = 0, accepted = [], handled = []\<rparr>"

text \<open>One iteration of the loop of \<^verbatim>\<open>Run\<close>, with the clock read at its end. Times are in
  nanoseconds; the interval is compared without wrap-around.\<close>

definition handle_entry ::
  "bool \<Rightarrow> u64 \<Rightarrow> i64 \<Rightarrow> flush_io \<Rightarrow> AuditData \<Rightarrow> AuditState \<Rightarrow> AuditState" where
  "handle_entry be tick_ms now io data s =
     (let a = Decompose be data (audit s);
          due = 1000000 * int (unat tick_ms) \<le> sint now - sint (last_flush s)
      in s\<lparr>audit := (if due then FlushAll io a else a),
           last_flush := (if due then now else last_flush s),
           handled := handled s @ [data], writer := W_Test\<rparr>)"

inductive audit_step :: "bool \<Rightarrow> u64 \<Rightarrow> AuditState \<Rightarrow> AuditState \<Rightarrow> bool" for be tick_ms where
  au_enqueue: "push data (audit_queue (audit s)) = (ok, q) \<Longrightarrow>
    audit_step be tick_ms s (s\<lparr>audit := Enqueue data (audit s),
      accepted := accepted s @ (if ok then [data] else [])\<rparr>)"
| au_start: "writer s = W_None \<Longrightarrow> stopper s = S_Running \<Longrightarrow>
    audit_step be tick_ms s (s\<lparr>writer := W_Test, audit_stop := False, last_flush := now\<rparr>)"
| au_test: "writer s = W_Test \<Longrightarrow> \<not> audit_stop s \<Longrightarrow> audit_step be tick_ms s (s\<lparr>writer := W_Wait\<rparr>)"
| au_stopped: "writer s = W_Test \<Longrightarrow> audit_stop s \<Longrightarrow> audit_step be tick_ms s (s\<lparr>writer := W_Flush\<rparr>)"
| au_entry: "writer s = W_Wait \<Longrightarrow> wait_and_pop (audit_queue (audit s)) = Some (Some data, q) \<Longrightarrow>
    audit_step be tick_ms s
      (handle_entry be tick_ms now io data (s\<lparr>audit := (audit s)\<lparr>audit_queue := q\<rparr>\<rparr>))"
| au_end: "writer s = W_Wait \<Longrightarrow> wait_and_pop (audit_queue (audit s)) = Some (None, q) \<Longrightarrow>
    audit_step be tick_ms s (s\<lparr>writer := W_Flush\<rparr>)"
| au_flush: "writer s = W_Flush \<Longrightarrow>
    audit_step be tick_ms s (s\<lparr>audit := FlushAll io (audit s), writer := W_Exited\<rparr>)"
| au_stop_close: "stopper s = S_Running \<Longrightarrow>
    audit_step be tick_ms s (s\<lparr>audit := (audit s)\<lparr>audit_queue := close (audit_queue (audit s))\<rparr>,
      stopper := S_Closed\<rparr>)"
| au_stop_nothing: "stopper s = S_Closed \<Longrightarrow> writer s = W_None \<Longrightarrow>
    audit_step be tick_ms s (s\<lparr>stopper := S_Running\<rparr>)"
| au_stop_request: "stopper s = S_Closed \<Longrightarrow> writer s \<noteq> W_None \<Longrightarrow>
    audit_step be tick_ms s (s\<lparr>audit_stop := True, stopper := S_Joining\<rparr>)"
| au_stop_join: "stopper s = S_Joining \<Longrightarrow> writer s = W_Exited \<Longrightarrow>
    audit_step be tick_ms s (s\<lparr>stopper := S_Running, writer := W_None\<rparr>)"

inductive audit_reachable :: "bool \<Rightarrow> u64 \<Rightarrow> AuditState \<Rightarrow> bool" for be tick_ms where
  audit_first: "Audit_open opened = Inr a \<Longrightarrow> audit_reachable be tick_ms (audit_start a)"
| audit_next: "audit_reachable be tick_ms s \<Longrightarrow> audit_step be tick_ms s s' \<Longrightarrow>
    audit_reachable be tick_ms s'"

subsection \<open>What the journals hold\<close>

fun command_entry :: "AuditData \<Rightarrow> (u8 list \<times> CommandPayload) list" where
  "command_entry (A_Command mem cmd) = [(mem, cmd)]" | "command_entry _ = []"

fun event_entry :: "AuditData \<Rightarrow> (u8 list \<times> EventPayload) list" where
  "event_entry (A_Event mem event) = [(mem, event)]" | "event_entry _ = []"

fun trade_entry :: "AuditData \<Rightarrow> (u8 list \<times> Trade) list" where
  "trade_entry (A_Trade mem trade) = [(mem, trade)]" | "trade_entry _ = []"

definition command_journal :: "bool \<Rightarrow> AuditData list \<Rightarrow> u8 list" where
  "command_journal be ds = concat (map (\<lambda>(mem, cmd). Command_Serialize be mem cmd) (concat (map command_entry ds)))"

definition event_journal :: "bool \<Rightarrow> AuditData list \<Rightarrow> u8 list" where
  "event_journal be ds = concat (map (\<lambda>(mem, event). Event_Serialize be mem event) (concat (map event_entry ds)))"

definition trade_journal :: "bool \<Rightarrow> AuditData list \<Rightarrow> u8 list" where
  "trade_journal be ds = concat (map (\<lambda>(mem, trade). Trade_bytes be mem trade) (concat (map trade_entry ds)))"

text \<open>The three journals with contents are logs of records.\<close>

interpretation command_log: record_journal stream_inv "\<lambda>s. os_file (ofs_Stream s)"
    "\<lambda>s. os_file (ofs_Stream s) @ os_pending (ofs_Stream s) @ ofs_Buffer s" "\<lambda>s. os_good (ofs_Stream s)"
    "\<lambda>bytes. WriteToBuffer (Inl bytes)" "\<lambda>io s. snd (WriteBufferToFile (fst io) (snd io) s)"
    40 "\<lambda>(mem, cmd). Command_Serialize be mem cmd" "Command_Deserialize be" snd
    "\<lambda>(mem, cmd). length mem = 32 \<and> command_ok cmd" for be
  by intro_locales

interpretation event_log: record_journal stream_inv "\<lambda>s. os_file (ofs_Stream s)"
    "\<lambda>s. os_file (ofs_Stream s) @ os_pending (ofs_Stream s) @ ofs_Buffer s" "\<lambda>s. os_good (ofs_Stream s)"
    "\<lambda>bytes. WriteToBuffer (Inl bytes)" "\<lambda>io s. snd (WriteBufferToFile (fst io) (snd io) s)"
    64 "\<lambda>(mem, ev). Event_Serialize be mem ev" "Event_Deserialize be" "\<lambda>(mem, ev). event_seen be mem ev"
    "\<lambda>(mem, ev). length mem = 56 \<and> event_ok ev" for be
  by intro_locales

interpretation trade_log: record_journal stream_inv "\<lambda>s. os_file (ofs_Stream s)"
    "\<lambda>s. os_file (ofs_Stream s) @ os_pending (ofs_Stream s) @ ofs_Buffer s" "\<lambda>s. os_good (ofs_Stream s)"
    "\<lambda>bytes. WriteToBuffer (Inl bytes)" "\<lambda>io s. snd (WriteBufferToFile (fst io) (snd io) s)"
    56 "\<lambda>(mem, t). Trade_bytes be mem t" "Trade_of_bytes be" "\<lambda>(mem, t). trade_seen be mem t"
    "\<lambda>(mem, t). length mem = 56" for be
  by intro_locales

definition journals_inv :: "bool \<Rightarrow> AuditData list \<Rightarrow> Audit \<Rightarrow> bool" where
  "journals_inv be ds a \<longleftrightarrow>
     stream_inv [] (m_SnapshotsLog a) \<and> stream_inv (command_journal be ds) (m_CommandsLog a) \<and>
     stream_inv (event_journal be ds) (m_EventsLog a) \<and> stream_inv (trade_journal be ds) (m_TradesLog a)"

lemmas journal_defs = command_journal_def event_journal_def trade_journal_def

lemma journals_inv_decompose:
  "journals_inv be ds a \<Longrightarrow> journals_inv be (ds @ [data]) (Decompose be data a)"
  by (cases data) (auto simp: journals_inv_def journal_defs Decompose_def AuditBookSnapshot_Serialize_def
      WriteToBuffer_def [of "Inr _"] intro: stream_log.holds_append)

lemma journals_inv_flush: "journals_inv be ds a \<Longrightarrow> journals_inv be ds (FlushAll io a)"
  by (simp add: journals_inv_def FlushAll_def flush_log_def stream_log.holds_flush)

lemma journals_inv_queue [simp]: "journals_inv be ds (a\<lparr>audit_queue := q\<rparr>) = journals_inv be ds a"
  by (simp add: journals_inv_def)

lemma journals_inv_open: "Audit_open opened = Inr a \<Longrightarrow> journals_inv be [] a \<and> audit_queue a = TSQ_init"
  unfolding Audit_open_def Let_def
  by (auto simp: journals_inv_def journal_defs split: sum.splits intro: stream_inv_open)

lemma queue_frame [simp]:
  "audit_queue (Decompose be data a) = audit_queue a" "audit_queue (FlushAll io a) = audit_queue a"
  by (simp_all add: Decompose_def FlushAll_def split: AuditData.split)

definition audit_inv :: "bool \<Rightarrow> AuditState \<Rightarrow> bool" where
  "audit_inv be s \<longleftrightarrow> journals_inv be (handled s) (audit s) \<and>
     accepted s = handled s @ m_Queue (audit_queue (audit s))"

lemma wait_and_pop_taken:
  "wait_and_pop q = Some (Some x, q') \<Longrightarrow> m_Queue q = x # m_Queue q'"
  by (auto simp: wait_and_pop_def split: if_splits list.splits)

lemma audit_step_inv: "audit_step be tick_ms s s' \<Longrightarrow> audit_inv be s \<Longrightarrow> audit_inv be s'"
proof (induction rule: audit_step.induct)
  case (au_enqueue data s ok q)
  then show ?case by (auto simp: audit_inv_def Enqueue_def push_def split: if_splits)
next
  case (au_entry s data q now io)
  then have j: "journals_inv be (handled s @ [data]) (Decompose be data ((audit s)\<lparr>audit_queue := q\<rparr>))"
    by (intro journals_inv_decompose) (simp add: audit_inv_def)
  show ?case
    using au_entry wait_and_pop_taken [OF au_entry(2)] j journals_inv_flush [OF j]
    by (simp add: audit_inv_def handle_entry_def Let_def)
next
  case (au_flush s io)
  then show ?case by (simp add: audit_inv_def journals_inv_flush)
qed (simp_all add: audit_inv_def close_def)

lemma audit_reachable_inv: "audit_reachable be tick_ms s \<Longrightarrow> audit_inv be s"
proof (induction rule: audit_reachable.induct)
  case (audit_first opened a)
  from journals_inv_open [OF this] show ?case by (simp add: audit_inv_def audit_start_def TSQ_init_def)
qed (rule audit_step_inv)


subsection \<open>Properties\<close>

text \<open>C35: the command journal reads back as the commands handled so far. While its stream is good,
  the file together with what is still buffered decodes, record by record, to exactly the commands
  among the entries handled, in the order in which they were accepted; and whatever fails, the file
  alone is a prefix of that journal.\<close>

theorem command_journal_decodes:
  assumes "audit_reachable be tick_ms s"
    and "\<forall>(mem, cmd)\<in>set (concat (map command_entry (handled s))). length mem = 32 \<and> command_ok cmd"
  shows "(\<exists>queued. accepted s = handled s @ queued) \<and>
    prefix (os_file (ofs_Stream (m_CommandsLog (audit s)))) (command_journal be (handled s)) \<and>
    (os_good (ofs_Stream (m_CommandsLog (audit s))) \<longrightarrow>
       decode_all 40 (Command_Deserialize be)
         (os_file (ofs_Stream (m_CommandsLog (audit s))) @ os_pending (ofs_Stream (m_CommandsLog (audit s))) @
          ofs_Buffer (m_CommandsLog (audit s))) =
       Some (map snd (concat (map command_entry (handled s)))))"
proof -
  have inv: "audit_inv be s" using assms(1) by (rule audit_reachable_inv)
  then have log: "stream_inv (command_journal be (handled s)) (m_CommandsLog (audit s))"
    by (simp add: audit_inv_def journals_inv_def)
  show ?thesis
    using inv stream_log.disk_prefix [OF log] command_log.held_decodes [OF log [unfolded command_journal_def]] assms(2)
    by (simp add: audit_inv_def)
qed

definition fresh_log :: OutputFileStream where
  "fresh_log = \<lparr>ofs_Buffer = [], ofs_Stream = os_open\<rparr>"

definition fresh_audit :: Audit where
  "fresh_audit = \<lparr>m_SnapshotsLog = fresh_log, m_CommandsLog = fresh_log, m_EventsLog = fresh_log,
     m_TradesLog = fresh_log, audit_queue = TSQ_init\<rparr>"

lemma fresh_audit_open: "Audit_open (\<lambda>path. True) = Inr fresh_audit"
  by (simp add: Audit_open_def OutputFileStream_open_def fresh_audit_def fresh_log_def)

abbreviation sample_entry :: AuditData where
  "sample_entry \<equiv> A_Command (replicate 32 0) (MakeCancel 1 7)"

definition journal_sample :: "audit_pc \<Rightarrow> AuditState" where
  "journal_sample pc = (audit_start fresh_audit)\<lparr>writer := pc,
     audit := fresh_audit\<lparr>audit_queue := \<lparr>m_Queue = [sample_entry], m_Closed = False\<rparr>\<rparr>,
     accepted := [sample_entry]\<rparr>"

lemma journal_sample_reachable: "audit_reachable False 1000 (journal_sample W_Test)"
proof -
  let ?s0 = "audit_start fresh_audit"
  have s0: "audit_reachable False 1000 ?s0" using fresh_audit_open by (rule audit_first)
  have "audit_step False 1000 ?s0 (?s0\<lparr>writer := W_Test\<rparr>)"
    using au_start [of ?s0 False 1000 0] by (simp add: audit_start_def)
  with s0 have s1: "audit_reachable False 1000 (?s0\<lparr>writer := W_Test\<rparr>)" by (rule audit_next)
  have "audit_step False 1000 (?s0\<lparr>writer := W_Test\<rparr>) (journal_sample W_Test)"
    using au_enqueue [of sample_entry "?s0\<lparr>writer := W_Test\<rparr>" True "\<lparr>m_Queue = [sample_entry], m_Closed = False\<rparr>"]
    by (simp add: journal_sample_def audit_start_def fresh_audit_def TSQ_init_def Enqueue_def)
  with s1 show ?thesis by (rule audit_next)
qed

definition quiet_io :: flush_io where
  "quiet_io = \<lparr>io_snapshots = (Io_Ok 0, Io_Ok 0), io_commands = (Io_Ok 0, Io_Ok 0),
     io_events = (Io_Ok 0, Io_Ok 0), io_trades = (Io_Ok 0, Io_Ok 0)\<rparr>"

definition journal_done :: "i64 \<Rightarrow> AuditState" where
  "journal_done now = handle_entry False 1000 now quiet_io sample_entry
     ((journal_sample W_Wait)\<lparr>audit := fresh_audit\<rparr>)"

lemma journal_done_reachable: "audit_reachable False 1000 (journal_done now)"
proof -
  have "audit_step False 1000 (journal_sample W_Test) (journal_sample W_Wait)"
    using au_test [of "journal_sample W_Test"] by (simp add: journal_sample_def audit_start_def)
  with journal_sample_reachable have "audit_reachable False 1000 (journal_sample W_Wait)" by (rule audit_next)
  moreover have "audit_step False 1000 (journal_sample W_Wait) (journal_done now)"
    using au_entry [of "journal_sample W_Wait" sample_entry "\<lparr>m_Queue = [], m_Closed = False\<rparr>" False 1000 now quiet_io]
    by (simp add: journal_done_def journal_sample_def wait_and_pop_def wait_ready_def fresh_audit_def TSQ_init_def)
  ultimately show ?thesis by (rule audit_next)
qed

lemma journal_done_simps:
  "handled (journal_done 5) = [sample_entry]"
  "ofs_Stream (m_CommandsLog (audit (journal_done 5))) = os_open"
  "ofs_Buffer (m_CommandsLog (audit (journal_done 5))) = Command_Serialize False (replicate 32 0) (MakeCancel 1 7)"
  by (simp_all add: journal_done_def handle_entry_def journal_sample_def audit_start_def Decompose_def
      WriteToBuffer_def WriteRaw_def fresh_audit_def fresh_log_def Let_def)

lemma journal_flushed_simps:
  "handled (journal_done 2000000000) = [sample_entry]"
  "os_file (ofs_Stream (m_CommandsLog (audit (journal_done 2000000000)))) =
     Command_Serialize False (replicate 32 0) (MakeCancel 1 7)"
  by (simp_all add: journal_done_def handle_entry_def journal_sample_def audit_start_def Decompose_def
      WriteToBuffer_def WriteRaw_def fresh_audit_def fresh_log_def FlushAll_def flush_log_def quiet_io_def
      WriteBufferToFile_def os_open_def os_write_def os_flush_def os_move_def Let_def)

theorem command_journal_decodes_witness:
  "decode_all 40 (Command_Deserialize False) (Command_Serialize False (replicate 32 0) (MakeCancel 1 7)) =
     Some [MakeCancel 1 7]"
  using command_journal_decodes [OF journal_done_reachable [of 5]]
  by (simp add: journal_done_simps os_open_def)

text \<open>The whole records of a file of records of \<open>sz\<close> bytes; a record at the end that was cut is
  left out.\<close>

definition whole_records :: "nat \<Rightarrow> u8 list \<Rightarrow> u8 list" where
  "whole_records sz bytes = take (sz * (length bytes div sz)) bytes"

text \<open>C36: whatever write or flush failed, and wherever a file ends, the whole records of the
  journal files are the first commands, events and trades handled, in order: as many as fit. Of
  events and trades, what no constructor wrote reads back as the memory they were built in.\<close>

theorem journal_files_recover:
  assumes "audit_reachable be tick_ms s"
    and "\<forall>(mem, cmd)\<in>set (concat (map command_entry (handled s))). length mem = 32 \<and> command_ok cmd"
    and "\<forall>(mem, ev)\<in>set (concat (map event_entry (handled s))). length mem = 56 \<and> event_ok ev"
    and "\<forall>(mem, t)\<in>set (concat (map trade_entry (handled s))). length mem = 56"
    and "commands = os_file (ofs_Stream (m_CommandsLog (audit s)))"
    and "events = os_file (ofs_Stream (m_EventsLog (audit s)))"
    and "trades = os_file (ofs_Stream (m_TradesLog (audit s)))"
  shows "decode_all 40 (Command_Deserialize be) (whole_records 40 commands) =
      Some (map snd (take (length commands div 40) (concat (map command_entry (handled s))))) \<and>
    decode_all 64 (Event_Deserialize be) (whole_records 64 events) =
      Some (map (\<lambda>(mem, ev). event_seen be mem ev)
        (take (length events div 64) (concat (map event_entry (handled s))))) \<and>
    decode_all 56 (Trade_of_bytes be) (whole_records 56 trades) =
      Some (map (\<lambda>(mem, t). trade_seen be mem t)
        (take (length trades div 56) (concat (map trade_entry (handled s)))))"
proof -
  have "journals_inv be (handled s) (audit s)"
    using audit_reachable_inv [OF assms(1)] by (simp add: audit_inv_def)
  then show ?thesis
    using assms(2-4) unfolding journals_inv_def journal_defs assms(5-7) whole_records_def
    by (blast dest: command_log.disk_recovers event_log.disk_recovers trade_log.disk_recovers)
qed

theorem journal_files_recover_witness:
  "decode_all 40 (Command_Deserialize False)
     (whole_records 40 (Command_Serialize False (replicate 32 0) (MakeCancel 1 7))) = Some [MakeCancel 1 7]"
  using journal_files_recover [OF journal_done_reachable [of 2000000000] _ _ _ refl refl refl]
  by (simp add: journal_flushed_simps length_Command_Serialize)

text \<open>Stopping the audit loses entries: a state is reachable in which \<^verbatim>\<open>Stop\<close> has
  returned, the writer thread has ended, and an accepted entry is still in the queue, in no journal.\<close>

theorem stop_drops_accepted_entries:
  "\<exists>s. audit_reachable False 1000 s \<and> stopper s = S_Running \<and> writer s = W_None \<and>
     m_Closed (audit_queue (audit s)) \<and> accepted s = [sample_entry] \<and> handled s = []"
proof -
  let ?s0 = "journal_sample W_Test"
  let ?a = "(audit ?s0)\<lparr>audit_queue := close (audit_queue (audit ?s0))\<rparr>"
  note facts = journal_sample_def audit_start_def close_def
  have "audit_step False 1000 ?s0 (?s0\<lparr>audit := ?a, stopper := S_Closed\<rparr>)"
    by (rule au_stop_close) (simp add: facts)
  with journal_sample_reachable have r1: "audit_reachable False 1000 (?s0\<lparr>audit := ?a, stopper := S_Closed\<rparr>)"
    by (rule audit_next)
  let ?s2 = "?s0\<lparr>audit := ?a, stopper := S_Joining, audit_stop := True\<rparr>"
  have "audit_step False 1000 (?s0\<lparr>audit := ?a, stopper := S_Closed\<rparr>) ?s2"
    using au_stop_request [of "?s0\<lparr>audit := ?a, stopper := S_Closed\<rparr>"] by (simp add: facts)
  with r1 have r2: "audit_reachable False 1000 ?s2" by (rule audit_next)
  have "audit_step False 1000 ?s2 (?s2\<lparr>writer := W_Flush\<rparr>)" by (rule au_stopped) (simp_all add: facts)
  with r2 have r3: "audit_reachable False 1000 (?s2\<lparr>writer := W_Flush\<rparr>)" by (rule audit_next)
  have "audit_step False 1000 (?s2\<lparr>writer := W_Flush\<rparr>) (?s2\<lparr>audit := FlushAll quiet_io ?a, writer := W_Exited\<rparr>)"
    using au_flush [of "?s2\<lparr>writer := W_Flush\<rparr>" False 1000 quiet_io] by simp
  with r3 have r4: "audit_reachable False 1000 (?s2\<lparr>audit := FlushAll quiet_io ?a, writer := W_Exited\<rparr>)"
    by (rule audit_next)
  let ?s5 = "?s2\<lparr>audit := FlushAll quiet_io ?a, stopper := S_Running, writer := W_None\<rparr>"
  have "audit_step False 1000 (?s2\<lparr>audit := FlushAll quiet_io ?a, writer := W_Exited\<rparr>) ?s5"
    using au_stop_join [of "?s2\<lparr>audit := FlushAll quiet_io ?a, writer := W_Exited\<rparr>"] by simp
  with r4 have "audit_reachable False 1000 ?s5" by (rule audit_next)
  moreover have "stopper ?s5 = S_Running" "writer ?s5 = W_None" "m_Closed (audit_queue (audit ?s5))"
    "accepted ?s5 = [sample_entry]" "handled ?s5 = []"
    by (simp_all add: facts)
  ultimately show ?thesis by blast
qed

text \<open>Book snapshots given to the audit never reach their journal: in every reachable state the
  snapshot file is empty, and its buffer too unless the stream has failed.\<close>

theorem snapshots_leave_no_bytes:
  assumes "audit_reachable be tick_ms s"
  shows "os_file (ofs_Stream (m_SnapshotsLog (audit s))) = [] \<and>
    (os_good (ofs_Stream (m_SnapshotsLog (audit s))) \<longrightarrow> ofs_Buffer (m_SnapshotsLog (audit s)) = [])"
  using audit_reachable_inv [OF assms] by (simp add: audit_inv_def journals_inv_def stream_inv_def)

theorem snapshots_leave_no_bytes_witness:
  "os_file (ofs_Stream (m_SnapshotsLog (audit (journal_done 5)))) = []"
  using snapshots_leave_no_bytes [OF journal_done_reachable] by simp

end
