(* ===== verification/Networking.thy ===== *)
theory Networking
  imports Decimal_Text
begin

text \<open>
  \<^verbatim>\<open>src/src/Networking/SocketCommon.h\<close>, \<^verbatim>\<open>TCP-Client.hpp\<close> and
  \<^verbatim>\<open>TCP-Server.hpp\<close> on a POSIX system: the handles the three classes own and the
  exceptions they throw. What each system call returns is an argument, the set of descriptors open
  in the process is part of the state, and an operation that throws returns \<open>Inl\<close> together with
  the object it leaves behind.
\<close>

subsection \<open>Sockets\<close>

definition InvalidSocket :: i32 where "InvalidSocket = - 1"
definition SocketError :: i32 where "SocketError = - 1"

datatype net_error = SocketException string i32 | RuntimeError string

definition socket_exception :: "string \<Rightarrow> i32 \<Rightarrow> net_error" where
  "socket_exception action errorCode =
     SocketException (action @ ''failed with OS error code: '' @ show_int (sint errorCode)) errorCode"

fun GetErrorCode :: "net_error \<Rightarrow> i32 option" where
  "GetErrorCode (SocketException what code) = Some code"
| "GetErrorCode (RuntimeError what) = None"

definition NetworkPlatform_Init :: bool where "NetworkPlatform_Init = True"

text \<open>\<^verbatim>\<open>socket\<close> and \<^verbatim>\<open>accept\<close> open the descriptor they return.\<close>

definition sys_socket :: "i32 \<Rightarrow> i32 set \<Rightarrow> i32 set" where
  "sys_socket fd fds = (if fd = InvalidSocket then fds else insert fd fds)"

definition CloseSocketHandle :: "i32 \<Rightarrow> i32 set \<Rightarrow> i32 set" where
  "CloseSocketHandle fd fds = fds - {fd}"

subsection \<open>The client\<close>

record TcpClient =
  cl_Socket :: i32
  cl_fds :: "i32 set"

definition TcpClient_init :: "i32 set \<Rightarrow> TcpClient" where
  "TcpClient_init fds = \<lparr>cl_Socket = InvalidSocket, cl_fds = fds\<rparr>"

definition Disconnect :: "TcpClient \<Rightarrow> TcpClient" where
  "Disconnect c =
     (if cl_Socket c \<noteq> InvalidSocket
      then c\<lparr>cl_Socket := InvalidSocket, cl_fds := CloseSocketHandle (cl_Socket c) (cl_fds c)\<rparr>
      else c)"

definition TcpClient_destroy :: "TcpClient \<Rightarrow> TcpClient" where
  "TcpClient_destroy c = Disconnect c"

record connect_io =
  co_socket :: i32
  co_pton :: i32
  co_connect :: i32
  co_errno :: i32

definition Connect :: "connect_io \<Rightarrow> string \<Rightarrow> i32 \<Rightarrow> TcpClient \<Rightarrow> (net_error + unit) \<times> TcpClient" where
  "Connect io ipAddress port c =
     (let c1 = c\<lparr>cl_Socket := co_socket io, cl_fds := sys_socket (co_socket io) (cl_fds c)\<rparr> in
      if cl_Socket c1 = InvalidSocket
      then (Inl (socket_exception ''Client socket initialization'' (co_errno io)), c1)
      else if co_pton io \<le>s 0
      then (Inl (socket_exception (''IP string validation for '' @ ipAddress) (co_errno io)), Disconnect c1)
      else if co_connect io = SocketError
      then (Inl (socket_exception (''Connecting to '' @ ipAddress @ '':'' @ show_int (sint port)) (co_errno io)),
            Disconnect c1)
      else (Inr (), c1))"

text \<open>The size is cast to \<^verbatim>\<open>int\<close> on its way to \<^verbatim>\<open>send\<close>.\<close>

definition send_length :: "u64 \<Rightarrow> i32" where
  "send_length sz = ucast sz"

definition Send :: "(i32 \<Rightarrow> i32) \<Rightarrow> i32 \<Rightarrow> u64 \<Rightarrow> TcpClient \<Rightarrow> net_error + i32" where
  "Send sys_send errno sz c =
     (if cl_Socket c = InvalidSocket then Inl (RuntimeError ''Cannot send data; client is not connected.'')
      else
        let bytesSent = sys_send (send_length sz)
        in if bytesSent = SocketError then Inl (socket_exception ''Send operation'' errno)
           else Inr bytesSent)"

subsection \<open>The server\<close>

record TcpServer =
  m_ListeningSocket :: i32
  sv_fds :: "i32 set"

definition TcpServer_init :: "i32 set \<Rightarrow> TcpServer" where
  "TcpServer_init fds = \<lparr>m_ListeningSocket = InvalidSocket, sv_fds = fds\<rparr>"

definition ServerStop :: "TcpServer \<Rightarrow> TcpServer" where
  "ServerStop v =
     (if m_ListeningSocket v \<noteq> InvalidSocket
      then v\<lparr>m_ListeningSocket := InvalidSocket, sv_fds := CloseSocketHandle (m_ListeningSocket v) (sv_fds v)\<rparr>
      else v)"

record listen_io =
  li_socket :: i32
  li_bind :: i32
  li_listen :: i32
  li_errno :: i32

definition ServerStart :: "listen_io \<Rightarrow> i32 \<Rightarrow> TcpServer \<Rightarrow> (net_error + unit) \<times> TcpServer" where
  "ServerStart io port v =
     (let v1 = v\<lparr>m_ListeningSocket := li_socket io, sv_fds := sys_socket (li_socket io) (sv_fds v)\<rparr> in
      if m_ListeningSocket v1 = InvalidSocket
      then (Inl (socket_exception ''Socket creation'' (li_errno io)), v1)
      else if li_bind io = SocketError
      then (Inl (socket_exception (''Binding port '' @ show_int (sint port)) (li_errno io)), ServerStop v1)
      else if li_listen io = SocketError
      then (Inl (socket_exception ''Listening setup'' (li_errno io)), ServerStop v1)
      else (Inr (), v1))"

record TcpConnection =
  cn_Socket :: i32

definition AcceptNextClient :: "i32 \<Rightarrow> i32 \<Rightarrow> TcpServer \<Rightarrow> (net_error + TcpConnection) \<times> TcpServer" where
  "AcceptNextClient clientSocket errno v =
     (if m_ListeningSocket v = InvalidSocket
      then (Inl (RuntimeError ''Server must be running before calling AcceptNextClient''), v)
      else
        let v1 = v\<lparr>sv_fds := sys_socket clientSocket (sv_fds v)\<rparr>
        in if clientSocket = InvalidSocket then (Inl (socket_exception ''Accept client link'' errno), v1)
           else (Inr \<lparr>cn_Socket = clientSocket\<rparr>, v1))"

definition connection_valid :: "TcpConnection \<Rightarrow> bool" where
  "connection_valid cn \<longleftrightarrow> cn_Socket cn \<noteq> InvalidSocket"

definition Receive :: "(i32 \<Rightarrow> i32) \<Rightarrow> i32 \<Rightarrow> u64 \<Rightarrow> TcpConnection \<Rightarrow> net_error + i32" where
  "Receive sys_recv errno bufferSize cn =
     (let bytes = sys_recv (ucast bufferSize)
      in if bytes <s 0 then Inl (socket_exception ''Read operation'' errno) else Inr bytes)"

definition TcpConnection_destroy :: "TcpConnection \<Rightarrow> i32 set \<Rightarrow> i32 set" where
  "TcpConnection_destroy cn fds =
     (if connection_valid cn then CloseSocketHandle (cn_Socket cn) fds else fds)"

subsection \<open>Properties\<close>

lemmas socket_defs = sys_socket_def CloseSocketHandle_def InvalidSocket_def SocketError_def

text \<open>C37: connecting is all or nothing. When the operating system hands out a descriptor that was
  not open, \<^verbatim>\<open>Connect\<close> either succeeds and holds exactly one more descriptor, or throws
  with the client disconnected and every descriptor it took closed; destroying the client gives
  back what it held.\<close>

theorem connect_all_or_nothing:
  assumes "co_socket io \<notin> cl_fds c"
  shows "case Connect io ip port c of
      (Inr _, c') \<Rightarrow> cl_Socket c' = co_socket io \<and> cl_fds c' = insert (co_socket io) (cl_fds c) \<and>
        cl_fds (TcpClient_destroy c') = cl_fds c
    | (Inl err, c') \<Rightarrow> cl_Socket c' = InvalidSocket \<and> cl_fds c' = cl_fds c \<and>
        GetErrorCode err = Some (co_errno io)"
  using assms by (auto simp: Connect_def Disconnect_def TcpClient_destroy_def socket_exception_def
      socket_defs Let_def)

theorem connect_all_or_nothing_witness:
  "cl_fds (snd (Connect \<lparr>co_socket = 5, co_pton = 1, co_connect = - 1, co_errno = 111\<rparr> ''127.0.0.1'' 9099
     (TcpClient_init {0, 1, 2}))) = {0, 1, 2}"
  using connect_all_or_nothing [of "\<lparr>co_socket = 5, co_pton = 1, co_connect = - 1, co_errno = 111\<rparr>"
    "TcpClient_init {0, 1, 2}" "''127.0.0.1''" 9099]
  by (simp add: TcpClient_init_def Connect_def Disconnect_def socket_defs Let_def)

text \<open>Starting a server is all or nothing in the same way, and a client is only accepted by a
  server that listens; stopping gives back the listening descriptor and is idempotent.\<close>

theorem server_start_all_or_nothing:
  assumes "li_socket io \<notin> sv_fds v"
  shows "(case ServerStart io port v of
      (Inr _, v') \<Rightarrow> m_ListeningSocket v' = li_socket io \<and> sv_fds v' = insert (li_socket io) (sv_fds v) \<and>
        sv_fds (ServerStop v') = sv_fds v
    | (Inl err, v') \<Rightarrow> m_ListeningSocket v' = InvalidSocket \<and> sv_fds v' = sv_fds v \<and>
        fst (AcceptNextClient fd errno v') =
          Inl (RuntimeError ''Server must be running before calling AcceptNextClient'')) \<and>
    ServerStop (ServerStop v) = ServerStop v"
  using assms by (auto simp: ServerStart_def ServerStop_def AcceptNextClient_def socket_defs Let_def)

theorem server_start_all_or_nothing_witness:
  "sv_fds (snd (ServerStart \<lparr>li_socket = 4, li_bind = - 1, li_listen = 0, li_errno = 98\<rparr> 9099
     (TcpServer_init {0, 1, 2}))) = {0, 1, 2}"
  using server_start_all_or_nothing [of "\<lparr>li_socket = 4, li_bind = - 1, li_listen = 0, li_errno = 98\<rparr>"
    "TcpServer_init {0, 1, 2}" 9099]
  by (simp add: TcpServer_init_def ServerStart_def ServerStop_def socket_defs Let_def)

text \<open>Connecting a connected client, or starting a running server, leaks the descriptor it held:
  after both have been destroyed one descriptor stays open.\<close>

theorem second_connect_leaks:
  "cl_fds (TcpClient_destroy (snd (Connect \<lparr>co_socket = 6, co_pton = 1, co_connect = 0, co_errno = 0\<rparr> ip port
     (snd (Connect \<lparr>co_socket = 5, co_pton = 1, co_connect = 0, co_errno = 0\<rparr> ip port
        (TcpClient_init {})))))) = {5} \<and>
   sv_fds (ServerStop (snd (ServerStart \<lparr>li_socket = 6, li_bind = 0, li_listen = 0, li_errno = 0\<rparr> port
     (snd (ServerStart \<lparr>li_socket = 5, li_bind = 0, li_listen = 0, li_errno = 0\<rparr> port
        (TcpServer_init {})))))) = {5}"
  by (auto simp: Connect_def Disconnect_def TcpClient_destroy_def TcpClient_init_def ServerStart_def
      ServerStop_def TcpServer_init_def socket_defs Let_def word_sle_eq)


lemma send_length_small: "unat sz < 2 ^ 31 \<Longrightarrow> sint (send_length sz) = int (unat sz)"
proof -
  assume "unat sz < 2 ^ 31"
  then have "int (unat sz) < int (2 ^ 31)" by (simp only: of_nat_less_iff)
  then have "uint sz < 2 ^ 31" by simp
  moreover have "0 \<le> uint sz" by simp
  ultimately have "signed_take_bit 31 (uint sz) = uint sz"
    by (intro signed_take_bit_int_eq_self) linarith+
  then show ?thesis by (simp add: send_length_def signed_ucast_eq)
qed

lemma send_length_wraps: "send_length (2 ^ 32) = 0"
  by (simp add: send_length_def)

end
