(* ===== verification/Socket_Drivers.thy ===== *)
theory Socket_Drivers
  imports Networking
begin

text \<open>
  \<^verbatim>\<open>src/src/test.cpp\<close> and \<^verbatim>\<open>src/src/test2.cpp\<close>: the two manual drivers of the
  socket classes, a server that prints what one client sends and a client that sends the words of
  its standard input. A run is the text on the two output streams, how the process ends and the
  descriptors that are then open; \<open>None\<close> is a run that does not end.
\<close>

subsection \<open>Runs\<close>

datatype process_end = Exit i32 | Terminated

record driver_run =
  dr_out :: string
  dr_err :: string
  dr_end :: process_end
  dr_fds :: "i32 set"

definition line :: "string \<Rightarrow> string" where
  "line s = s @ [CHR 0x0A]"

fun what :: "net_error \<Rightarrow> string" where
  "what (SocketException msg code) = msg"
| "what (RuntimeError msg) = msg"

text \<open>The handler of both programs, which catches a \<^verbatim>\<open>SocketException\<close> and nothing
  else; \<open>fds\<close> is what is open once the stack has been unwound.\<close>

fun handle_exception :: "string \<Rightarrow> string \<Rightarrow> net_error \<Rightarrow> i32 set \<Rightarrow> driver_run" where
  "handle_exception who out (SocketException msg code) fds =
     \<lparr>dr_out = out, dr_err = line (who @ msg), dr_end = Exit 0, dr_fds = fds\<rparr>"
| "handle_exception who out (RuntimeError msg) fds =
     \<lparr>dr_out = out, dr_err = [], dr_end = Terminated, dr_fds = fds\<rparr>"

subsection \<open>The server\<close>

text \<open>One answer of \<^verbatim>\<open>recv\<close>: its result, the error number and what is in the buffer. The
  loop waits (\<open>None\<close>) when there is no further answer.\<close>

fun receive_loop :: "TcpConnection \<Rightarrow> (i32 \<times> i32 \<times> string) list \<Rightarrow> string \<Rightarrow> (string \<times> net_error option) option"
where
  "receive_loop cn [] out = None"
| "receive_loop cn ((result, errno, buffer) # answers) out =
     (case Receive (\<lambda>_. result) errno 512 cn of
        Inl err \<Rightarrow> Some (out, Some err)
      | Inr bytesRead \<Rightarrow>
          if bytesRead = 0 then Some (out @ line ''[Server] Client disconnected gracefully.'', None)
          else receive_loop cn answers
                 (out @ line (''[Server] Received order payload: '' @ take (nat (sint bytesRead)) buffer)))"

definition server_main ::
  "listen_io \<Rightarrow> i32 \<Rightarrow> i32 \<Rightarrow> (i32 \<times> i32 \<times> string) list \<Rightarrow> i32 set \<Rightarrow> driver_run option" where
  "server_main io accepted errno answers fds =
     (if \<not> NetworkPlatform_Init
      then Some \<lparr>dr_out = [], dr_err = line ''Global system network initialization failed.'',
                dr_end = Exit 1, dr_fds = fds\<rparr>
      else case ServerStart io 9099 (TcpServer_init fds) of
        (Inl err, v) \<Rightarrow> Some (handle_exception ''[Server Exception] '' [] err (sv_fds (ServerStop v)))
      | (Inr _, v) \<Rightarrow>
          let out = line ''[Server] Order book engine server listening on port 9099...'' in
          case AcceptNextClient accepted errno v of
            (Inl err, v1) \<Rightarrow> Some (handle_exception ''[Server Exception] '' out err (sv_fds (ServerStop v1)))
          | (Inr cn, v1) \<Rightarrow>
              do {
                (out1, ex) \<leftarrow> receive_loop cn answers (out @ line ''[Server] Client session accepted!'');
                let v2 = ServerStop (v1\<lparr>sv_fds := TcpConnection_destroy cn (sv_fds v1)\<rparr>);
                Some (case ex of
                    Some err \<Rightarrow> handle_exception ''[Server Exception] '' out1 err (sv_fds v2)
                  | None \<Rightarrow> \<lparr>dr_out = out1, dr_err = [], dr_end = Exit 0, dr_fds = sv_fds v2\<rparr>)
              })"

subsection \<open>The client\<close>

text \<open>The input is the list of its words; at its end \<^verbatim>\<open>std::cin >> str\<close> leaves the fresh
  string empty, and the program does not look at the stream's state. \<open>sends i\<close> is what
  \<^verbatim>\<open>send\<close> does, and the error number, the \<open>i\<close>-th time.\<close>

partial_function (option) client_loop ::
  "(nat \<Rightarrow> (i32 \<Rightarrow> i32) \<times> i32) \<Rightarrow> nat \<Rightarrow> string list \<Rightarrow> string \<Rightarrow> TcpClient \<Rightarrow>
   (string \<times> net_error option \<times> TcpClient) option" where
  "client_loop sends i input out c =
     (let str = (if input = [] then '''' else hd input) in
      if str = ''SHUTDOWN'' then Some (out, None, Disconnect c)
      else case Send (fst (sends i)) (snd (sends i)) (of_nat (length str)) c of
        Inl err \<Rightarrow> Some (out, Some err, c)
      | Inr _ \<Rightarrow> client_loop sends (i + 1) (tl input)
                   (out @ line ''[Client] Mock Order sent successfully.'') c)"

definition client_main ::
  "connect_io \<Rightarrow> (nat \<Rightarrow> (i32 \<Rightarrow> i32) \<times> i32) \<Rightarrow> string list \<Rightarrow> i32 set \<Rightarrow> driver_run option" where
  "client_main io sends input fds =
     (let out = line (''[Client] Connecting to server: '' @ show_int 9099 @ ''...'') in
      case Connect io ''127.0.0.1'' 9099 (TcpClient_init fds) of
        (Inl err, c) \<Rightarrow> Some (handle_exception ''[Client Exception] '' out err (cl_fds (TcpClient_destroy c)))
      | (Inr _, c) \<Rightarrow>
          do {
            (out1, ex, c1) \<leftarrow> client_loop sends 0 input out c;
            let fds1 = cl_fds (TcpClient_destroy c1);
            Some (case ex of
                Some err \<Rightarrow> handle_exception ''[Client Exception] '' out1 err fds1
              | None \<Rightarrow> \<lparr>dr_out = out1, dr_err = [], dr_end = Exit 0, dr_fds = fds1\<rparr>)
          })"

subsection \<open>Properties\<close>

lemma AcceptNextClient_listening:
  "m_ListeningSocket v \<noteq> InvalidSocket \<Longrightarrow> AcceptNextClient fd errno v =
     (if fd = InvalidSocket then (Inl (socket_exception ''Accept client link'' errno), v)
      else (Inr \<lparr>cn_Socket = fd\<rparr>, v\<lparr>sv_fds := insert fd (sv_fds v)\<rparr>))"
  by (simp add: AcceptNextClient_def sys_socket_def Let_def)

lemma receive_loop_error:
  "receive_loop cn answers out = Some (out1, Some err) \<Longrightarrow> \<exists>errno. err = socket_exception ''Read operation'' errno"
proof (induction cn answers out rule: receive_loop.induct)
  case (2 cn result errno buffer answers out)
  then show ?case by (auto simp: Receive_def Let_def split: if_splits)
qed simp

lemma handle_socket_exception [simp]:
  "dr_fds (handle_exception who out err fds) = fds"
  "dr_end (handle_exception who out (socket_exception action errno) fds) = Exit 0"
  by (cases err; simp add: socket_exception_def)+

text \<open>Whatever the operating system answers, a server run that ends does so with exit code 0 and
  has closed both sockets it opened, when they were not in use before.\<close>

theorem server_main_closes_sockets:
  assumes "server_main io accepted errno answers fds = Some r"
    and "li_socket io \<notin> fds" and "accepted \<notin> insert (li_socket io) fds"
  shows "dr_fds r = fds \<and> dr_end r = Exit 0"
proof (cases "ServerStart io 9099 (TcpServer_init fds)")
  case (Pair res v)
  show ?thesis
  proof (cases res)
    case (Inl err)
    with Pair have "v = TcpServer_init fds \<and> (\<exists>a. err = socket_exception a (li_errno io))"
      using assms(2) by (auto simp: ServerStart_def ServerStop_def TcpServer_init_def socket_defs Let_def
          split: if_splits)
    with assms(1) Pair Inl show ?thesis
      by (auto simp: server_main_def NetworkPlatform_Init_def ServerStop_def TcpServer_init_def)
  next
    case (Inr u)
    with Pair have v: "v = \<lparr>m_ListeningSocket = li_socket io, sv_fds = insert (li_socket io) fds\<rparr>"
      and li: "li_socket io \<noteq> InvalidSocket"
      by (auto simp: ServerStart_def ServerStop_def TcpServer_init_def socket_defs Let_def split: if_splits)
    with assms Pair Inr show ?thesis
      by (auto simp: server_main_def NetworkPlatform_Init_def AcceptNextClient_listening ServerStop_def
          TcpConnection_destroy_def connection_valid_def CloseSocketHandle_def Let_def bind_eq_Some_conv
          dest!: receive_loop_error split: if_splits option.splits)
  qed
qed

theorem server_main_closes_sockets_witness:
  "map_option dr_fds (server_main \<lparr>li_socket = 4, li_bind = 0, li_listen = 0, li_errno = 0\<rparr> 5 0
     [(3, 0, ''BUY''), (- 1, 104, '''')] {0, 1, 2}) = Some {0, 1, 2}"
proof -
  obtain r where r: "server_main \<lparr>li_socket = 4, li_bind = 0, li_listen = 0, li_errno = 0\<rparr> 5 0
     [(3, 0, ''BUY''), (- 1, 104, '''')] {0, 1, 2} = Some r"
    by (simp add: server_main_def NetworkPlatform_Init_def ServerStart_def TcpServer_init_def
        AcceptNextClient_def Receive_def socket_defs word_sless_alt Let_def)
  then show ?thesis using server_main_closes_sockets [OF r] by simp
qed

lemma sint_of_length: "n \<le> 512 \<Longrightarrow> sint (of_nat n :: i32) = int n"
proof -
  assume "n \<le> 512"
  then have "signed_take_bit 31 (int n) = int n" by (intro signed_take_bit_int_eq_self) simp_all
  then show ?thesis by (simp add: signed_of_nat)
qed

lemma receive_loop_echo:
  "\<forall>m\<in>set ms. 0 < length m \<and> length m \<le> 512 \<Longrightarrow>
   receive_loop cn (map (\<lambda>m. (of_nat (length m), 0, m)) ms @ (0, errno, buffer) # rest) out =
     Some (out @ concat (map (\<lambda>m. line (''[Server] Received order payload: '' @ m)) ms) @
       line ''[Server] Client disconnected gracefully.'', None)"
proof (induction ms arbitrary: out)
  case (Cons m ms)
  then have s: "sint (of_nat (length m) :: i32) = int (length m)" by (simp add: sint_of_length)
  with Cons.prems have "(of_nat (length m) :: i32) \<noteq> 0" by (metis list.set_intros(1) of_nat_eq_0_iff signed_0 less_irrefl)
  with s Cons show ?case
    by (simp add: Receive_def Let_def word_sless_alt)
qed (simp add: Receive_def Let_def)

text \<open>A server that gets to listen and to accept a client prints each message it receives, in the
  order received, until the client closes the connection.\<close>

theorem server_main_echoes:
  assumes "li_socket io \<noteq> InvalidSocket" and "li_bind io \<noteq> SocketError" and "li_listen io \<noteq> SocketError"
    and "accepted \<noteq> InvalidSocket" and "\<forall>m\<in>set ms. 0 < length m \<and> length m \<le> 512"
  shows "map_option dr_out (server_main io accepted e
      (map (\<lambda>m. (of_nat (length m), 0, m)) ms @ (0, errno, buffer) # rest) fds) =
    Some (line ''[Server] Order book engine server listening on port 9099...'' @
      line ''[Server] Client session accepted!'' @
      concat (map (\<lambda>m. line (''[Server] Received order payload: '' @ m)) ms) @
      line ''[Server] Client disconnected gracefully.'')"
  using assms(1-4) receive_loop_echo [OF assms(5)]
  by (simp add: server_main_def NetworkPlatform_Init_def ServerStart_def TcpServer_init_def
      AcceptNextClient_listening Let_def)

theorem server_main_echoes_witness:
  "map_option dr_out (server_main \<lparr>li_socket = 4, li_bind = 0, li_listen = 0, li_errno = 0\<rparr> 5 0
     [(3, 0, ''BUY''), (0, 0, '''')] {0, 1, 2}) =
   Some (line ''[Server] Order book engine server listening on port 9099...'' @
      line ''[Server] Client session accepted!'' @
      line ''[Server] Received order payload: BUY'' @
      line ''[Server] Client disconnected gracefully.'')"
  using server_main_echoes [of "\<lparr>li_socket = 4, li_bind = 0, li_listen = 0, li_errno = 0\<rparr>" 5 "[''BUY'']"
    0 0 "''''" "[]" "{0, 1, 2}"]
  by (simp add: socket_defs)

text \<open>What the two properties of the client assume of the operating system: the connection is
  made, on a new descriptor, and every \<^verbatim>\<open>send\<close> succeeds.\<close>

definition connected :: "connect_io \<Rightarrow> (nat \<Rightarrow> (i32 \<Rightarrow> i32) \<times> i32) \<Rightarrow> i32 set \<Rightarrow> bool" where
  "connected io sends fds \<longleftrightarrow>
     co_socket io \<noteq> InvalidSocket \<and> co_socket io \<notin> fds \<and> 0 <s co_pton io \<and> co_connect io \<noteq> SocketError \<and>
     (\<forall>i n. fst (sends i) n \<noteq> SocketError)"

lemma Connect_connected:
  "connected io sends fds \<Longrightarrow> Connect io ip port (TcpClient_init fds) =
     (Inr (), \<lparr>cl_Socket = co_socket io, cl_fds = insert (co_socket io) fds\<rparr>)"
  by (auto simp: connected_def Connect_def TcpClient_init_def sys_socket_def Let_def
      word_sless_alt word_sle_eq)

lemma client_loop_sends:
  assumes "\<And>i n. fst (sends i) n \<noteq> SocketError" and "cl_Socket c \<noteq> InvalidSocket"
  shows "\<not> (input \<noteq> [] \<and> hd input = ''SHUTDOWN'') \<Longrightarrow> client_loop sends i input out c =
      client_loop sends (i + 1) (tl input) (out @ line ''[Client] Mock Order sent successfully.'') c"
    and "client_loop sends i (''SHUTDOWN'' # rest) out c = Some (out, None, Disconnect c)"
  using assms by (auto simp: client_loop.simps [of sends i] Send_def Let_def)

lemma client_loop_shutdown:
  assumes "\<And>i n. fst (sends i) n \<noteq> SocketError" and "cl_Socket c \<noteq> InvalidSocket"
  shows "''SHUTDOWN'' \<notin> set ws \<Longrightarrow> client_loop sends i (ws @ ''SHUTDOWN'' # rest) out c =
    Some (out @ concat (replicate (length ws) (line ''[Client] Mock Order sent successfully.'')), None, Disconnect c)"
proof (induction ws arbitrary: i out)
  case (Cons w ws)
  then show ?case using client_loop_sends(1) [OF assms, of "(w # ws) @ ''SHUTDOWN'' # rest"] by auto
qed (simp add: client_loop_sends(2) [OF assms])

lemma client_loop_never_returns:
  assumes "client_loop sends i input out c = Some r"
  shows "\<not> ((\<forall>i n. fst (sends i) n \<noteq> SocketError) \<and> cl_Socket c \<noteq> InvalidSocket \<and> ''SHUTDOWN'' \<notin> set input)"
  using _ assms
proof (rule client_loop.raw_induct)
  fix loop :: "(nat \<Rightarrow> (i32 \<Rightarrow> i32) \<times> i32) \<Rightarrow> nat \<Rightarrow> string list \<Rightarrow> string \<Rightarrow> TcpClient \<Rightarrow>
     (string \<times> net_error option \<times> TcpClient) option" and sends i input out c r
  assume IH: "\<And>sends i input out c r. loop sends i input out c = Some r \<Longrightarrow>
      \<not> ((\<forall>i n. fst (sends i) n \<noteq> SocketError) \<and> cl_Socket c \<noteq> InvalidSocket \<and> ''SHUTDOWN'' \<notin> set input)"
    and step: "(let str = (if input = [] then '''' else hd input) in
      if str = ''SHUTDOWN'' then Some (out, None, Disconnect c)
      else case Send (fst (sends i)) (snd (sends i)) (of_nat (length str)) c of
        Inl err \<Rightarrow> Some (out, Some err, c)
      | Inr _ \<Rightarrow> loop sends (i + 1) (tl input)
                   (out @ line ''[Client] Mock Order sent successfully.'') c) = Some r"
  have "set (tl input) \<subseteq> set input" by (cases input) auto
  with step IH [of sends "i + 1" "tl input" "out @ line ''[Client] Mock Order sent successfully.''" c r]
  show "\<not> ((\<forall>i n. fst (sends i) n \<noteq> SocketError) \<and> cl_Socket c \<noteq> InvalidSocket \<and> ''SHUTDOWN'' \<notin> set input)"
    by (cases input) (auto simp: Send_def Let_def split: if_splits)
qed

lemma show_port: "show_int 9099 = ''9099''"
  by (simp add: show_int_def show_nat.simps digit_def char_of_def bit_simps bit_Suc)

text \<open>The client confirms each word in front of \<^verbatim>\<open>SHUTDOWN\<close>, then closes its socket and
  ends; what follows in the input is ignored.\<close>

theorem client_main_until_shutdown:
  assumes "connected io sends fds" and "''SHUTDOWN'' \<notin> set ws"
  shows "client_main io sends (ws @ ''SHUTDOWN'' # rest) fds = Some
    \<lparr>dr_out = line ''[Client] Connecting to server: 9099...'' @
       concat (replicate (length ws) (line ''[Client] Mock Order sent successfully.'')),
     dr_err = [], dr_end = Exit 0, dr_fds = fds\<rparr>"
proof -
  let ?c = "\<lparr>cl_Socket = co_socket io, cl_fds = insert (co_socket io) fds\<rparr>"
  have "cl_fds (TcpClient_destroy (Disconnect ?c)) = fds"
    using assms(1) by (simp add: connected_def TcpClient_destroy_def Disconnect_def CloseSocketHandle_def)
  then show ?thesis
    using client_loop_shutdown [of sends ?c ws] assms
    by (simp add: client_main_def Connect_connected [OF assms(1)] show_port connected_def Let_def)
qed

text \<open>Without \<^verbatim>\<open>SHUTDOWN\<close> in its input the client never ends: at the end of the input it
  goes on sending nothing for ever.\<close>

theorem client_main_spins_at_end_of_input:
  assumes "connected io sends fds" and "''SHUTDOWN'' \<notin> set ws"
  shows "client_main io sends ws fds = None"
proof -
  have "client_loop sends 0 ws out \<lparr>cl_Socket = co_socket io, cl_fds = insert (co_socket io) fds\<rparr> = None" for out
    using client_loop_never_returns [of sends 0 ws out "\<lparr>cl_Socket = co_socket io, cl_fds = insert (co_socket io) fds\<rparr>"]
      assms by (simp add: connected_def option.exhaust_sel) (metis not_Some_eq)
  then show ?thesis by (simp add: client_main_def Connect_connected [OF assms(1)] Let_def)
qed

definition quiet_connect :: connect_io where
  "quiet_connect = \<lparr>co_socket = 5, co_pton = 1, co_connect = 0, co_errno = 0\<rparr>"


theorem client_main_until_shutdown_witness:
  "map_option dr_end (client_main quiet_connect (\<lambda>i. (\<lambda>n. 0, 0)) [''BUY'', ''SHUTDOWN'', ''SELL''] {0, 1, 2}) =
   Some (Exit 0)"
  using client_main_until_shutdown [of quiet_connect "\<lambda>i. (\<lambda>n. 0, 0)" "{0, 1, 2}" "[''BUY'']" "[''SELL'']"]
  by (simp add: quiet_connect_def connected_def socket_defs word_sless_alt)

theorem client_main_spins_at_end_of_input_witness:
  "client_main quiet_connect (\<lambda>i. (\<lambda>n. 0, 0)) [''BUY''] {0, 1, 2} = None"
  by (rule client_main_spins_at_end_of_input) (simp_all add: quiet_connect_def connected_def socket_defs word_sless_alt)

end
