(* ===== verification/Logging.thy ===== *)
theory Logging
  imports Decimal_Text Orders
begin

text \<open>
  \<^verbatim>\<open>src/src/Core/Logging.hpp\<close>: levels, the filter, the two line formats, the path
  shortening and the four macros, with what they print collected in \<open>log_out\<close>. The message is
  the text \<^verbatim>\<open>std::format\<close> has produced; for the \<^verbatim>\<open>log\<close> members of orders and
  trades it is spelled out.
\<close>

subsection \<open>Log levels\<close>

datatype LogLevel = Log_Trace | Log_Info | Log_Warning | Log_Error | Log_Fatal | Log_None

fun level_value :: "LogLevel \<Rightarrow> u16" where
  "level_value Log_Trace = 0" | "level_value Log_Info = 1" | "level_value Log_Warning = 2"
| "level_value Log_Error = 3" | "level_value Log_Fatal = 4" | "level_value Log_None = 5"

instantiation LogLevel :: linorder
begin

definition less_eq_LogLevel :: "LogLevel \<Rightarrow> LogLevel \<Rightarrow> bool" where
  "less_eq_LogLevel a b \<longleftrightarrow> level_value a \<le> level_value b"

definition less_LogLevel :: "LogLevel \<Rightarrow> LogLevel \<Rightarrow> bool" where
  "less_LogLevel a b \<longleftrightarrow> level_value a < level_value b"

instance
proof
  fix a b c :: LogLevel
  show "(a < b) = (a \<le> b \<and> \<not> b \<le> a)"
    by (auto simp: less_LogLevel_def less_eq_LogLevel_def)
  show "a \<le> a" by (simp add: less_eq_LogLevel_def)
  show "a \<le> b \<Longrightarrow> b \<le> c \<Longrightarrow> a \<le> c" by (simp add: less_eq_LogLevel_def)
  show "a \<le> b \<Longrightarrow> b \<le> a \<Longrightarrow> a = b"
    by (cases a; cases b) (simp_all add: less_eq_LogLevel_def word_le_nat_alt)
  show "a \<le> b \<or> b \<le> a" by (auto simp: less_eq_LogLevel_def)
qed

end

subsection \<open>Output\<close>

text \<open>The static level and the text on \<^verbatim>\<open>std::cout\<close>.\<close>

definition ESC :: char where
  "ESC = CHR 0x1B"

definition col_gray :: string where "col_gray = ESC # ''[90m''"
definition col_green :: string where "col_green = ESC # ''[32m''"
definition col_yellow :: string where "col_yellow = ESC # ''[33m''"
definition col_red :: string where "col_red = ESC # ''[31m''"
definition col_fatal :: string where "col_fatal = ESC # ''[41m'' @ ESC # ''[37m''"

record Logger =
  s_currentLevel :: LogLevel
  log_out :: string

definition Logger_init :: Logger where
  "Logger_init = \<lparr>s_currentLevel = Log_Trace, log_out = []\<rparr>"

definition SetLevel :: "LogLevel \<Rightarrow> Logger \<Rightarrow> Logger" where
  "SetLevel level lg = lg\<lparr>s_currentLevel := level\<rparr>"

definition GetLevel :: "Logger \<Rightarrow> LogLevel" where
  "GetLevel lg = s_currentLevel lg"

definition Log :: "LogLevel \<Rightarrow> string \<Rightarrow> string \<Rightarrow> string \<Rightarrow> Logger \<Rightarrow> Logger" where
  "Log level pre col message lg =
     (if level < s_currentLevel lg then lg
      else lg\<lparr>log_out := log_out lg @ col @ ''['' @ pre @ ''] '' @ message @ ESC # ''[0m'' @ [CHR 0x0A]\<rparr>)"

definition LogFileAndLine ::
  "LogLevel \<Rightarrow> string \<Rightarrow> string \<Rightarrow> string \<Rightarrow> i32 \<Rightarrow> string \<Rightarrow> Logger \<Rightarrow> Logger" where
  "LogFileAndLine level pre col file line message lg =
     (if level < s_currentLevel lg then lg
      else lg\<lparr>log_out := log_out lg @ col @ ''['' @ pre @ ''] '' @ file @ '':'' @ show_int (sint line) @
                '': '' @ message @ ESC # ''[0m'' @ [CHR 0x0A]\<rparr>)"

text \<open>\<open>last_slash\<close> is \<^verbatim>\<open>find_last_of\<close> for a backslash or a slash.\<close>

fun last_slash :: "string \<Rightarrow> nat option" where
  "last_slash [] = None"
| "last_slash (c # cs) =
     (case last_slash cs of Some n \<Rightarrow> Some (Suc n)
      | None \<Rightarrow> if c = CHR 0x5C \<or> c = CHR ''/'' then Some 0 else None)"

definition strip_path :: "string \<Rightarrow> string" where
  "strip_path path = (case last_slash path of None \<Rightarrow> path | Some n \<Rightarrow> drop (n + 1) path)"

definition HERMES_INFO :: "string \<Rightarrow> Logger \<Rightarrow> Logger" where
  "HERMES_INFO message lg = Log Log_Info ''INFO'' col_green message lg"

definition HERMES_WARN :: "string \<Rightarrow> Logger \<Rightarrow> Logger" where
  "HERMES_WARN message lg = Log Log_Warning ''WARN'' col_yellow message lg"

definition HERMES_ERROR :: "string \<Rightarrow> i32 \<Rightarrow> string \<Rightarrow> Logger \<Rightarrow> Logger" where
  "HERMES_ERROR path line message lg =
     LogFileAndLine Log_Error ''ERROR'' col_red (strip_path path) line message lg"

datatype log_outcome = Continues Logger | Aborts Logger

definition HERMES_FATAL :: "string \<Rightarrow> i32 \<Rightarrow> string \<Rightarrow> Logger \<Rightarrow> log_outcome" where
  "HERMES_FATAL path line message lg =
     Aborts (LogFileAndLine Log_Fatal ''FATAL'' col_fatal (strip_path path) line message lg)"

subsection \<open>The log members of orders and trades\<close>

definition Order_log :: "Order \<Rightarrow> Logger \<Rightarrow> Logger" where
  "Order_log od lg = HERMES_INFO
     (''Order ID: '' @ show_nat (unat (m_OrderID od)) @ '', ClientID: '' @ show_nat (unat (m_ClientID od)) @
      '', Price: '' @ show_int (sint (m_Price od)) @
      '', InitialQuantity: '' @ show_nat (unat (m_IntialQuantity od)) @
      '', RemainingQuantity: '' @ show_nat (unat (m_RemainingQuantity od)) @
      '', Time: '' @ show_int (sint (m_Timestamp od)) @ '', Side: '' @ to_string_side (m_Side od) @
      '', Order Type: '' @ to_string_order_type (m_OrderType od) @
      '', Time in Force: '' @ to_string_tif (m_TimeInForce od) @
      '',  Flags:'' @ to_string_flags (m_Flags od) @ '' '' @ [CHR 0x0A]) lg"

text \<open>A trade's time stamp is printed although no constructor sets it: reading it is undefined.\<close>

definition Trade_log :: "Trade \<Rightarrow> Logger \<Rightarrow> Logger option" where
  "Trade_log t lg = do {
     time \<leftarrow> t_Timestamp t;
     Some (HERMES_INFO
       (''TradeID: '' @ show_nat (unat (t_TradeID t)) @
        '', Maker OrderID: '' @ show_nat (unat (t_MakerOrderID t)) @
        '', Taker OrderID: '' @ show_nat (unat (t_TakerOrderID t)) @
        '', Price: '' @ show_int (sint (t_Price t)) @ '', Quantity: '' @ show_nat (unat (t_Quantity t)) @
        '', Taker Side: '' @ to_string_side (t_TakerSide t) @
        '', Match Type: '' @ to_string_match_type (t_MatchType t) @
        '', Timestamp: '' @ show_int (sint time) @ [CHR 0x0A]) lg) }"

lemma Trade_log_of_new_trade:
  "Trade_log (mk_Trade tid maker taker p q side mt) lg = None"
  by (simp add: Trade_log_def mk_Trade_def)

subsection \<open>The refusals of an order\<close>

text \<open>\<^verbatim>\<open>Order::Fill\<close> and \<^verbatim>\<open>Order::ModifyOrder\<close> with the line they log when they refuse;
  \<open>path\<close> and \<open>line\<close> are \<^verbatim>\<open>__FILE__\<close> and \<^verbatim>\<open>__LINE__\<close> of the call.\<close>

definition Fill_logged :: "string \<Rightarrow> i32 \<Rightarrow> Quantity \<Rightarrow> Order \<Rightarrow> Logger \<Rightarrow> Order \<times> Logger" where
  "Fill_logged path line quantity od lg =
     (if m_RemainingQuantity od < quantity
      then (od, HERMES_ERROR path line
        (''Order ('' @ show_nat (unat (m_OrderID od)) @ '') cannot be filled for more than its capcity.'') lg)
      else (od\<lparr>m_RemainingQuantity := m_RemainingQuantity od - quantity\<rparr>, lg))"

definition ModifyOrder_logged ::
  "string \<Rightarrow> i32 \<Rightarrow> TimeNs \<Rightarrow> Price \<Rightarrow> Quantity \<Rightarrow> Order \<Rightarrow> Logger \<Rightarrow> Order \<times> Logger" where
  "ModifyOrder_logged path line now new_price new_quantity od lg =
     (if new_quantity < GetFilledQuantity od
      then (od, HERMES_ERROR path line ''Modified quantity is less than the already filled quantity.'' lg)
      else (ModifyOrder now new_price new_quantity od, lg))"

subsection \<open>Properties\<close>

text \<open>The two operations of an order log exactly when they refuse, and then leave the order as it
  is; what they do to the order does not depend on the logger.\<close>

lemma Fill_logged_cases:
  "Fill_logged path line quantity od lg =
     (Fill quantity od, if m_RemainingQuantity od < quantity
        then HERMES_ERROR path line
          (''Order ('' @ show_nat (unat (m_OrderID od)) @ '') cannot be filled for more than its capcity.'') lg
        else lg)"
  by (simp add: Fill_logged_def Fill_def)

lemma ModifyOrder_logged_cases:
  "fst (ModifyOrder_logged path line now p q od lg) = ModifyOrder now p q od"
  "snd (ModifyOrder_logged path line now p q od lg) =
     (if q < GetFilledQuantity od
      then HERMES_ERROR path line ''Modified quantity is less than the already filled quantity.'' lg else lg)"
  by (simp_all add: ModifyOrder_logged_def ModifyOrder_def Let_def)

text \<open>Filling two orders for the smaller of their quantities, as matching does, never logs.\<close>

lemma matching_fill_silent:
  "snd (Fill_logged path line (min (m_RemainingQuantity od) (m_RemainingQuantity maker)) od lg) = lg"
  "snd (Fill_logged path line (min (m_RemainingQuantity od) (m_RemainingQuantity maker)) maker lg) = lg"
  by (simp_all add: Fill_logged_def min_def not_less)

lemma last_slash_None: "last_slash path = None \<longleftrightarrow> CHR ''/'' \<notin> set path \<and> CHR 0x5C \<notin> set path"
  by (induction path) (auto split: option.splits)

lemma last_slash_Some:
  "last_slash path = Some n \<Longrightarrow> n < length path \<and> (path ! n = CHR ''/'' \<or> path ! n = CHR 0x5C) \<and>
     CHR ''/'' \<notin> set (drop (n + 1) path) \<and> CHR 0x5C \<notin> set (drop (n + 1) path)"
  by (induction path arbitrary: n) (auto split: option.splits if_splits simp: last_slash_None)

text \<open>A message appears exactly when its level is at least the current one, and then as one
  line with its colour, its prefix and a colour reset; a suppressed message changes nothing. The
  level \<^verbatim>\<open>None\<close> silences every macro, but a fatal one aborts all the same.\<close>

theorem log_filtered_by_level:
  "(s_currentLevel lg \<le> level \<longleftrightarrow> log_out (Log level pre col message lg) \<noteq> log_out lg) \<and>
   (log_out (Log level pre col message lg) =
      (if s_currentLevel lg \<le> level
       then log_out lg @ col @ ''['' @ pre @ ''] '' @ message @ ESC # ''[0m'' @ [CHR 0x0A] else log_out lg)) \<and>
   HERMES_INFO message (SetLevel Log_None lg) = SetLevel Log_None lg \<and>
   HERMES_WARN message (SetLevel Log_None lg) = SetLevel Log_None lg \<and>
   HERMES_ERROR path line message (SetLevel Log_None lg) = SetLevel Log_None lg \<and>
   HERMES_FATAL path line message (SetLevel Log_None lg) = Aborts (SetLevel Log_None lg)"
  by (auto simp: Log_def HERMES_INFO_def HERMES_WARN_def HERMES_ERROR_def HERMES_FATAL_def
      LogFileAndLine_def SetLevel_def less_LogLevel_def not_less [symmetric])

text \<open>\<^verbatim>\<open>strip_path\<close> keeps exactly what follows the last slash or backslash.\<close>

theorem strip_path_basename:
  "\<exists>dir. path = dir @ strip_path path \<and> (dir = [] \<or> last dir = CHR ''/'' \<or> last dir = CHR 0x5C) \<and>
     CHR ''/'' \<notin> set (strip_path path) \<and> CHR 0x5C \<notin> set (strip_path path)"
proof (cases "last_slash path")
  case None
  then have "strip_path path = path" by (simp add: strip_path_def)
  with None show ?thesis by (intro exI [of _ "[]"]) (simp add: last_slash_None)
next
  case (Some n)
  note s = last_slash_Some [OF Some]
  then have "last (take (n + 1) path) = path ! n" by (simp add: take_Suc_conv_app_nth)
  with s Some show ?thesis
    by (intro exI [of _ "take (n + 1) path"]) (simp add: strip_path_def)
qed

end
