(* ===== verification/Binary_Float.thy ===== *)
theory Binary_Float
  imports Prelude Complex_Main
begin

text \<open>
  Binary floating point, as far as the program uses it: conversions from integers and one division,
  in \<^verbatim>\<open>double\<close> and in \<^verbatim>\<open>float\<close>. A finite value is a fraction, and an operation
  is its exact result rounded to nearest, ties to even, at the precision of the format. The operands
  here are integers of 64 bits and their quotients, far inside the exponent range of both formats, so
  that neither overflow nor a subnormal result can occur and neither is represented.
\<close>

subsection \<open>Rounding\<close>

text \<open>Rounding to an integer, ties to even.\<close>

definition round_even :: "rat \<Rightarrow> int" where
  "round_even x =
     (let n = floor x; d = x - of_int n in
      if d < 1 / 2 \<or> d = 1 / 2 \<and> even n then n else n + 1)"

text \<open>\<open>binade x\<close> is the exponent of the leading bit of \<open>x\<close>, found from the bit lengths of its
  numerator and denominator.\<close>

definition pow2 :: "int \<Rightarrow> rat" where
  "pow2 e = 2 powi e"

fun bits :: "nat \<Rightarrow> nat" where
  "bits n = (if n = 0 then 0 else Suc (bits (n div 2)))"

declare bits.simps [simp del]

definition binade :: "rat \<Rightarrow> int" where
  "binade x =
     (let (n, d) = quotient_of x; e = int (bits (nat \<bar>n\<bar>)) - int (bits (nat d))
      in if pow2 e \<le> \<bar>x\<bar> then e else e - 1)"

text \<open>Rounding to \<open>prec\<close> significant bits: 53 for \<^verbatim>\<open>double\<close>, 24 for
  \<^verbatim>\<open>float\<close>.\<close>

definition round_binary :: "nat \<Rightarrow> rat \<Rightarrow> rat" where
  "round_binary prec x =
     (if x = 0 then 0
      else let ulp = pow2 (binade x - int prec + 1) in of_int (round_even (x / ulp)) * ulp)"

subsection \<open>Rounding to an integer\<close>

lemma round_even_near: "\<bar>of_int (round_even x) - x\<bar> \<le> 1 / 2"
proof -
  have "of_int (floor x) \<le> x" "x < of_int (floor x) + 1" by linarith+
  then show ?thesis by (auto simp: round_even_def Let_def abs_le_iff)
qed

lemma round_even_int [simp]: "round_even (of_int n) = n"
  by (simp add: round_even_def)

lemma round_even_unique: "\<bar>x - of_int n\<bar> < 1 / 2 \<Longrightarrow> round_even x = n"
proof -
  assume "\<bar>x - of_int n\<bar> < 1 / 2"
  moreover have "\<bar>of_int (round_even x) - x\<bar> \<le> 1 / 2" by (rule round_even_near)
  ultimately have "\<bar>of_int (round_even x) - (of_int n :: rat)\<bar> < 1" by linarith
  then have "\<bar>of_int (round_even x - n) :: rat\<bar> < 1" by simp
  then have "\<bar>round_even x - n\<bar> < 1" by linarith
  then show ?thesis by simp
qed

lemma round_even_mono: "x \<le> y \<Longrightarrow> round_even x \<le> round_even y"
proof (cases "floor x = floor y")
  case True
  assume "x \<le> y"
  then show ?thesis using True by (auto simp: round_even_def Let_def)
next
  case False
  assume le: "x \<le> y"
  with False have "floor x < floor y" using floor_mono [OF le] by linarith
  moreover have "round_even x \<le> floor x + 1" "floor y \<le> round_even y" by (auto simp: round_even_def Let_def)
  ultimately show ?thesis by linarith
qed

subsection \<open>Powers of two and binades\<close>

lemma pow2_pos [simp]: "0 < pow2 e" by (simp add: pow2_def)
lemma pow2_nonneg [simp]: "0 \<le> pow2 e" by (simp add: pow2_def)
lemma pow2_neq [simp]: "pow2 e \<noteq> 0" by (simp add: pow2_def)

lemma pow2_add: "pow2 (a + b) = pow2 a * pow2 b"
  by (simp add: pow2_def power_int_add)

lemma pow2_diff: "pow2 (a - b) = pow2 a / pow2 b"
  by (simp add: pow2_def power_int_diff)

lemma pow2_mono: "a \<le> b \<Longrightarrow> pow2 a \<le> pow2 b"
  by (simp add: pow2_def power_int_increasing)

lemma pow2_nat [simp]: "pow2 (int n) = 2 ^ n"
  by (simp add: pow2_def)

lemma bits_bounds: "n \<noteq> 0 \<Longrightarrow> 2 ^ (bits n - 1) \<le> n \<and> n < 2 ^ bits n \<and> 0 < bits n"
proof (induction n rule: bits.induct)
  case (1 n)
  show ?case
  proof (cases "n div 2 = 0")
    case True
    then have "n = 1" using 1(2) by simp
    then show ?thesis by (simp add: bits.simps)
  next
    case False
    with 1 have ih: "2 ^ (bits (n div 2) - 1) \<le> n div 2" "n div 2 < 2 ^ bits (n div 2)" "0 < bits (n div 2)" by auto
    have b: "bits n = Suc (bits (n div 2))" using 1(2) by (simp add: bits.simps [of n])
    obtain k where k: "bits (n div 2) = Suc k" using ih(3) gr0_implies_Suc by blast
    show ?thesis using ih unfolding b k by (auto intro: order.strict_trans2)
  qed
qed

lemma bits_rat: "n \<noteq> 0 \<Longrightarrow> pow2 (int (bits n) - 1) \<le> of_nat n \<and> of_nat n < pow2 (int (bits n))"
proof -
  assume "n \<noteq> 0"
  from bits_bounds [OF this] have "of_nat (2 ^ (bits n - 1)) \<le> (of_nat n :: rat)" "(of_nat n :: rat) < of_nat (2 ^ bits n)"
    and b: "0 < bits n" by (simp_all only: of_nat_le_iff of_nat_less_iff)
  moreover have "int (bits n) - 1 = int (bits n - 1)" using b by simp
  ultimately show ?thesis by (simp del: of_nat_diff)
qed

lemma binade_bounds:
  assumes "x \<noteq> 0"
  shows "pow2 (binade x) \<le> \<bar>x\<bar>" and "\<bar>x\<bar> < pow2 (binade x + 1)"
proof -
  obtain n d where q: "quotient_of x = (n, d)" by fastforce
  have d: "0 < d" using quotient_of_denom_pos [OF q] .
  have x: "x = of_int n / of_int d" using quotient_of_div [OF q] .
  have n: "n \<noteq> 0" using assms x by auto
  let ?a = "bits (nat \<bar>n\<bar>)" and ?b = "bits (nat d)"
  let ?e = "int ?a - int ?b"
  have A: "2 ^ (?a - 1) \<le> nat \<bar>n\<bar> \<and> nat \<bar>n\<bar> < 2 ^ ?a \<and> 0 < ?a" using n by (intro bits_bounds) simp
  have B: "2 ^ (?b - 1) \<le> nat d \<and> nat d < 2 ^ ?b \<and> 0 < ?b" using d by (intro bits_bounds) simp
  have a: "pow2 (int ?a - 1) \<le> of_int \<bar>n\<bar>" "of_int \<bar>n\<bar> < pow2 (int ?a)"
    using bits_rat [of "nat \<bar>n\<bar>"] n by auto
  have b: "pow2 (int ?b - 1) \<le> of_int d" "of_int d < pow2 (int ?b)"
    using bits_rat [of "nat d"] d by auto
  have ax: "\<bar>x\<bar> = of_int \<bar>n\<bar> / of_int d" using d by (simp add: x)
  have hi: "\<bar>x\<bar> < pow2 (?e + 1)"
  proof -
    have "\<bar>x\<bar> < pow2 (int ?a) / pow2 (int ?b - 1)"
      unfolding ax using a(2) b(1) by (intro frac_less) simp_all
    then show ?thesis by (simp add: pow2_diff pow2_add)
  qed
  have lo: "pow2 (?e - 1) \<le> \<bar>x\<bar>"
  proof -
    have "pow2 (int ?a - 1) / pow2 (int ?b) \<le> \<bar>x\<bar>"
      unfolding ax using a(1) b(2) d by (intro frac_le) simp_all
    then show ?thesis by (simp add: pow2_diff mult.commute)
  qed
  show "pow2 (binade x) \<le> \<bar>x\<bar>" "\<bar>x\<bar> < pow2 (binade x + 1)"
    using hi lo by (auto simp: binade_def q Let_def)
qed

subsection \<open>Rounding to a precision\<close>

text \<open>The relative error, exactness on small integers, and monotonicity.\<close>

lemma round_binary_near: "\<bar>round_binary prec x - x\<bar> \<le> \<bar>x\<bar> / 2 ^ prec"
proof (cases "x = 0")
  case False
  let ?u = "pow2 (binade x - int prec + 1)"
  have "round_binary prec x - x = (of_int (round_even (x / ?u)) - x / ?u) * ?u"
    using False by (simp add: round_binary_def Let_def left_diff_distrib)
  then have "\<bar>round_binary prec x - x\<bar> = \<bar>of_int (round_even (x / ?u)) - x / ?u\<bar> * ?u"
    by (simp add: abs_mult)
  also have "\<dots> \<le> 1 / 2 * ?u" by (intro mult_right_mono round_even_near) simp
  also have "\<dots> = pow2 (binade x) / 2 ^ prec"
    by (simp add: pow2_add pow2_diff) (simp add: pow2_def)
  also have "\<dots> \<le> \<bar>x\<bar> / 2 ^ prec"
    by (intro divide_right_mono binade_bounds False) simp
  finally show ?thesis .
qed (simp add: round_binary_def)

lemma round_binary_int:
  assumes "\<bar>n\<bar> < 2 ^ prec"
  shows "round_binary prec (of_int n) = of_int n"
proof (cases "n = 0")
  case False
  let ?x = "of_int n :: rat"
  have "pow2 (binade ?x) \<le> of_int \<bar>n\<bar>" using binade_bounds(1) [of ?x] False by simp
  also have "(of_int \<bar>n\<bar> :: rat) < of_int (2 ^ prec)" using assms by (simp only: of_int_less_iff)
  also have "\<dots> = pow2 (int prec)" by simp
  finally have "binade ?x < int prec" using pow2_mono [of "int prec" "binade ?x"] by linarith
  then obtain k where "int prec - 1 - binade ?x = int k" using zero_le_imp_eq_int [of "int prec - 1 - binade ?x"] by auto
  then have u: "binade ?x - int prec + 1 = - int k" by linarith
  have "?x / pow2 (- int k) = of_int (n * 2 ^ k)" by (simp add: pow2_def power_int_minus divide_inverse)
  then have "round_even (?x / pow2 (- int k)) = n * 2 ^ k" by (simp only: round_even_int)
  then show ?thesis using False by (simp add: round_binary_def u Let_def pow2_def power_int_minus)
qed (simp add: round_binary_def)

lemma round_binary_nonneg: "0 \<le> x \<Longrightarrow> 0 \<le> round_binary prec x"
  using round_even_mono [of 0 "x / pow2 (binade x - int prec + 1)"] round_even_int [of 0]
  by (simp add: round_binary_def Let_def)

lemma binade_mono: "0 < x \<Longrightarrow> x \<le> y \<Longrightarrow> binade x \<le> binade y"
proof (rule ccontr)
  assume "0 < x" "x \<le> y" "\<not> binade x \<le> binade y"
  then have "pow2 (binade y + 1) \<le> pow2 (binade x)" by (intro pow2_mono) simp
  also have "\<dots> \<le> y" using binade_bounds(1) [of x] \<open>0 < x\<close> \<open>x \<le> y\<close> by simp
  finally show False using binade_bounds(2) [of y] \<open>0 < x\<close> \<open>x \<le> y\<close> by simp
qed

lemma round_binary_binade:
  assumes "0 < x" and "0 < prec"
  shows "pow2 (binade x) \<le> round_binary prec x" and "round_binary prec x \<le> pow2 (binade x + 1)"
proof -
  let ?u = "pow2 (binade x - int prec + 1)"
  obtain p where p: "prec = Suc p" using assms(2) gr0_implies_Suc by blast
  have lo: "pow2 (binade x) / ?u = of_int (2 ^ p)" and hi: "pow2 (binade x + 1) / ?u = of_int (2 ^ prec)"
    using pow2_nat [of p] pow2_nat [of prec] by (simp_all add: p flip: pow2_diff)
  have b: "pow2 (binade x) \<le> x" "x \<le> pow2 (binade x + 1)" using binade_bounds [of x] assms(1) by simp_all
  have "(of_int (2 ^ p) :: rat) \<le> x / ?u" "x / ?u \<le> of_int (2 ^ prec)"
    unfolding lo [symmetric] hi [symmetric] using b by (simp_all add: divide_right_mono)
  then have "2 ^ p \<le> round_even (x / ?u)" "round_even (x / ?u) \<le> 2 ^ prec"
    using round_even_mono round_even_int by metis+
  then have r: "pow2 (binade x) / ?u \<le> of_int (round_even (x / ?u))" "of_int (round_even (x / ?u)) \<le> pow2 (binade x + 1) / ?u"
    unfolding lo hi by (simp_all only: of_int_le_iff)
  then show "pow2 (binade x) \<le> round_binary prec x" "round_binary prec x \<le> pow2 (binade x + 1)"
    using assms(1) by (simp_all add: round_binary_def Let_def pos_divide_le_eq pos_le_divide_eq)
qed

lemma round_binary_pos: "0 < x \<Longrightarrow> 0 < prec \<Longrightarrow> 0 < round_binary prec x"
  using round_binary_binade(1) [of x prec] pow2_pos [of "binade x"] by linarith

lemma round_binary_0 [simp]: "round_binary prec 0 = 0"
  by (simp add: round_binary_def)

lemma round_binary_mono:
  assumes "0 \<le> x" and "x \<le> y" and "0 < prec"
  shows "round_binary prec x \<le> round_binary prec y"
proof (cases "x = 0")
  case True
  then show ?thesis using round_binary_nonneg [of y prec] assms(2) by (simp add: round_binary_def [of _ 0])
next
  case False
  with assms have x: "0 < x" "0 < y" by linarith+
  have "binade x \<le> binade y" by (rule binade_mono [OF x(1) assms(2)])
  show ?thesis
  proof (cases "binade x = binade y")
    case True
    let ?u = "pow2 (binade y - int prec + 1)"
    have "round_even (x / ?u) \<le> round_even (y / ?u)"
      by (intro round_even_mono divide_right_mono assms(2)) simp
    then show ?thesis using x True by (simp add: round_binary_def Let_def)
  next
    case False
    with \<open>binade x \<le> binade y\<close> have "pow2 (binade x + 1) \<le> pow2 (binade y)" by (intro pow2_mono) simp
    then show ?thesis using round_binary_binade [OF x(1) assms(3)] round_binary_binade [OF x(2) assms(3)] by linarith
  qed
qed

lemma binade_unique: "pow2 e \<le> \<bar>x\<bar> \<Longrightarrow> \<bar>x\<bar> < pow2 (e + 1) \<Longrightarrow> binade x = e"
proof -
  assume e: "pow2 e \<le> \<bar>x\<bar>" "\<bar>x\<bar> < pow2 (e + 1)"
  then have "x \<noteq> 0" by (auto dest: leD)
  note b = binade_bounds [OF this]
  have "\<not> binade x + 1 \<le> e" using pow2_mono [of "binade x + 1" e] e b by auto
  moreover have "\<not> e + 1 \<le> binade x" using pow2_mono [of "e + 1" "binade x"] e b by auto
  ultimately show ?thesis by linarith
qed

lemma round_binary_eqI:
  assumes "pow2 e \<le> \<bar>x\<bar>" and "\<bar>x\<bar> < pow2 (e + 1)" and "ulp = pow2 (e - int prec + 1)"
    and "round_even (x / ulp) = m"
  shows "round_binary prec x = of_int m * ulp"
  using assms by (auto simp: round_binary_def binade_unique [OF assms(1,2)] Let_def dest: leD)

end
