(* ===== verification/Price_Text.thy ===== *)
theory Price_Text
  imports Binary_Float Decimal_Text
begin

text \<open>
  \<^verbatim>\<open>format_price\<close> of \<^verbatim>\<open>src/src/Core/globals.hpp\<close>: a price goes through a
  \<^verbatim>\<open>double\<close> and is printed with two decimals. The number printed is the
  hundredth part of the price: without error below \<open>2 ^ 52\<close>, with the last digit lost
  somewhere above. The comment on \<^verbatim>\<open>Price\<close> gives the unit as a tenth of a cent, so that
  the number printed is ten times the amount in dollars; nothing in the program says which of the
  two is meant, and the statements here are about the number only.
\<close>

subsection \<open>The text of a price\<close>

text \<open>\<^verbatim>\<open>std::fixed\<close> with a precision of two: the exact value of the
  \<^verbatim>\<open>double\<close>, rounded to hundredths, ties to even.\<close>

definition show_fixed2 :: "rat \<Rightarrow> string" where
  "show_fixed2 x =
     (let hundredths = nat (round_even (\<bar>x\<bar> * 100)) in
      (if x < 0 then ''-'' else '''') @ show_nat (hundredths div 100) @ ''.'' @
      [digit (hundredths mod 100 div 10), digit (hundredths mod 10)])"

text \<open>The conversion to \<^verbatim>\<open>double\<close> rounds, and so does the division.\<close>

definition format_price :: "Price \<Rightarrow> string" where
  "format_price price =
     show_fixed2 (round_binary 53 (round_binary 53 (of_int (sint price)) / 100))"

text \<open>A number of hundredths in decimal, without rounding.\<close>

definition show_hundredths :: "int \<Rightarrow> string" where
  "show_hundredths p =
     (if p < 0 then ''-'' else '''') @ show_nat (nat \<bar>p\<bar> div 100) @ ''.'' @
     [digit (nat \<bar>p\<bar> mod 100 div 10), digit (nat \<bar>p\<bar> mod 10)]"

text \<open>Reading such a text back, and the amount in dollars a price stands for according to the comment
  \<^verbatim>\<open>in 1/10th of a cent therefore 1000 = 1$\<close>.\<close>

definition unsigned_value :: "string \<Rightarrow> rat" where
  "unsigned_value s =
     (let whole = takeWhile (\<lambda>c. c \<noteq> CHR ''.'') s; decimals = drop (Suc (length whole)) s
      in of_nat (read_nat whole) + of_nat (read_nat decimals) / 10 ^ length decimals)"

definition text_value :: "string \<Rightarrow> rat" where
  "text_value s = (case s of c # cs \<Rightarrow> if c = CHR ''-'' then - unsigned_value cs else unsigned_value s | [] \<Rightarrow> 0)"

definition comment_dollars :: "Price \<Rightarrow> rat" where
  "comment_dollars price = of_int (sint price) / 1000"

subsection \<open>Reading back\<close>

lemma show_nat_no_point: "c \<in> set (show_nat n) \<Longrightarrow> c \<noteq> CHR ''.''"
proof
  assume "c \<in> set (show_nat n)" and p: "c = CHR ''.''"
  then obtain d where "d < 10" "c = digit d" using show_nat_digits by blast
  then have "(of_char c :: nat) = 48 + d" by simp
  with p show False by simp
qed

lemma unsigned_value_hundredths:
  "unsigned_value (show_nat (n div 100) @ ''.'' @ [digit (n mod 100 div 10), digit (n mod 10)]) = of_nat n / 100"
proof -
  have w: "takeWhile (\<lambda>c. c \<noteq> CHR ''.'') (show_nat (n div 100) @ CHR ''.'' # ds) = show_nat (n div 100)" for ds
    using show_nat_no_point by (subst takeWhile_append2) auto
  have "n mod 100 mod 10 = n mod 10" by (rule mod_mod_cancel) simp
  moreover have "n mod 100 = 10 * (n mod 100 div 10) + n mod 100 mod 10" by simp
  moreover have "n = 100 * (n div 100) + n mod 100" by simp
  ultimately have "n = 100 * (n div 100) + 10 * (n mod 100 div 10) + n mod 10" by linarith
  then have "(of_nat n :: rat) = of_nat (100 * (n div 100) + 10 * (n mod 100 div 10) + n mod 10)"
    by (rule arg_cong)
  moreover have "n mod 100 div 10 < 10" "n mod 10 < 10" by (simp_all add: div_less_iff_less_mult)
  moreover have "read_nat [digit a, digit b] = 10 * a + b" if "a < 10" "b < 10" for a b
    using that by (simp add: read_nat_def)
  ultimately show ?thesis by (simp add: unsigned_value_def Let_def w add_divide_distrib)
qed

lemma text_value_hundredths: "text_value (show_hundredths p) = of_int p / 100"
proof (cases "p < 0")
  case True
  then have "(of_nat (nat \<bar>p\<bar>) :: rat) = - of_int p" by simp
  with True show ?thesis
    using unsigned_value_hundredths [of "nat \<bar>p\<bar>"] by (simp add: text_value_def show_hundredths_def)
next
  case False
  obtain c cs where s: "show_nat (nat \<bar>p\<bar> div 100) = c # cs" by (cases "show_nat (nat \<bar>p\<bar> div 100)") auto
  then have "c \<noteq> CHR ''-''" using show_nat_no_minus [of "nat \<bar>p\<bar> div 100"] by auto
  with False s show ?thesis
    using unsigned_value_hundredths [of "nat \<bar>p\<bar>"] by (simp add: text_value_def show_hundredths_def)
qed

subsection \<open>Properties\<close>

lemma double_quotient:
  assumes "\<bar>p\<bar> < 2 ^ 52"
  shows "\<bar>round_binary 53 (of_int p / 100) * 100 - of_int p\<bar> < 1 / 2"
    and "round_binary 53 (of_int p / 100) < 0 \<longleftrightarrow> p < 0"
proof -
  let ?x = "of_int p / 100 :: rat" and ?y = "round_binary 53 (of_int p / 100)"
  have near: "\<bar>?y - ?x\<bar> \<le> \<bar>?x\<bar> / 2 ^ 53" by (rule round_binary_near)
  have "(of_int \<bar>p\<bar> :: rat) < of_int (2 ^ 52)" using assms by (simp only: of_int_less_iff)
  then have small: "\<bar>of_int p :: rat\<bar> < 2 ^ 52" by simp
  have "?y * 100 - of_int p = (?y - ?x) * 100" by simp
  then have "\<bar>?y * 100 - of_int p\<bar> = \<bar>(?y - ?x) * 100\<bar>" by (rule arg_cong)
  also have "\<dots> = \<bar>?y - ?x\<bar> * 100" by (subst abs_mult) simp
  also have "\<dots> \<le> \<bar>of_int p\<bar> / 2 ^ 53" using near by (simp add: abs_divide)
  also have "\<dots> < 1 / 2" using small by simp
  finally show d: "\<bar>?y * 100 - of_int p\<bar> < 1 / 2" .
  show "?y < 0 \<longleftrightarrow> p < 0"
  proof (cases "p < 0")
    case True
    then have "of_int p \<le> (of_int (- 1) :: rat)" by (simp only: of_int_le_iff)
    with d True show ?thesis unfolding abs_less_iff by linarith
  qed (use round_binary_nonneg [of ?x 53] in simp)
qed

lemma abs_hundredths: "(y < 0 \<longleftrightarrow> p < 0) \<Longrightarrow> \<bar>y * 100 - p\<bar> < 1 / 2 \<Longrightarrow> \<bar>\<bar>y\<bar> * 100 - \<bar>p\<bar>\<bar> < 1 / 2" for p :: rat
  by (cases "y < 0") (simp_all add: abs_minus_commute)

lemma show_fixed2_quotient:
  assumes "\<bar>p\<bar> < 2 ^ 52"
  shows "show_fixed2 (round_binary 53 (of_int p / 100)) = show_hundredths p"
proof -
  let ?y = "round_binary 53 (of_int p / 100)"
  note q = double_quotient [OF assms]
  have "\<bar>\<bar>?y\<bar> * 100 - of_int \<bar>p\<bar>\<bar> < 1 / 2" using abs_hundredths [of ?y "of_int p"] q by simp
  then have "round_even (\<bar>?y\<bar> * 100) = \<bar>p\<bar>" by (rule round_even_unique)
  then show ?thesis using q(2) by (simp add: show_fixed2_def show_hundredths_def Let_def)
qed

lemma format_price_small:
  assumes "\<bar>sint price\<bar> < 2 ^ 52"
  shows "format_price price = show_hundredths (sint price)"
    and "text_value (format_price price) = of_int (sint price) / 100"
proof -
  show f: "format_price price = show_hundredths (sint price)"
    using assms round_binary_int [of "sint price" 53] show_fixed2_quotient [of "sint price"]
    by (simp add: format_price_def)
  show "text_value (format_price price) = of_int (sint price) / 100"
    unfolding f by (rule text_value_hundredths)
qed

text \<open>C38: for every price below \<open>2 ^ 52\<close> in absolute value, whatever its sign, the text is the decimal
  notation of the price divided by 100, with two decimals and without any error, in spite of the two
  roundings on the way; read back as a number it is the hundredth part of the price. It is not the
  amount in dollars the comment on the type gives (1000 = 1$), but ten times that amount.\<close>

theorem format_price_exact:
  assumes "\<bar>sint price\<bar> < 2 ^ 52"
  shows "format_price price = show_hundredths (sint price) \<and>
    text_value (format_price price) = of_int (sint price) / 100 \<and>
    text_value (format_price price) = 10 * comment_dollars price"
  using format_price_small [OF assms] by (simp add: comment_dollars_def)

theorem format_price_exact_witness:
  "format_price (- 1205) = ''-12.05'' \<and> text_value ''-12.05'' = - 1205 / 100 \<and>
   comment_dollars (- 1205) = - 1205 / 1000"
  using format_price_exact [of "- 1205"]
  by (auto simp: show_hundredths_def show_nat.simps digit_def char_of_def bit_simps bit_Suc comment_dollars_def)

text \<open>Beyond \<open>2 ^ 53\<close> the conversion loses the last digit.\<close>

theorem format_price_loses_last_digit:
  "format_price 9007199254740993 = show_hundredths 9007199254740992"
proof -
  have f: "floor (9007199254740993 / 2 :: rat) = 4503599627370496" by (rule floor_unique) simp_all
  have "round_even (9007199254740993 / 2) = 4503599627370496"
    unfolding round_even_def Let_def f by (rule if_P) simp
  then have "round_binary 53 9007199254740993 = of_int 4503599627370496 * 2"
    by (intro round_binary_eqI [where e = 53]) (simp_all add: pow2_def)
  then have x: "round_binary 53 9007199254740993 = 9007199254740992" by simp
  have "round_even (2251799813685248 / 25 / (1 / 64)) = 5764607523034235"
    by (rule round_even_unique) simp
  then have "round_binary 53 (2251799813685248 / 25) = of_int 5764607523034235 * (1 / 64)"
    by (intro round_binary_eqI [where e = 46]) (simp_all add: pow2_def power_int_minus)
  then have y: "round_binary 53 (2251799813685248 / 25) = 5764607523034235 / 64" by simp
  have "round_even (144115188075855875 / 16) = 9007199254740992" by (rule round_even_unique) simp
  then have "show_fixed2 (5764607523034235 / 64) = show_hundredths 9007199254740992"
    by (simp add: show_fixed2_def show_hundredths_def)
  then show ?thesis by (simp add: format_price_def x y)
qed

end
