(* ===== verification/Renderer.thy ===== *)
theory Renderer
  imports Book_Sample Logging Price_Text
begin

text \<open>
  \<^verbatim>\<open>src/src/Renderer/Renderer.cpp\<close>: from a snapshot to the element tree that is drawn.
  The constructors of \<open>element\<close> are the FTXUI functions and decorators the code calls, with the
  arguments it passes; what FTXUI makes of a tree, the text on the terminal, is the parameter
  \<open>screen\<close>. The fractions of the bars are computed in \<^verbatim>\<open>float\<close>.
\<close>

subsection \<open>Elements\<close>

datatype color = Color_Green | Color_Red | Color_White | Color_GrayLight | Color_GrayDark

datatype element =
    E_text string
  | E_gauge rat
  | E_filler
  | E_separator
  | E_hbox "element list"
  | E_vbox "element list"
  | E_color color element
  | E_bgcolor color element
  | E_bold element
  | E_width nat element
  | E_flex element
  | E_border element

subsection \<open>Rendering\<close>

definition max_volume :: "OrderBookSnapshot \<Rightarrow> Quantity" where
  "max_volume snapshot =
     (let v = fold (\<lambda>p m. max m (s_quantity p)) (s_bids snapshot) 0;
          v = fold (\<lambda>p m. max m (s_quantity p)) (s_asks snapshot) v
      in if v = 0 then 1 else v)"

text \<open>Both conversions to \<^verbatim>\<open>float\<close> round, and the quotient again.\<close>

definition bar_fraction :: "Quantity \<Rightarrow> Quantity \<Rightarrow> rat" where
  "bar_fraction vol max_vol =
     round_binary 24 (round_binary 24 (of_nat (unat vol)) / round_binary 24 (of_nat (unat max_vol)))"

definition make_row :: "Quantity \<Rightarrow> Price \<Rightarrow> Quantity \<Rightarrow> color \<Rightarrow> bool \<Rightarrow> element" where
  "make_row max_vol price vol c is_bid =
     (let bar = E_color c (E_gauge (bar_fraction vol max_vol));
          price_txt = E_bold (E_color Color_White (E_text (format_price price)));
          size_txt = E_color Color_GrayLight (E_text (format_quantity vol))
      in if is_bid then E_hbox [E_width 15 bar, E_text '' '', size_txt, E_filler, price_txt]
         else E_hbox [price_txt, E_filler, size_txt, E_text '' '', E_width 15 bar])"

definition front_price :: "SnapshotLevel list \<Rightarrow> Price" where
  "front_price ls = (case ls of [] \<Rightarrow> 0 | l # _ \<Rightarrow> s_price l)"

definition spread_val :: "OrderBookSnapshot \<Rightarrow> Price" where
  "spread_val snapshot = front_price (s_asks snapshot) - front_price (s_bids snapshot)"

text \<open>The difference of two signed prices is undefined when it does not fit.\<close>

definition spread_overflows :: "OrderBookSnapshot \<Rightarrow> bool" where
  "spread_overflows snapshot \<longleftrightarrow>
     sint (spread_val snapshot) \<noteq> sint (front_price (s_asks snapshot)) - sint (front_price (s_bids snapshot))"

definition main_layout :: "OrderBookSnapshot \<Rightarrow> element" where
  "main_layout snapshot =
     (let max_vol = max_volume snapshot;
          bid_rows = map (\<lambda>l. make_row max_vol (s_price l) (s_quantity l) Color_Green True) (s_bids snapshot);
          ask_rows = map (\<lambda>l. make_row max_vol (s_price l) (s_quantity l) Color_Red False) (s_asks snapshot);
          spread_display = E_color Color_White (E_bgcolor Color_GrayDark
            (E_text ('' Spread: '' @ format_price (spread_val snapshot) @ '' '')));
          bid_side = E_flex (E_vbox [E_vbox bid_rows, E_filler]);
          ask_side = E_flex (E_vbox [E_vbox ask_rows, E_filler])
      in E_flex (E_border (E_vbox
           [E_border (E_hbox
              [E_bold (E_color Color_Green (E_text '' BIDS '')), E_filler, spread_display, E_filler,
               E_bold (E_color Color_Red (E_text '' ASKS ''))]),
            E_flex (E_hbox [bid_side, E_separator, ask_side])])))"

text \<open>What the three members print; the cursor is hidden while a renderer exists.\<close>

definition Renderer_ctor :: string where "Renderer_ctor = ESC # ''[?25l''"
definition Renderer_dtor :: string where "Renderer_dtor = ESC # ''[?25h''"

definition Render :: "(element \<Rightarrow> string) \<Rightarrow> OrderBookSnapshot \<Rightarrow> string option" where
  "Render screen snapshot =
     (if spread_overflows snapshot then None
      else Some (ESC # ''[H'' @ screen (main_layout snapshot)))"

lemma fold_max_ge:
  "m \<le> fold (\<lambda>p m. max m (s_quantity p)) ls m \<and>
   (\<forall>p\<in>set ls. s_quantity p \<le> fold (\<lambda>p m. max m (s_quantity p)) ls m)"
proof (induction ls arbitrary: m)
  case (Cons l ls)
  from Cons [of "max m (s_quantity l)"] show ?case by simp
qed simp

lemma max_volume_ge:
  assumes "p \<in> set (s_bids snapshot) \<union> set (s_asks snapshot)"
  shows "s_quantity p \<le> max_volume snapshot"
proof -
  let ?v = "fold (\<lambda>p m. max m (s_quantity p)) (s_bids snapshot) 0"
  let ?w = "fold (\<lambda>p m. max m (s_quantity p)) (s_asks snapshot) ?v"
  have "s_quantity p \<le> ?w"
    using assms fold_max_ge [of 0 "s_bids snapshot"] fold_max_ge [of ?v "s_asks snapshot"]
    by (auto intro: order_trans)
  then show ?thesis by (auto simp: max_volume_def Let_def)
qed


lemma level_has_order:
  assumes "book_wf b" and "(p, lvl) \<in> set (levels s b)"
  shows "\<exists>od\<in>set (queue s b). m_Price od = p"
proof -
  have "orders lvl \<noteq> []"
    using book_wfD(2) [OF assms(1) level_orders_ok(1) [OF assms]] by (auto simp: level_wf_def)
  then obtain n od os where o': "orders lvl = (n, od) # os" by (cases "orders lvl") auto
  then have d: "deref \<lparr>list_it = n, level_it = (s, p)\<rparr> b = Some od"
    using level_orders_ok(2) [OF assms, of n od] by simp
  from book_wfD(3) [OF assms(1) this] have "m_Price od = p" by (simp add: resting_ok_def)
  moreover have "od \<in> set (queue s b)" using o' assms(2) by (force simp: queue_def)
  ultimately show ?thesis by blast
qed

lemma front_price_Nil [simp]: "front_price [] = 0"
  by (simp add: front_price_def)

lemma front_price_snapshot:
  "0 < depth \<Longrightarrow> front_price (snapshot_side 0 depth ls) = (case ls of [] \<Rightarrow> 0 | (p, lvl) # _ \<Rightarrow> p)"
  by (cases ls) (auto simp: front_price_def word_less_nat_alt)

lemma best_prices_apart:
  assumes "reachable b" and "m_Bids b = (bid, x) # xs" and "m_Asks b = (ask, y) # ys"
  shows "bid <s ask"
proof -
  from reachable_inv [OF assms(1)] have wf: "book_wf b" and u: "uncrossed (queues_of b)" by simp_all
  then show ?thesis
    using level_has_order [OF wf, of bid x Buy] level_has_order [OF wf, of ask y Sell] assms(2,3)
    by (auto simp: uncrossed_def)
qed

subsection \<open>Bars\<close>

lemma single_pos: "v \<noteq> 0 \<Longrightarrow> 0 < round_binary 24 (of_nat (unat (v :: u64)))"
  using round_binary_pos [of "of_nat (unat v)" 24] by (simp add: unat_gt_0 del: of_nat_unat)

lemma bar_fraction_bounds:
  assumes "v \<le> m" and "m \<noteq> 0"
  shows "0 \<le> bar_fraction v m" and "bar_fraction v m \<le> 1"
proof -
  let ?v = "round_binary 24 (of_nat (unat v))" and ?m = "round_binary 24 (of_nat (unat m))"
  have "?v \<le> ?m" using assms(1) by (intro round_binary_mono) (simp_all add: word_le_nat_alt del: of_nat_unat)
  moreover have "0 \<le> ?v" by (rule round_binary_nonneg) (simp del: of_nat_unat)
  moreover have "0 < ?m" by (rule single_pos [OF assms(2)])
  ultimately have "0 \<le> ?v / ?m" "?v / ?m \<le> 1" by simp_all
  then show "0 \<le> bar_fraction v m" "bar_fraction v m \<le> 1"
    using round_binary_nonneg round_binary_mono [of "?v / ?m" 1 24] round_binary_int [of 1 24]
    by (simp_all add: bar_fraction_def del: of_nat_unat)
qed

lemma bar_fraction_zero: "m \<noteq> 0 \<Longrightarrow> bar_fraction v m = 0 \<longleftrightarrow> v = 0"
proof -
  assume m: "m \<noteq> 0"
  show ?thesis
  proof (cases "v = 0")
    case False
    then have "0 < round_binary 24 (of_nat (unat v)) / round_binary 24 (of_nat (unat m))"
      using single_pos [OF False] single_pos [OF m] by (simp del: of_nat_unat)
    from round_binary_pos [OF this, of 24] False show ?thesis by (simp add: bar_fraction_def del: of_nat_unat)
  qed (simp add: bar_fraction_def)
qed

lemma bar_fraction_full: "m \<noteq> 0 \<Longrightarrow> bar_fraction m m = 1"
  using single_pos [of m] round_binary_int [of 1 24] by (simp add: bar_fraction_def del: of_nat_unat)

lemma snapshot_side_price: "l \<in> set (snapshot_side c depth ls) \<Longrightarrow> s_price l \<in> fst ` set ls"
proof (induction c depth ls rule: snapshot_side.induct)
  case (2 cur depth price level ls)
  then show ?case by (auto split: if_splits)
qed simp

lemma snapshot_level_price:
  assumes "book_wf b" and "l \<in> set (s_bids (GetSnapshot depth b)) \<union> set (s_asks (GetSnapshot depth b))"
  shows "\<exists>s. \<exists>od\<in>set (queue s b). m_Price od = s_price l"
proof -
  have "s_price l \<in> fst ` set (levels Buy b) \<or> s_price l \<in> fst ` set (levels Sell b)"
    using assms(2) snapshot_side_price by (auto simp: GetSnapshot_def)
  then obtain s where "s_price l \<in> fst ` set (levels s b)" by blast
  then obtain lvl where "(s_price l, lvl) \<in> set (levels s b)" by force
  with level_has_order [OF assms(1)] show ?thesis by blast
qed

lemma small_difference:
  assumes "\<bar>sint a\<bar> < 2 ^ 51" and "\<bar>sint b\<bar> < 2 ^ 51"
  shows "sint (a - b :: i64) = sint a - sint b"
proof -
  have "signed_take_bit 63 (sint a - sint b) = sint a - sint b"
    using assms by (intro signed_take_bit_int_eq_self) (simp_all add: abs_less_iff)
  then show ?thesis by (simp add: sint_word_ariths)
qed

text \<open>What is shown of a snapshot with small prices.\<close>

lemma snapshot_drawn:
  assumes small: "\<forall>l\<in>set (s_bids snapshot) \<union> set (s_asks snapshot). \<bar>sint (s_price l)\<bar> < 2 ^ 51"
  shows "Render screen snapshot = Some (ESC # ''[H'' @ screen (main_layout snapshot))"
    and "sint (spread_val snapshot) = sint (front_price (s_asks snapshot)) - sint (front_price (s_bids snapshot))"
    and "text_value (format_price (spread_val snapshot)) = of_int (sint (spread_val snapshot)) / 100"
    and "l \<in> set (s_bids snapshot) \<union> set (s_asks snapshot) \<Longrightarrow>
       text_value (format_price (s_price l)) = of_int (sint (s_price l)) / 100 \<and>
       0 \<le> bar_fraction (s_quantity l) (max_volume snapshot) \<and>
       bar_fraction (s_quantity l) (max_volume snapshot) \<le> 1"
proof -
  have front: "\<bar>sint (front_price (s_asks snapshot))\<bar> < 2 ^ 51" "\<bar>sint (front_price (s_bids snapshot))\<bar> < 2 ^ 51"
    using small by (auto simp: front_price_def split: list.split)
  show sv: "sint (spread_val snapshot) = sint (front_price (s_asks snapshot)) - sint (front_price (s_bids snapshot))"
    unfolding spread_val_def by (rule small_difference [OF front])
  then show "Render screen snapshot = Some (ESC # ''[H'' @ screen (main_layout snapshot))"
    by (simp add: Render_def spread_overflows_def)
  show "text_value (format_price (spread_val snapshot)) = of_int (sint (spread_val snapshot)) / 100"
    using front sv by (intro format_price_small(2)) (simp add: abs_less_iff)
  assume l: "l \<in> set (s_bids snapshot) \<union> set (s_asks snapshot)"
  have "text_value (format_price (s_price l)) = of_int (sint (s_price l)) / 100"
    using bspec [OF small l] by (intro format_price_small(2)) simp
  then show "text_value (format_price (s_price l)) = of_int (sint (s_price l)) / 100 \<and>
       0 \<le> bar_fraction (s_quantity l) (max_volume snapshot) \<and>
       bar_fraction (s_quantity l) (max_volume snapshot) \<le> 1"
    using bar_fraction_bounds [OF max_volume_ge [OF l]] by (simp add: max_volume_def Let_def)
qed

subsection \<open>Properties\<close>

text \<open>Every bar fits its gauge, in spite of three roundings: the fraction of a level shown is between
  zero and one, is zero for an empty level only, and is one for the fullest level.\<close>

theorem bars_fit_gauge:
  assumes "p \<in> set (s_bids snapshot) \<union> set (s_asks snapshot)"
  shows "0 \<le> bar_fraction (s_quantity p) (max_volume snapshot) \<and>
    bar_fraction (s_quantity p) (max_volume snapshot) \<le> 1 \<and>
    (bar_fraction (s_quantity p) (max_volume snapshot) = 0 \<longleftrightarrow> s_quantity p = 0) \<and>
    (s_quantity p = max_volume snapshot \<longrightarrow> bar_fraction (s_quantity p) (max_volume snapshot) = 1)"
proof -
  have m: "max_volume snapshot \<noteq> 0" by (simp add: max_volume_def Let_def)
  from max_volume_ge [OF assms] show ?thesis
    using bar_fraction_bounds [OF _ m] bar_fraction_zero [OF m] bar_fraction_full [OF m] by simp
qed

theorem bars_fit_gauge_witness:
  "bar_fraction 7 (max_volume \<lparr>s_bids = [\<lparr>s_price = 5, s_quantity = 7\<rparr>], s_asks = [], s_trades = []\<rparr>) = 1"
  using bars_fit_gauge [of "\<lparr>s_price = 5, s_quantity = 7\<rparr>"
    "\<lparr>s_bids = [\<lparr>s_price = 5, s_quantity = 7\<rparr>], s_asks = [], s_trades = []\<rparr>"]
  by (simp add: max_volume_def)

text \<open>For a snapshot of a reachable book with orders on both sides, the spread shown is the
  difference of two prices of which the ask is the higher one; when a side is empty, the other side's
  price, or its negation, is shown as the spread.\<close>

theorem spread_of_reachable_book:
  assumes "reachable b" and "0 < depth"
  shows "case (m_Bids b, m_Asks b) of
      ((bid, _) # _, (ask, _) # _) \<Rightarrow> bid <s ask \<and> spread_val (GetSnapshot depth b) = ask - bid
    | ([], (ask, _) # _) \<Rightarrow> spread_val (GetSnapshot depth b) = ask
    | ((bid, _) # _, []) \<Rightarrow> spread_val (GetSnapshot depth b) = - bid
    | ([], []) \<Rightarrow> spread_val (GetSnapshot depth b) = 0"
proof -
  note sp = spread_val_def GetSnapshot_def front_price_snapshot [OF assms(2)]
  show ?thesis
  proof (cases "m_Bids b = [] \<or> m_Asks b = []")
    case True
    then show ?thesis by (auto simp: sp simp del: snapshot_side.simps split: list.split)
  next
    case False
    then obtain bid x xs ask y ys where "m_Bids b = (bid, x) # xs" "m_Asks b = (ask, y) # ys"
      by (metis neq_Nil_conv surj_pair)
    with best_prices_apart [OF assms(1) this] show ?thesis by (simp add: sp del: snapshot_side.simps)
  qed
qed

theorem spread_of_reachable_book_witness:
  "spread_val (GetSnapshot 100 sample_book) = 100 - 90"
proof -
  have "map fst (m_Bids sample_book) = [90]" "map fst (m_Asks sample_book) = [100, 101]" by code_simp+
  then obtain x y ys where "m_Bids sample_book = [(90, x)]" "m_Asks sample_book = (100, y) # ys" by auto
  with spread_of_reachable_book [OF sample_reachable, of 100] show ?thesis by simp
qed

text \<open>C39: what is drawn, to a depth of at least one, of a reachable book whose prices stay below
  \<open>2 ^ 51\<close> in absolute value: the drawing is defined; for each level shown, the bar fits its gauge, the
  text of the quantity reads back as the quantity, and the text of the price as the hundredth part
  of the price, without rounding error; and with orders on both
  sides the spread shown is the hundredth part of the difference of the best prices, a positive
  number. By the comment on the price type (1000 = 1$) each price shown, and the spread, is ten times
  the amount in dollars.\<close>

theorem render_of_reachable_book:
  assumes "reachable b" and "0 < depth" and small: "\<forall>s. \<forall>od\<in>set (queue s b). \<bar>sint (m_Price od)\<bar> < 2 ^ 51"
    and "snapshot = GetSnapshot depth b"
  shows "Render screen snapshot = Some (ESC # ''[H'' @ screen (main_layout snapshot)) \<and>
    (\<forall>l\<in>set (s_bids snapshot) \<union> set (s_asks snapshot).
       text_value (format_price (s_price l)) = of_int (sint (s_price l)) / 100 \<and>
       text_value (format_price (s_price l)) = 10 * comment_dollars (s_price l) \<and>
       read_nat (format_quantity (s_quantity l)) = unat (s_quantity l) \<and>
       0 \<le> bar_fraction (s_quantity l) (max_volume snapshot) \<and>
       bar_fraction (s_quantity l) (max_volume snapshot) \<le> 1) \<and>
    (case (m_Bids b, m_Asks b) of ((bid, _) # _, (ask, _) # _) \<Rightarrow>
       text_value (format_price (spread_val snapshot)) = of_int (sint ask - sint bid) / 100 \<and>
       text_value (format_price (spread_val snapshot)) = 10 * (comment_dollars ask - comment_dollars bid) \<and>
       0 < text_value (format_price (spread_val snapshot))
     | _ \<Rightarrow> True)"
proof -
  have wf: "book_wf b" using reachable_inv [OF assms(1)] by simp
  have lvl: "\<forall>l\<in>set (s_bids snapshot) \<union> set (s_asks snapshot). \<bar>sint (s_price l)\<bar> < 2 ^ 51"
    using snapshot_level_price [OF wf] small assms(4) by metis
  note drawn = snapshot_drawn [OF lvl]
  have spread: "text_value (format_price (spread_val snapshot)) = of_int (sint ask - sint bid) / 100 \<and>
      0 < sint ask - sint bid"
    if "m_Bids b = (bid, x) # xs" "m_Asks b = (ask, y) # ys" for bid x xs ask y ys
    using best_prices_apart [OF assms(1) that] drawn(2) that unfolding drawn(3)
    by (simp add: assms(4) GetSnapshot_def front_price_snapshot [OF assms(2)] word_sless_alt del: snapshot_side.simps)
  have pos: "0 < (of_int d / 100 :: rat)" if "0 < d" for d
    using that by simp
  have both: "case (m_Bids b, m_Asks b) of ((bid, _) # _, (ask, _) # _) \<Rightarrow>
       text_value (format_price (spread_val snapshot)) = of_int (sint ask - sint bid) / 100 \<and>
       text_value (format_price (spread_val snapshot)) = 10 * (comment_dollars ask - comment_dollars bid) \<and>
       0 < text_value (format_price (spread_val snapshot))
     | _ \<Rightarrow> True"
  proof (cases "m_Bids b = [] \<or> m_Asks b = []")
    case False
    then obtain bid x xs ask y ys where a: "m_Bids b = (bid, x) # xs" "m_Asks b = (ask, y) # ys"
      by (metis neq_Nil_conv surj_pair)
    from spread [OF a] have v: "text_value (format_price (spread_val snapshot)) = of_int (sint ask - sint bid) / 100"
      and p: "0 < text_value (format_price (spread_val snapshot))"
      using pos [of "sint ask - sint bid"] by (simp_all only: simp_thms)
    have "of_int (sint ask - sint bid) / 100 = 10 * (comment_dollars ask - comment_dollars bid)"
      by (simp add: comment_dollars_def diff_divide_distrib)
    with v p a show ?thesis by simp
  qed (auto split: list.split)
  from drawn(1,4) both show ?thesis by (simp add: comment_dollars_def format_quantity_def)
qed

text \<open>On the sample book, with bids at 90 and asks from 100, the number 0.10 is shown.\<close>

theorem render_of_reachable_book_witness:
  "text_value (format_price (spread_val (GetSnapshot 100 sample_book))) = 10 / 100"
proof -
  have p: "map (\<lambda>od. sint (m_Price od)) (queue Buy sample_book) = [90]"
    "map (\<lambda>od. sint (m_Price od)) (queue Sell sample_book) = [100, 101]" by code_simp+
  have "map fst (m_Bids sample_book) = [90]" "map fst (m_Asks sample_book) = [100, 101]" by code_simp+
  then obtain x y ys where b: "m_Bids sample_book = [(90, x)]" "m_Asks sample_book = (100, y) # ys" by auto
  have "sint (m_Price od) \<in> {90, 100, 101}" if "od \<in> set (queue s sample_book)" for s od
    using p arg_cong [OF p(1), of set] arg_cong [OF p(2), of set] that by (cases s) auto
  then have "\<forall>s. \<forall>od\<in>set (queue s sample_book). \<bar>sint (m_Price od)\<bar> < 2 ^ 51" by fastforce
  from render_of_reachable_book [OF sample_reachable _ this refl, of 100] show ?thesis
    by (simp add: b comment_dollars_def)
qed

end
