(* ===== verification/Simulation.thy ===== *)
theory Simulation
  imports Trading_Engine Renderer
begin

text \<open>
  \<^verbatim>\<open>src/src/main.cpp\<close>: the pseudo-random orders of the demonstration program and its
  loop, as the list of calls it makes on the engine.
\<close>

subsection \<open>The simulation\<close>

unbundle bit_operations_syntax

definition fast_rand :: "u32 \<Rightarrow> u32 \<Rightarrow> u32" where
  "fast_rand i seed =
     (let i = i XOR seed;
          i = i * 747796405;
          i = i XOR drop_bit 16 i;
          i = i * 2891336453
      in i XOR drop_bit 16 i)"

text \<open>\<open>fast_rand(...) % 1000 + 1\<close>, widened to a price or a quantity.\<close>

definition in_range :: "u32 \<Rightarrow> u32" where
  "in_range r = r mod 1000 + 1"

definition main_orders :: "u32 \<Rightarrow> CommandPayload list" where
  "main_orders cnt =
     [MakeAdd 1 (ucast (in_range (fast_rand cnt 3))) (ucast (in_range (fast_rand cnt 4))) Buy Limit GTC
        Standard Flags_None,
      MakeAdd 2 (ucast (in_range (fast_rand (cnt + 1) 5))) (ucast (in_range (fast_rand (cnt + 1) 6))) Sell
        Limit GTC Standard Flags_None]"

datatype main_action = Main_Render | Main_Submit CommandPayload

text \<open>\<open>clock\<close> lists the two readings of each iteration.\<close>

fun main_loop :: "int \<Rightarrow> int \<Rightarrow> u32 \<Rightarrow> (int \<times> int) list \<Rightarrow> (main_action list \<times> u32) option" where
  "main_loop start last_render cnt [] = None"
| "main_loop start last_render cnt ((t1, t2) # clock) =
     (if 3000000000 \<le> t1 - start then Some ([], cnt)
      else
        let due = 50000000 < t2 - last_render
        in do {
          (acts, sent) \<leftarrow> main_loop start (if due then t2 else last_render) (cnt + 2) clock;
          Some ((if due then [Main_Render] else []) @ map Main_Submit (main_orders cnt) @ acts, sent) })"

text \<open>The template argument \<^verbatim>\<open>TickRateNs\<close> the engine is built with: the count of 100
  microseconds.\<close>

definition main_tick_rate :: u64 where "main_tick_rate = 100"

text \<open>What \<^verbatim>\<open>main\<close> itself prints after the loop has sent \<open>sent\<close> orders.\<close>

definition main_output :: "u32 \<Rightarrow> string" where
  "main_output sent = ''Hit 3-second timeout!'' @ [CHR 0x0A] @ ''Sent orders: '' @ show_nat (unat sent) @ [CHR 0x0A]"

fun submitted_by :: "main_action \<Rightarrow> CommandPayload list" where
  "submitted_by (Main_Submit cmd) = [cmd]"
| "submitted_by Main_Render = []"

definition sim_order :: "CommandPayload \<Rightarrow> bool" where
  "sim_order cmd \<longleftrightarrow> (\<exists>client price quantity side. cmd = MakeAdd client price quantity side Limit GTC Standard Flags_None \<and>
     0 <s price \<and> price \<le>s 1000 \<and> 0 < quantity \<and> quantity \<le> 1000)"

lemma in_range_bounds: "1 \<le> unat (in_range r) \<and> unat (in_range r) \<le> 1000"
proof -
  have "unat (r mod 1000) = unat r mod 1000" by (simp add: unat_mod_distrib)
  then have "unat (r mod 1000) < 1000" by simp
  then show ?thesis by (simp add: in_range_def unat_word_ariths)
qed

lemma main_orders_sim: "cmd \<in> set (main_orders cnt) \<Longrightarrow> sim_order cmd"
proof -
  have "0 <s (ucast (in_range r) :: i64) \<and> (ucast (in_range r) :: i64) \<le>s 1000" for r
  proof -
    have "int 1 \<le> int (unat (in_range r))" "int (unat (in_range r)) \<le> int 1000"
      using in_range_bounds [of r] by (simp_all only: of_nat_le_iff)
    then have b: "1 \<le> uint (in_range r)" "uint (in_range r) \<le> 1000" by simp_all
    then have "uint (in_range r) < 2 ^ 63" by simp
    moreover have "- (2 ^ 63) \<le> uint (in_range r)" by (rule order_trans [of _ 0]) simp_all
    ultimately have "signed_take_bit 63 (uint (in_range r)) = uint (in_range r)"
      by (intro signed_take_bit_int_eq_self)
    then have "sint (ucast (in_range r) :: i64) = uint (in_range r)" by (simp add: signed_ucast_eq)
    with b show ?thesis by (simp add: word_sle_eq word_sless_alt)
  qed
  moreover have "0 < (ucast (in_range r) :: u64) \<and> (ucast (in_range r) :: u64) \<le> 1000" for r
  proof -
    have "unat (ucast (in_range r) :: u64) = unat (in_range r)"
      using in_range_bounds [of r] by (simp add: unsigned_ucast_eq take_bit_nat_eq_self)
    then show ?thesis using in_range_bounds [of r] by (simp add: word_less_nat_alt word_le_nat_alt)
  qed
  ultimately show "cmd \<in> set (main_orders cnt) \<Longrightarrow> sim_order cmd"
    unfolding main_orders_def sim_order_def by (auto; blast)
qed

subsection \<open>Properties\<close>

text \<open>The demonstration submits only limit orders with a price and a quantity between 1 and 1000,
  whatever the counter and the clock, and the number of orders it reports is the number it submitted,
  modulo \<open>2 ^ 32\<close>.\<close>

theorem main_submits_valid_orders:
  assumes "main_loop start last_render cnt clock = Some (acts, sent)"
  shows "(\<forall>cmd\<in>set (concat (map submitted_by acts)). sim_order cmd) \<and>
    sent = cnt + of_nat (length (concat (map submitted_by acts)))"
  using assms
proof (induction start last_render cnt clock arbitrary: acts sent rule: main_loop.induct)
  case (2 start last_render cnt t1 t2 clock)
  let ?due = "50000000 < t2 - last_render"
  show ?case
  proof (cases "3000000000 \<le> t1 - start")
    case False
    with "2.prems" obtain more where rest: "main_loop start (if ?due then t2 else last_render) (cnt + 2) clock = Some (more, sent)"
      and acts: "acts = (if ?due then [Main_Render] else []) @ map Main_Submit (main_orders cnt) @ more"
      by (auto simp: Let_def split: Option.bind_splits)
    have "concat (map submitted_by acts) = main_orders cnt @ concat (map submitted_by more)"
      by (simp add: acts comp_def)
    moreover have "length (main_orders cnt) = 2" by (simp add: main_orders_def)
    ultimately show ?thesis using "2.IH" [OF False refl rest] main_orders_sim by auto
  qed (use "2.prems" in simp)
qed simp


lemma main_loop_sample:
  "main_loop 0 0 0 [(0, 60000000), (3000000000, 0)] =
     Some (Main_Render # map Main_Submit (main_orders 0), 2)"
  by simp

theorem main_submits_valid_orders_witness:
  "\<forall>cmd\<in>set (concat (map submitted_by (Main_Render # map Main_Submit (main_orders 0)))). sim_order cmd"
  using main_submits_valid_orders [OF main_loop_sample] by blast

lemma spec_add_sim:
  assumes "spec_add now cid p q side Limit GTC Standard Flags_None illq next qs = (code, fs, next', qs')"
  shows "code = Success \<and> next' = next + 1"
  using assms by (auto simp: spec_add_def HasFlag_def flag_defs Let_def split: prod.splits if_splits)

text \<open>The book accepts every order of the demonstration: on every reachable book, when the command
  has a defined result, the closing event acknowledges the order with the next identifier.\<close>

theorem sim_orders_accepted:
  assumes "reachable b" and "sim_order cmd" and "book_step now cmd evs b b'"
  shows "\<exists>client. last evs = MakeOrderAccepted client (m_OrderCounter b)"
proof -
  from assms(2) obtain c p q s where cmd: "cmd = MakeAdd c p q s Limit GTC Standard Flags_None"
    by (auto simp: sim_order_def)
  have wf: "book_wf b" using reachable_inv [OF assms(1)] by simp
  obtain code fs next1 qs1 where sa: "spec_add now c p q s Limit GTC Standard Flags_None
      (illiquid cmd b) (m_OrderCounter b) (queues_of b) = (code, fs, next1, qs1)"
    by (metis prod_cases4)
  from book_step_spec(3) [OF wf assms(3)] sa spec_add_sim [OF sa]
  have "evs = trade_events c Standard (m_TradeCounter b) fs @ [MakeOrderAccepted c (m_OrderCounter b)]"
    by (auto simp: cmd spec_apply_def command_defs)
  then show ?thesis by auto
qed


theorem sim_orders_accepted_witness:
  "\<exists>evs b'. Apply 0 (MakeAdd 5 95 3 Sell Limit GTC Standard Flags_None) sample_book = Some (evs, b') \<and>
     (\<exists>client. last evs = MakeOrderAccepted client 4)"
proof -
  let ?cmd = "MakeAdd 5 95 3 Sell Limit GTC Standard Flags_None"
  obtain evs b' where ap: "Apply 0 ?cmd sample_book = Some (evs, b')" using sample_add by blast
  then have "book_step 0 ?cmd evs sample_book b'" by (intro applied) (simp_all add: sample_counters)
  moreover have "sim_order ?cmd"
    unfolding sim_order_def by (intro exI conjI, rule refl) (simp_all add: word_sless_alt word_sle_eq)
  ultimately have "\<exists>client. last evs = MakeOrderAccepted client (m_OrderCounter sample_book)"
    using sim_orders_accepted [OF sample_reachable] by blast
  with ap show ?thesis by (auto simp: sample_counters)
qed

lemma sim_price:
  "sim_order cmd \<Longrightarrow> command_ok cmd \<and> brings (price_in (\<lambda>p. 1 \<le> sint p \<and> sint p \<le> 1000)) cmd"
  by (auto simp: sim_order_def brings_def price_in_def MakeAdd_def command_ok_def
      word_sless_alt word_sle_eq)

lemma past_prices:
  assumes "apply_all cmds OrderBook_init = Some (evss, b)" and "\<forall>cmd\<in>set (map snd cmds). sim_order cmd"
    and "length cmds < 2 ^ 64 - 1" and "l \<in> set (s_bids (GetSnapshot depth b)) \<union> set (s_asks (GetSnapshot depth b))"
  shows "1 \<le> sint (s_price l) \<and> sint (s_price l) \<le> 1000"
proof -
  have "reachable b \<and> all_orders (price_in (\<lambda>p. 1 \<le> sint p \<and> sint p \<le> 1000)) (queues_of b)"
    using price_kept.apply_all_ok [OF assms(1) _ assms(3)] assms(2) sim_price by blast
  moreover from this obtain s od where "od \<in> set (queue s b)" and p: "m_Price od = s_price l"
    using snapshot_level_price [of b l depth] assms(4) reachable_inv by blast
  ultimately have "price_in (\<lambda>p. 1 \<le> sint p \<and> sint p \<le> 1000) od"
    unfolding all_orders_def by blast
  then show ?thesis by (simp add: price_in_def p)
qed

text \<open>C40: every frame of the demonstration is drawn. When only its orders are submitted, and fewer than
  \<open>2 ^ 64 - 1\<close> have been applied, whatever the interleaving of the threads, each snapshot that is obtained is drawn without undefined
  behaviour, every price in it is one of 1 to 1000 and is shown, without rounding error, as the
  number price / 100, at least 0.01 and at most 10, which is ten times the dollars the comment on the
  price type counts (0.001 to 1); the spread is shown as its hundredth part, and every bar
  fits its gauge.\<close>

theorem sim_frames_drawn:
  assumes "engine_reachable k s" and "\<forall>cmd\<in>set (submitted s). sim_order cmd"
    and "length (applied_cmds s) < 2 ^ 64 - 1" and "reader_got s = Some snapshot"
  shows "Render screen snapshot = Some (ESC # ''[H'' @ screen (main_layout snapshot)) \<and>
    text_value (format_price (spread_val snapshot)) = of_int (sint (spread_val snapshot)) / 100 \<and>
    (\<forall>l\<in>set (s_bids snapshot) \<union> set (s_asks snapshot).
       1 \<le> sint (s_price l) \<and> sint (s_price l) \<le> 1000 \<and>
       text_value (format_price (s_price l)) = of_int (sint (s_price l)) / 100 \<and>
       text_value (format_price (s_price l)) = 10 * comment_dollars (s_price l) \<and>
       comment_dollars (s_price l) \<le> 1 \<and>
       0 \<le> bar_fraction (s_quantity l) (max_volume snapshot) \<and>
       bar_fraction (s_quantity l) (max_volume snapshot) \<le> 1)"
proof -
  have inv: "queue_inv s" "snapshot_inv s" using engine_inv [OF assms(1)] by simp_all
  have applied: "\<forall>cmd\<in>set (map snd (applied_cmds s)). sim_order cmd"
    using inv(1) assms(2) by (simp add: queue_inv_def)
  have range: "1 \<le> sint (s_price l) \<and> sint (s_price l) \<le> 1000"
    if l: "l \<in> set (s_bids snapshot) \<union> set (s_asks snapshot)" for l
  proof -
    have "past_snapshot (applied_cmds s) snapshot" using inv(2) assms(4) by (simp add: snapshot_inv_def)
    with l obtain depth xs ys evss b where "applied_cmds s = xs @ ys"
      "apply_all xs OrderBook_init = Some (evss, b)" "snapshot = GetSnapshot depth b"
      by (auto simp: past_snapshot_def empty_snapshot_def)
    with past_prices [of xs evss b l depth] applied assms(3) l show ?thesis by auto
  qed
  then have "\<forall>l\<in>set (s_bids snapshot) \<union> set (s_asks snapshot). \<bar>sint (s_price l)\<bar> < 2 ^ 51"
    by fastforce
  note drawn = snapshot_drawn [OF this]
  have "comment_dollars (s_price l) \<le> 1" if "l \<in> set (s_bids snapshot) \<union> set (s_asks snapshot)" for l
  proof -
    have "(of_int (sint (s_price l)) :: rat) \<le> of_int 1000" using range [OF that] by (simp only: of_int_le_iff)
    then show ?thesis by (simp add: comment_dollars_def)
  qed
  with drawn(1,3,4) range show ?thesis by (simp add: comment_dollars_def)
qed

theorem sim_frames_drawn_witness:
  "Render (\<lambda>_. ''frame'') \<lparr>s_bids = [], s_asks = [\<lparr>s_price = 95, s_quantity = 3\<rparr>], s_trades = []\<rparr> \<noteq> None \<and>
   text_value (format_price 95) = 95 / 100 \<and> comment_dollars 95 = 95 / 1000 \<and> bar_fraction 3 3 \<le> 1"
proof -
  let ?cmd = "MakeAdd 5 95 3 Sell Limit GTC Standard Flags_None"
  let ?frame = "\<lparr>s_bids = [], s_asks = [\<lparr>s_price = 95, s_quantity = 3\<rparr>], s_trades = []\<rparr>"
  have "map_option (\<lambda>(evs, b). GetSnapshot 10 b = ?frame) (Apply 0 ?cmd OrderBook_init) = Some True"
    by code_simp
  from map_fst_Some [OF this] obtain evs b where ap: "Apply 0 ?cmd OrderBook_init = Some (evs, b)"
    and snap: "GetSnapshot 10 b = ?frame" by auto
  let ?s = "(frame_applied ?cmd b)\<lparr>engine := UpdateSnapshot 10 (engine (frame_applied ?cmd b)),
    reader_got := Some ?frame\<rparr>"
  have s: "engine_reachable 17 ?s"
    using frame_taken [OF frame_applied_reachable [OF refl ap], of 10] snap by simp
  have "sim_order ?cmd"
    unfolding sim_order_def by (intro exI conjI, rule refl) (simp_all add: word_sless_alt word_sle_eq)
  moreover have "max_volume ?frame = 3" by code_simp
  ultimately show ?thesis using sim_frames_drawn [OF s, of ?frame "\<lambda>_. ''frame''"]
    by (simp add: frame_applied_def comment_dollars_def)
qed

end
