(* ===== verification/Spec2Isabelle.thy ===== *)
theory Spec2Isabelle
  imports Book_Properties Struct_Layout Engine_Restart Audit_Log Socket_Drivers Renderer Simulation
begin

text \<open>
  \<^bold>\<open>A verification library for the Hermes order book\<close>

  The program is a trading engine in C++23. Clients submit commands (add, modify, cancel) to a
  \<^verbatim>\<open>TradingEngine\<close>, which queues them in a \<^verbatim>\<open>ThreadSafeQueue\<close>; its
  thread takes them one by one and hands each to \<^verbatim>\<open>OrderBook::Apply\<close>. The book
  keeps resting orders in price-ordered maps of linked lists and an index from order ids to list
  nodes; an incoming order is matched by the strategy \<^verbatim>\<open>PriceTimePriority\<close>, every
  execution and the outcome of the command become \<^verbatim>\<open>EventPayload\<close>s in a scratch
  array, and the engine publishes snapshots of the book through two slots and an atomic pointer.
  Around that core are a lock-free ring (\<^verbatim>\<open>SPSC_Queue\<close>), byte-level
  serialisation, journals written by an audit thread, a logger, TCP wrappers, a terminal renderer
  and a demonstration program. Each of them is a theory here. The definitions translate the code;
  the lemmas and the theorems marked with a claim number say what it guarantees, and at the end of
  some theories closed theorems show a run in which it does something it should not.

  \<^bold>\<open>Conventions\<close> (\<^verbatim>\<open>Prelude\<close>). Classes are records whose fields are the
  C++ members, a member function is a definition of the same name that takes the object last and
  returns it updated. Integers keep their width (\<open>u64\<close> and so on are words; prices are signed and
  compared with \<open><s\<close>), so sums and differences wrap as in the code. \<open>None\<close> always means that the
  C++ program has no defined result there; an error the program reports is an ordinary value.
  Clock readings, memory behind uninitialised bytes, the byte order of the machine and
  the answers of the operating system are arguments.

  \<^bold>\<open>Data\<close>

  \<^item> \<^verbatim>\<open>Globals\<close>, \<^verbatim>\<open>Orders\<close>, \<^verbatim>\<open>Payloads\<close>: the enumerations and flags of
    \<^verbatim>\<open>Core/globals.hpp\<close>, the classes of \<^verbatim>\<open>Order.hpp\<close> and
    \<^verbatim>\<open>Trade.hpp\<close>, the tagged unions of \<^verbatim>\<open>Commands.hpp\<close> and
    \<^verbatim>\<open>Events.hpp\<close>. \<open>command_ok\<close> and \<open>event_ok\<close>: the tag names the active member.
  \<^item> \<^verbatim>\<open>Byte_Codec\<close>: the layout that \<^verbatim>\<open>memcpy\<close> copies. The locale
    \<open>fixed_size_codec\<close> states what an array of such records needs (a size, and that decoding
    inverts encoding); commands, events and trades interpret it.
  \<^item> \<^verbatim>\<open>Struct_Layout\<close>: the classes member by member, laid out by the rule of the 64-bit ABIs; the
    sizes the code asserts, the absence of implicit padding, and that \<open>Byte_Codec\<close> puts every member
    at its offset.
  \<^item> \<^verbatim>\<open>Decimal_Text\<close>: decimal numbers as printed, and \<open>format_quantity\<close>.
  \<^item> \<^verbatim>\<open>Binary_Float\<close>, \<^verbatim>\<open>Price_Text\<close>: \<open>round_binary p\<close> rounds a rational to a binary
    floating-point number of precision \<open>p\<close> (24 for \<^verbatim>\<open>float\<close>, 53 for \<^verbatim>\<open>double\<close>; ties to
    even, no exponent limits, which none of the values here reaches). \<open>format_price\<close>, which goes
    through \<^verbatim>\<open>double\<close>, prints the hundredth part of the price, without error below \<open>2 ^ 52\<close>
    (\<open>text_value\<close> reads the text back). The comment on the type \<^verbatim>\<open>Price\<close> has 1000 for a dollar: the
    number printed is ten times the dollars it stands for by that comment (\<open>comment_dollars\<close>).

  \<^bold>\<open>The order book\<close>

  \<^item> \<^verbatim>\<open>Std_Map\<close>: \<^verbatim>\<open>std::map\<close> as an association list in iteration order, behind
    the locale \<open>ordered_map\<close> over its comparator; both comparators interpret it.
  \<^item> \<^verbatim>\<open>Order_Book\<close>: the class, its queries, \<open>RecordFill\<close>, \<open>InternalCancelOrder\<close>.
    List nodes are numbers, iterators are addresses into the maps, a dangling access is \<open>None\<close>.
  \<^item> \<^verbatim>\<open>Matching\<close>: \<open>match_step\<close> and the loop \<open>Match\<close>, a \<open>partial_function\<close>, since nothing
    in the code bounds it.
  \<^item> \<^verbatim>\<open>Book_Ops\<close>: \<open>add_order\<close> over the strategy (the template parameter),
    \<open>InternalAddOrder\<close> for the one the program uses, \<open>InternalModifyOrder\<close>, the handlers, \<open>Apply\<close>.
  \<^item> \<^verbatim>\<open>Book_Inv\<close>, \<^verbatim>\<open>Book_Updates\<close>: \<open>book_wf\<close> (levels sorted, none
    empty, index and lists agree, every order at its own side and price) and the effect of every
    write on it and on the priority queues \<open>queue\<close>.
  \<^item> \<^verbatim>\<open>Match_Spec\<close>: \<open>fill_queue\<close>, the specification of matching on a plain list of
    orders; \<open>Match_refines\<close>; and the locale \<open>matching_strategy\<close>, the law a strategy owes the book.
    \<open>Match\<close> interprets it.
  \<^item> \<^verbatim>\<open>Book_Spec\<close>: the abstract book (two priority queues and the id counter) with
    \<open>spec_add\<close>, \<open>spec_cancel\<close>, \<open>spec_modify\<close>, \<open>spec_apply\<close>, and the refinement of every operation.
    What concerns adding an order is proved in the context of \<open>matching_strategy\<close>, for every
    strategy that obeys the law.
  \<^item> \<^verbatim>\<open>Book_Volume\<close>: what the displayed volume of a level is, after each write, relative
    to what its orders have left, and \<open>exact_volumes\<close>, under which the fill-or-kill scan is right.
  \<^item> \<^verbatim>\<open>Order_Invariant\<close>: the locale \<open>order_predicate\<close>, a property of single orders that every
    operation keeps for all resting orders; interpreted for the size of an order and for its price.
  \<^item> \<^verbatim>\<open>Book_Runs\<close>, \<^verbatim>\<open>Book_Facts\<close>: reachable books and their invariants (uncrossed, orders
    sound), runs of command lists (\<open>apply_all\<close>, and as steps \<open>book_run\<close>); case analyses of the
    operations; \<open>crosses\<close>, \<open>within_reach\<close> and \<open>expected_code\<close>, which say what a new order meets, can
    trade and is answered in terms of the resting orders alone.
  \<^item> \<^verbatim>\<open>Book_Sample\<close>, \<^verbatim>\<open>Book_Properties\<close>: a sample book, and the properties with
    their applications to it.
  \<^item> \<^verbatim>\<open>Book_Quantity\<close>: what is traded is taken from both sides to the last unit, and a run of
    commands never ends with more than it was asked for.

  \<^bold>\<open>Queues and the engine\<close>

  \<^item> \<^verbatim>\<open>Queue_Contract\<close>: the locale \<open>fifo_queue\<close>, with the run lemma that what was pushed
    and accepted is what was popped followed by what is still held.
  \<^item> \<^verbatim>\<open>Thread_Safe_Queue\<close>: the member functions of the mutex-guarded queue, each one atomic
    step (they hold the mutex throughout), interpret the contract. \<open>cv_step\<close> adds the threads
    blocked on the condition variable, with notifications outside the critical section and
    spurious wake-ups: no wake-up is lost.
  \<^item> \<^verbatim>\<open>Spsc_Ring\<close>: \<open>spsc_push\<close> and \<open>spsc_pop\<close> interpret the contract; \<open>spsc_step\<close> runs the two
    threads one shared access at a time, an acquire load returning any value between the one
    last seen and the current one. \<open>spsc_inv\<close> ties the wrapped indices to counters that do not wrap.
  \<^item> \<^verbatim>\<open>Trading_Engine\<close>: the members of \<^verbatim>\<open>TradingEngine.hpp\<close> as functions, then
    \<open>run_step\<close> (the engine thread) and \<open>client_step\<close> (clients, one thread that updates the snapshot,
    one that reads it). Two overlapping accesses to the book or to a slot, one of them a write, are
    a data race: such a state (\<open>racing\<close>) has no successor, and the properties speak of the
    states reached without one.
  \<^item> \<^verbatim>\<open>Engine_Restart\<close>: \<^verbatim>\<open>Start\<close> on an engine that runs. \<open>mode_step\<close> lets the old and the new
    thread run side by side until the old one has been joined; up to a data race, which can occur
    (\<open>second_start_races\<close>), commands keep their order and the book conserves quantity. The stop of the
    old thread is requested once, and what remains until the join are steps of that thread.
  \<^item> \<^verbatim>\<open>Simulation\<close>: the orders and calls of \<^verbatim>\<open>main.cpp\<close>, composed with the engine, the
    book and the renderer.

  \<^bold>\<open>Input, output\<close>

  \<^item> \<^verbatim>\<open>File_Stream\<close>: byte buffers, whole files, and \<open>OutputFileStream\<close> over an \<open>ofstream\<close>
    that is its error state, its own buffer and the file.
  \<^item> \<^verbatim>\<open>Journal_Contract\<close>: the locales \<open>append_log\<close> (what an append-only file promises,
    which the stream interprets) and \<open>record_journal\<close>, which extends it and \<open>fixed_size_codec\<close>: what
    of a journal can be read back, also after a failure.
  \<^item> \<^verbatim>\<open>Audit_Log\<close>: the journals, as interpretations of \<open>record_journal\<close>, and \<open>audit_step\<close> for the writer thread, the thread that
    stops it and those that enqueue.
  \<^item> \<^verbatim>\<open>Logging\<close>, \<^verbatim>\<open>Networking\<close>, \<^verbatim>\<open>Renderer\<close>: the logger and its
    macros; the three socket owners with the set of open descriptors in the state; and the tree
    of FTXUI elements the renderer builds from a snapshot (\<open>main_layout\<close>), down to the texts and the
    \<^verbatim>\<open>float\<close> fractions of the bars.
  \<^item> \<^verbatim>\<open>Socket_Drivers\<close>: the two programs \<^verbatim>\<open>test.cpp\<close> and
    \<^verbatim>\<open>test2.cpp\<close> that try the sockets out, as functions from what the operating system
    answers to what they print and leave open.

  \<^bold>\<open>How the parts meet.\<close> The engine's commands go through the queue contract into
  \<open>Apply\<close>; \<open>commands_applied_in_order\<close> makes the engine's book the \<open>apply_all\<close> of the
  commands submitted, so that every invariant of \<open>reachable\<close> books holds of it
  (\<open>engine_book_uncrossed\<close>) and of the snapshots it publishes (\<open>snapshot_is_a_past_book\<close>), which is
  what the renderer shows (\<open>render_of_reachable_book\<close>). The audit thread takes its
  entries from the same queue, encodes them with the codecs and writes them through the
  streams; \<open>command_journal_decodes\<close> and \<open>journal_files_recover\<close> compose the three. \<open>sim_orders_accepted\<close> and
  \<open>sim_frames_drawn\<close> compose the demonstration with the book, and with the engine's threads, the
  snapshots and the renderer.

  \<^bold>\<open>Bounds.\<close> No fuel is used. \<open>Match\<close> is shown to return on every well-formed book by
  induction on the queue of the other side; \<open>stop_drains_queue\<close> gives the engine thread a measure,
  two steps for each queued command and four more, after which it has ended unless a command has no
  defined result or the thread races with a snapshot being taken. The ring has \<open>2 ^ k\<close> slots with
  \<open>k < 32\<close>, the width of its indices. Properties of runs assume fewer than
  \<open>2 ^ 64 - 1\<close> commands, so that the order counter does not wrap; the trade counter may wrap. A
  command that makes 128 or more trades writes past the scratch array and is \<open>None\<close>
  (\<open>Apply_defined_iff\<close> says exactly when). The volumes that matter for fill-or-kill are compared
  under the hypothesis that the other side totals less than \<open>2 ^ 64\<close>.

  \<^bold>\<open>Not modelled.\<close> \<^verbatim>\<open>TryGetEvent\<close> calls a member
  \<^verbatim>\<open>SPSC_Queue\<close> does not have, so it has no meaning until it is instantiated, and then
  does not compile. What FTXUI prints for a tree of elements is a
  parameter. \<^verbatim>\<open>vector::reserve\<close> and sleeping between empty polls are left out. The lines \<^verbatim>\<open>Order::Fill\<close> and \<^verbatim>\<open>Order::ModifyOrder\<close> log
  are in \<open>Fill_logged\<close> and \<open>ModifyOrder_logged\<close> and left out of the operations of the book, as is
  the line \<^verbatim>\<open>InternalAddOrder\<close> logs for a match type it does not support.
  Of the sockets the POSIX branch is modelled, the Windows branch
  is not. \<^verbatim>\<open>MPSC_Queue.hpp\<close> is an empty class, and \<^verbatim>\<open>m_ExpiryWatchlist\<close> is never written. The memory model is
  the one stated for \<open>spsc_step\<close>; allocation failure is not considered.
\<close>

end
